(* ===== verification/Cmoo_Base.thy ===== *)
theory Cmoo_Base
  imports Main "HOL-Library.Word" "HOL-Library.Multiset"
begin

unbundle bit_operations_syntax

text \<open>
  The prelude of the development: the machine types of \<^verbatim>\<open>src/src/defs.h\<close>, the faults a C
  program can run into, the result type that carries them, bytes and C strings, and the
  interface of a table of named slots, which the method, global and persistence lists of the
  driver implement.
\<close>

section \<open>Machine types\<close>

text \<open>The type definitions of \<^verbatim>\<open>defs.h\<close>: an opcode is an octet, an object id and a value are
  64 bit words. Addresses of heap strings and of sockets end up inside values, so they are
  64 bit words as well.\<close>

type_synonym byte = "8 word"
type_synonym opcode = "8 word"
type_synonym object_id = "64 word"
type_synonym val = "64 word"
type_synonym addr = "64 word"
type_synonym cstring = "byte list"

section \<open>Faults and results\<close>

text \<open>
  What can go wrong when the C code runs. \<open>Assert_failed\<close> is a failing \<^verbatim>\<open>assert\<close> (the process
  aborts), \<open>Fatal_exit\<close> a call of \<^verbatim>\<open>exit(1)\<close>; \<open>Stack_overflow\<close> is a recursion that exhausts the
  C stack, \<open>Blocked\<close> a wait that is never ended. The others are undefined behaviour: the model
  stops at the operation that has it.
\<close>

datatype fault =
    Assert_failed
  | Fatal_exit
  | Null_deref
  | Use_after_free
  | Out_of_bounds
  | Uninit_read
  | Wrong_member
  | Signed_overflow
  | Div_by_zero
  | Heap_corruption
  | Malloc_failed
  | Stack_overflow
  | Blocked

type_synonym 'a res = "fault + 'a"

fun rbind :: "'a res \<Rightarrow> ('a \<Rightarrow> 'b res) \<Rightarrow> 'b res" where
  "rbind (Inl f) k = Inl f"
| "rbind (Inr x) k = k x"

definition c_assert :: "bool \<Rightarrow> unit res" where
  "c_assert b = (if b then Inr () else Inl Assert_failed)"

text \<open>The collection of the rules that open a successful computation.\<close>

named_theorems res_simps

lemma rbind_eq_Inr [res_simps]:
  "rbind m k = Inr y \<longleftrightarrow> (\<exists>x. m = Inr x \<and> k x = Inr y)"
  by (cases m) auto

lemma rbind_eq_Inl [res_simps]:
  "rbind m k = Inl f \<longleftrightarrow> m = Inl f \<or> (\<exists>x. m = Inr x \<and> k x = Inl f)"
  by (cases m) auto

lemma rbind_InrE:
  assumes "rbind m k = Inr y"
  obtains x where "m = Inr x" "k x = Inr y"
  using assms by (cases m) auto

lemma rbind_Inr_right [simp]: "rbind m Inr = m"
  by (cases m) auto

lemma rbind_assoc: "rbind (rbind m k) l = rbind m (\<lambda>x. rbind (k x) l)"
  by (cases m) auto

lemma c_assert_True [simp]: "c_assert True = Inr ()"
  by (simp add: c_assert_def)

lemma c_assert_False [simp]: "c_assert False = Inl Assert_failed"
  by (simp add: c_assert_def)

lemma c_assert_eq_Inr [res_simps]: "c_assert b = Inr u \<longleftrightarrow> b"
  by (simp add: c_assert_def)

lemma rbind_cong [fundef_cong]:
  "m = m' \<Longrightarrow> (\<And>x. m' = Inr x \<Longrightarrow> k x = k' x) \<Longrightarrow> rbind m k = rbind m' k'"
  by (cases m') auto

text \<open>A heap of structures that are addressed by the order of their allocation: reading an
  address that was never allocated is out of bounds, one that was freed a use after free.\<close>

definition heap_get :: "'a option list \<Rightarrow> nat \<Rightarrow> 'a res" where
  "heap_get h a =
     (if a < length h then (case h ! a of None \<Rightarrow> Inl Use_after_free | Some x \<Rightarrow> Inr x)
      else Inl Out_of_bounds)"

definition heap_put :: "nat \<Rightarrow> 'a \<Rightarrow> 'a option list \<Rightarrow> 'a option list" where
  "heap_put a x h = h[a := Some x]"

definition heap_free :: "nat \<Rightarrow> 'a option list \<Rightarrow> 'a option list" where
  "heap_free a h = h[a := None]"

lemma heap_get_eq_Inr [res_simps]:
  "heap_get h a = Inr x \<longleftrightarrow> a < length h \<and> h ! a = Some x"
  by (auto simp: heap_get_def split: option.splits)

lemma length_heap_put [simp]: "length (heap_put a x h) = length h"
  by (simp add: heap_put_def)

lemma length_heap_free [simp]: "length (heap_free a h) = length h"
  by (simp add: heap_free_def)

lemma heap_get_put [simp]: "a < length h \<Longrightarrow> heap_get (heap_put a x h) a = Inr x"
  by (simp add: heap_get_def heap_put_def)

lemma heap_get_put_other [simp]: "a \<noteq> b \<Longrightarrow> heap_get (heap_put a x h) b = heap_get h b"
  by (simp add: heap_get_def heap_put_def)

lemma heap_get_free_other [simp]: "a \<noteq> b \<Longrightarrow> heap_get (heap_free a h) b = heap_get h b"
  by (simp add: heap_get_def heap_free_def)

lemma heap_get_append [simp]: "a < length h \<Longrightarrow> heap_get (h @ k) a = heap_get h a"
  by (simp add: heap_get_def nth_append)

lemma heap_get_new [simp]: "heap_get (h @ [Some x]) (length h) = Inr x"
  by (simp add: heap_get_def)

section \<open>Bytes and C strings\<close>

text \<open>A \<^verbatim>\<open>char*\<close> argument is read up to the first zero byte (\<^verbatim>\<open>strcmp\<close>, \<^verbatim>\<open>strlen\<close>,
  \<^verbatim>\<open>strcpy\<close>); \<open>lit\<close> is the byte sequence of a string literal.\<close>

definition cstr :: "byte list \<Rightarrow> cstring" where
  "cstr bs = takeWhile (\<lambda>b. b \<noteq> 0) bs"

definition lit :: "string \<Rightarrow> cstring" where
  "lit s = map of_char s"

lemma cstr_append_zero: "0 \<notin> set bs \<Longrightarrow> cstr (bs @ 0 # cs) = bs"
  unfolding cstr_def by (subst takeWhile_append2) (metis, simp)

lemma zero_notin_cstr [simp]: "0 \<notin> set (cstr bs)"
  by (auto simp: cstr_def dest: set_takeWhileD)

lemma cstr_idem: "0 \<notin> set bs \<Longrightarrow> cstr bs = bs"
  unfolding cstr_def takeWhile_eq_all_conv by metis

text \<open>Little endian encoding of a machine word in \<open>n\<close> bytes, as \<^verbatim>\<open>memcpy\<close> from an integer
  variable writes it on the supported platforms.\<close>

fun le_bytes :: "nat \<Rightarrow> nat \<Rightarrow> byte list" where
  "le_bytes 0 x = []"
| "le_bytes (Suc n) x = of_nat x # le_bytes n (x div 256)"

fun le_value :: "byte list \<Rightarrow> nat" where
  "le_value [] = 0"
| "le_value (b # bs) = unat b + 256 * le_value bs"

lemma length_le_bytes [simp]: "length (le_bytes n x) = n"
  by (induction n arbitrary: x) auto

lemma le_bytes_numeral:
  "le_bytes (numeral k) x = of_nat x # le_bytes (pred_numeral k) (x div 256)"
  by (simp only: numeral_eq_Suc [of k] le_bytes.simps)

lemma unat_of_nat_byte: "unat (of_nat x :: byte) = x mod 256"
  by (simp add: unat_of_nat)

lemma mod_mult_split: "(x::nat) mod (a * b) = x mod a + a * (x div a mod b)"
  by (simp add: mod_mult2_eq add.commute)

lemma le_value_le_bytes: "le_value (le_bytes n x) = x mod 256 ^ n"
  by (induction n arbitrary: x) (auto simp: unat_of_nat_byte mod_mult_split)

lemma le_value_bound: "le_value bs < 256 ^ length bs"
proof (induction bs)
  case (Cons b bs)
  have "unat b < 256" using unsigned_less [where ?'b = 8 and w = b] by simp
  with Cons show ?case by simp
qed simp

lemma le_bytes_le_value: "le_bytes (length bs) (le_value bs) = bs"
proof (induction bs)
  case (Cons b bs)
  have b: "unat b < 256" using unsigned_less [where ?'b = 8 and w = b] by simp
  have "(256 :: byte) = 0" by simp
  then have "(256 :: byte) * of_nat (le_value bs) = 0" by (simp only: mult_zero_left)
  then have "of_nat (unat b + 256 * le_value bs) = b" by simp
  moreover have "(unat b + 256 * le_value bs) div 256 = le_value bs"
    using b by simp
  ultimately show ?case using Cons by simp
qed simp

text \<open>\<^verbatim>\<open>memmove\<close> of \<open>n\<close> bytes inside one buffer, from offset \<open>src\<close> to offset \<open>dst\<close>.\<close>

definition memmove :: "nat \<Rightarrow> nat \<Rightarrow> nat \<Rightarrow> byte list \<Rightarrow> byte list res" where
  "memmove dst src n bs =
     (if src + n \<le> length bs \<and> dst + n \<le> length bs
      then Inr (take dst bs @ take n (drop src bs) @ drop (dst + n) bs)
      else Inl Out_of_bounds)"

lemma length_memmove: "memmove dst src n bs = Inr bs' \<Longrightarrow> length bs' = length bs"
  by (auto simp: memmove_def split: if_splits)

section \<open>Tables of named slots\<close>

text \<open>
  The driver keeps methods, globals and persisted objects in singly linked lists that are
  searched from the front. An existing entry is overwritten in place, a new one is put at the
  front.
\<close>

fun slot_find :: "('k \<times> 'v) list \<Rightarrow> 'k \<Rightarrow> 'v option" where
  "slot_find [] k = None"
| "slot_find ((k', v) # s) k = (if k' = k then Some v else slot_find s k)"

fun slot_replace :: "('k \<times> 'v) list \<Rightarrow> 'k \<Rightarrow> 'v \<Rightarrow> ('k \<times> 'v) list" where
  "slot_replace [] k v = []"
| "slot_replace ((k', v') # s) k v =
     (if k' = k then (k', v) # s else (k', v') # slot_replace s k v)"

definition slot_store :: "('k \<times> 'v) list \<Rightarrow> 'k \<Rightarrow> 'v \<Rightarrow> ('k \<times> 'v) list" where
  "slot_store s k v = (case slot_find s k of None \<Rightarrow> (k, v) # s | Some _ \<Rightarrow> slot_replace s k v)"

lemma slot_find_map_of: "slot_find s k = map_of s k"
  by (induction s k rule: slot_find.induct) auto

lemma slot_find_replace_same:
  "slot_find s k = Some w \<Longrightarrow> slot_find (slot_replace s k v) k = Some v"
  by (induction s k v rule: slot_replace.induct) (auto split: if_splits)

lemma slot_find_replace_other:
  "j \<noteq> k \<Longrightarrow> slot_find (slot_replace s k v) j = slot_find s j"
  by (induction s k v rule: slot_replace.induct) auto

lemma map_fst_slot_replace: "map fst (slot_replace s k v) = map fst s"
  by (induction s k v rule: slot_replace.induct) auto

lemma slot_find_None_iff: "slot_find s k = None \<longleftrightarrow> k \<notin> fst ` set s"
  by (induction s k rule: slot_find.induct) auto

lemma distinct_slot_store:
  "distinct (map fst s) \<Longrightarrow> distinct (map fst (slot_store s k v))"
  by (auto simp: slot_store_def map_fst_slot_replace slot_find_None_iff split: option.splits)

text \<open>The contract of such a table, whatever it is stored in: a lookup sees the last store
  under the same key and nothing of the others. \<open>key\<close> is what two names are compared by.\<close>

locale slot_table =
  fixes key :: "'n \<Rightarrow> 'k"
    and get :: "'s \<Rightarrow> 'n \<Rightarrow> 'v option"
    and put :: "'s \<Rightarrow> 'n \<Rightarrow> 'v \<Rightarrow> 's"
  assumes get_put_same: "key j = key n \<Longrightarrow> get (put s n v) j = Some v"
    and get_put_other: "key j \<noteq> key n \<Longrightarrow> get (put s n v) j = get s j"
begin

lemma get_put: "get (put s n v) j = (if key j = key n then Some v else get s j)"
  by (simp add: get_put_same get_put_other)

lemma put_overwrites: "get (put (put s n v) n w) = get (put s n w)"
  by (rule ext) (simp add: get_put)

lemma put_commutes:
  "key j \<noteq> key n \<Longrightarrow> get (put (put s j v) n w) = get (put (put s n w) j v)"
  by (rule ext) (simp add: get_put)

lemma get_fold_put:
  "get (fold (\<lambda>(n, v) s. put s n v) nvs s) j =
     (case map_of (rev (map (\<lambda>(n, v). (key n, v)) nvs)) (key j) of
        None \<Rightarrow> get s j | Some v \<Rightarrow> Some v)"
  by (induction nvs arbitrary: s) (auto simp: get_put map_add_def split: option.splits)

end

interpretation slots: slot_table id slot_find slot_store
  by unfold_locales
    (auto simp: slot_store_def slot_find_replace_same slot_find_replace_other split: option.splits)

end
