(* ===== verification/Cmoo_Lock.thy ===== *)
theory Cmoo_Lock
  imports Cmoo_Base
begin

text \<open>
  The locks of \<^verbatim>\<open>src/src/lock.c\<close>: recursive, fair, shared or exclusive, upgrading and deadlock
  detecting. A lock is a chain of wait groups; the transactions in the first one hold it. The
  chain is the list of the groups in the order of their \<^verbatim>\<open>next\<close> pointers, each with its address;
  \<open>last_wait_group\<close> is a pointer of its own, as in the code, and may be wrong. Transactions are
  pointers into the heap \<open>txs\<close>, of which this module reads the sid and the cid.

  Everything between taking the latch of a lock and waiting on a condition or returning is one
  step: \<open>lock_enter\<close> is \<^verbatim>\<open>lock_lock\<close> up to its first wait, \<open>lock_wait\<close> the test of the wait loop
  and what follows it. \<open>stack_frames\<close> is the number of recursive calls the C stack has room for.
\<close>

section \<open>State\<close>

datatype lock_mode = LOCK_SHARED | LOCK_EXCLUSIVE

datatype lock_code = LOCK_TAKEN | LOCK_DEADLOCK | LOCK_STALE

record waitgroup =
  wg_mode :: lock_mode
  wg_entries :: "nat list"
  wg_deadlocked :: "nat option"

type_synonym groups = "(nat \<times> waitgroup) list"

record lock =
  wait_groups :: groups
  last_wait_group :: "nat option"

text \<open>A transaction (\<^verbatim>\<open>struct store_tx\<close> of \<^verbatim>\<open>store.c\<close>): its sid, its cid (\<open>None\<close> when it was never
  assigned) and the objects it locked.\<close>

record store_tx =
  tx_sid :: "64 word"
  tx_cid :: "nat option"
  tx_locked :: "nat list"

text \<open>The arrays indexed by a cid are not initialised: \<open>None\<close> is an element never written.\<close>

record lsys =
  max_tasks :: nat
  wfg_matrix :: "bool list"
  tx_by_cid :: "nat option list"
  blocked_waitgroup_by_cid :: "nat option list"
  blocked_lock_by_cid :: "nat option list"
  locks :: "lock option list"
  next_wg :: nat
  txs :: "store_tx option list"
  stack_frames :: nat

section \<open>Wait groups\<close>

definition lock_waitgroup_new :: "lock_mode \<Rightarrow> nat \<Rightarrow> waitgroup" where
  "lock_waitgroup_new m tx = \<lparr>wg_mode = m, wg_entries = [tx], wg_deadlocked = None\<rparr>"

definition wg_get :: "nat \<Rightarrow> groups \<Rightarrow> waitgroup res" where
  "wg_get i gs = (case map_of gs i of None \<Rightarrow> Inl Use_after_free | Some g \<Rightarrow> Inr g)"

fun wg_upd :: "nat \<Rightarrow> (waitgroup \<Rightarrow> waitgroup) \<Rightarrow> groups \<Rightarrow> groups" where
  "wg_upd i f [] = []"
| "wg_upd i f ((j, g) # gs) = (if j = i then (j, f g) # gs else (j, g) # wg_upd i f gs)"

text \<open>\<^verbatim>\<open>last_wait_group->next = nwg\<close>: what followed the last group is cut off.\<close>

fun wg_link_after :: "nat \<Rightarrow> nat \<times> waitgroup \<Rightarrow> groups \<Rightarrow> groups" where
  "wg_link_after i new [] = []"
| "wg_link_after i new ((j, g) # gs) =
     (if j = i then [(j, g), new] else (j, g) # wg_link_after i new gs)"

definition last_group :: "lock \<Rightarrow> (nat \<times> waitgroup) res" where
  "last_group lk =
     (case last_wait_group lk of
        None \<Rightarrow> Inl Null_deref
      | Some i \<Rightarrow> rbind (wg_get i (wait_groups lk)) (\<lambda>g. Inr (i, g)))"

section \<open>The wait-for graph\<close>

definition store_tx_get_sid :: "nat \<Rightarrow> lsys \<Rightarrow> 64 word res" where
  "store_tx_get_sid tx s = rbind (heap_get (txs s) tx) (\<lambda>t. Inr (tx_sid t))"

definition store_tx_get_cid :: "nat \<Rightarrow> lsys \<Rightarrow> nat res" where
  "store_tx_get_cid tx s = rbind (heap_get (txs s) tx) (\<lambda>t.
     case tx_cid t of None \<Rightarrow> Inl Uninit_read | Some c \<Rightarrow> Inr c)"

definition array_get :: "'a option list \<Rightarrow> nat \<Rightarrow> 'a res" where
  "array_get as c =
     (if c < length as then (case as ! c of None \<Rightarrow> Inl Uninit_read | Some a \<Rightarrow> Inr a)
      else Inl Out_of_bounds)"

definition array_put :: "nat \<Rightarrow> 'a \<Rightarrow> 'a option list \<Rightarrow> 'a option list res" where
  "array_put c a as = (if c < length as then Inr (as[c := Some a]) else Inl Out_of_bounds)"

definition wfg_edge :: "lsys \<Rightarrow> nat \<Rightarrow> nat \<Rightarrow> bool res" where
  "wfg_edge s x y =
     (if x + y * max_tasks s < length (wfg_matrix s) then Inr (wfg_matrix s ! (x + y * max_tasks s))
      else Inl Out_of_bounds)"

definition wfg_set :: "nat \<Rightarrow> nat \<Rightarrow> lsys \<Rightarrow> lsys res" where
  "wfg_set x y s =
     (if x + y * max_tasks s < length (wfg_matrix s)
      then Inr (s\<lparr>wfg_matrix := (wfg_matrix s)[x + y * max_tasks s := True]\<rparr>)
      else Inl Out_of_bounds)"

record wfg_result =
  res_tx :: nat
  res_cid :: nat
  res_sid :: "64 word"

definition wfg_candidate :: "lsys \<Rightarrow> nat \<Rightarrow> wfg_result res" where
  "wfg_candidate s y =
     rbind (array_get (tx_by_cid s) y) (\<lambda>t.
     rbind (store_tx_get_sid t s) (\<lambda>sid. Inr \<lparr>res_tx = t, res_cid = y, res_sid = sid\<rparr>))"

text \<open>The loop of \<^verbatim>\<open>wfg_dfs\<close> over the columns \<open>ys\<close> that are left; \<open>frames\<close> is what is left of the
  C stack. A null \<^verbatim>\<open>tx\<close> in the result is \<open>None\<close>.\<close>

fun wfg_scan :: "lsys \<Rightarrow> nat \<Rightarrow> nat \<Rightarrow> nat \<Rightarrow> nat list \<Rightarrow> wfg_result option res" where
  "wfg_scan s root_cid frames cid [] = Inr None"
| "wfg_scan s root_cid frames cid (y # ys) =
     rbind (wfg_edge s cid y) (\<lambda>b.
       if \<not> b then wfg_scan s root_cid frames cid ys
       else if y = root_cid then rbind (wfg_candidate s y) (\<lambda>r. Inr (Some r))
       else case frames of
              0 \<Rightarrow> Inl Stack_overflow
            | Suc fs \<Rightarrow>
                rbind (wfg_scan s root_cid fs y [0..<max_tasks s]) (\<lambda>rec_res.
                  case rec_res of
                    None \<Rightarrow> wfg_scan s root_cid frames cid ys
                  | Some rr \<Rightarrow> rbind (wfg_candidate s y) (\<lambda>r.
                      Inr (Some (if res_sid rr < res_sid r then r else rr)))))"

definition wfg_dfs :: "lsys \<Rightarrow> nat \<Rightarrow> nat \<Rightarrow> wfg_result option res" where
  "wfg_dfs s cid root_cid = wfg_scan s root_cid (stack_frames s) cid [0..<max_tasks s]"

section \<open>Creation and release\<close>

definition locks_new_ctx :: "nat \<Rightarrow> nat \<Rightarrow> lsys" where
  "locks_new_ctx n frames =
     \<lparr>max_tasks = n, wfg_matrix = replicate (n * n) False, tx_by_cid = replicate n None,
      blocked_waitgroup_by_cid = replicate n None, blocked_lock_by_cid = replicate n None,
      locks = [], next_wg = 0, txs = [], stack_frames = frames\<rparr>"

definition locks_free_ctx :: "lsys \<Rightarrow> unit res" where
  "locks_free_ctx s = c_assert (True \<notin> set (wfg_matrix s))"

definition lock_new :: "lsys \<Rightarrow> nat \<times> lsys" where
  "lock_new s =
     (length (locks s), s\<lparr>locks := locks s @ [Some \<lparr>wait_groups = [], last_wait_group = None\<rparr>]\<rparr>)"

definition lock_put :: "nat \<Rightarrow> lock \<Rightarrow> lsys \<Rightarrow> lsys" where
  "lock_put l lk s = s\<lparr>locks := heap_put l lk (locks s)\<rparr>"

definition lock_free :: "nat \<Rightarrow> lsys \<Rightarrow> lsys res" where
  "lock_free l s = rbind (heap_get (locks s) l) (\<lambda>lk.
     if wait_groups lk \<noteq> [] then Inl Fatal_exit else Inr (s\<lparr>locks := heap_free l (locks s)\<rparr>))"

section \<open>Waiting\<close>

datatype lock_outcome =
    Returned lock_code
  | Waiting nat     \<comment> \<open>in the wait group of case E\<close>
  | Joined nat      \<comment> \<open>in a shared wait group that is not active (case C)\<close>

fun entry_index :: "nat \<Rightarrow> nat list \<Rightarrow> nat option" where
  "entry_index tx [] = None"
| "entry_index tx (e # es) = (if e = tx then Some 0 else map_option Suc (entry_index tx es))"

text \<open>Unlinking a group that is not the first one; the first has no predecessor, and the search
  for it ends at a null pointer. \<^verbatim>\<open>last_wait_group\<close> is not looked at.\<close>

definition wg_unlink :: "nat \<Rightarrow> groups \<Rightarrow> groups res" where
  "wg_unlink i gs =
     (case gs of
        [] \<Rightarrow> Inl Null_deref
      | (f, fg) # rest \<Rightarrow>
          if i \<in> fst ` set rest then Inr ((f, fg) # filter (\<lambda>(j, g). j \<noteq> i) rest)
          else Inl Null_deref)"

text \<open>The end of \<^verbatim>\<open>lock_lock\<close> for a transaction that was marked as deadlocked. The target of the
  \<^verbatim>\<open>memmove\<close> is the wait group structure, not its entries: moving anything at all destroys it.
  After an empty group is freed, its \<^verbatim>\<open>deadlocked\<close> is written.\<close>

definition lock_leave :: "nat \<Rightarrow> nat \<Rightarrow> nat \<Rightarrow> lsys \<Rightarrow> (lock_outcome \<times> lsys) res" where
  "lock_leave l nwg tx s =
     rbind (heap_get (locks s) l) (\<lambda>lk.
     rbind (wg_get nwg (wait_groups lk)) (\<lambda>g.
     let es = wg_entries g in
     case entry_index tx es of
       None \<Rightarrow> Inl Heap_corruption
     | Some found_idx \<Rightarrow>
         if length es - found_idx - 1 \<noteq> 0 then Inl Heap_corruption
         else if length es - 1 = 0 then
           rbind (wg_unlink nwg (wait_groups lk)) (\<lambda>gs.
           let s = lock_put l (lk\<lparr>wait_groups := gs\<rparr>) s in
           rbind (heap_get (locks s) l) (\<lambda>lk.
           rbind (wg_get nwg (wait_groups lk)) (\<lambda>g.
             Inr (Returned LOCK_DEADLOCK,
               lock_put l (lk\<lparr>wait_groups := wg_upd nwg (\<lambda>g. g\<lparr>wg_deadlocked := None\<rparr>) (wait_groups lk)\<rparr>) s))))
         else
           Inr (Returned LOCK_DEADLOCK,
             lock_put l (lk\<lparr>wait_groups :=
               wg_upd nwg (\<lambda>g. g\<lparr>wg_entries := take (length es - 1) es, wg_deadlocked := None\<rparr>)
                 (wait_groups lk)\<rparr>) s)))"

definition is_first :: "nat \<Rightarrow> lock \<Rightarrow> bool" where
  "is_first i lk \<longleftrightarrow> (case wait_groups lk of [] \<Rightarrow> False | (f, _) # _ \<Rightarrow> f = i)"

definition lock_wait :: "nat \<Rightarrow> nat \<Rightarrow> nat \<Rightarrow> lsys \<Rightarrow> (lock_outcome \<times> lsys) res" where
  "lock_wait l nwg tx s =
     rbind (heap_get (locks s) l) (\<lambda>lk.
     rbind (wg_get nwg (wait_groups lk)) (\<lambda>g.
       if \<not> is_first nwg lk \<and> wg_deadlocked g \<noteq> Some tx then Inr (Waiting nwg, s)
       else if wg_deadlocked g = Some tx then lock_leave l nwg tx s
       else Inr (Returned LOCK_TAKEN, s)))"

text \<open>The wait of case C does not look at \<^verbatim>\<open>deadlocked\<close>.\<close>

definition join_wait :: "nat \<Rightarrow> nat \<Rightarrow> lsys \<Rightarrow> (lock_outcome \<times> lsys) res" where
  "join_wait l lwg s =
     rbind (heap_get (locks s) l) (\<lambda>lk.
       if is_first lwg lk then Inr (Returned LOCK_TAKEN, s) else Inr (Joined lwg, s))"

section \<open>Locking\<close>

fun wfg_wait_for :: "nat \<Rightarrow> nat \<Rightarrow> nat list \<Rightarrow> lsys \<Rightarrow> lsys res" where
  "wfg_wait_for tx c [] s = Inr s"
| "wfg_wait_for tx c (e # es) s =
     (if tx \<noteq> e then
        rbind (store_tx_get_cid e s) (\<lambda>ec. rbind (wfg_set c ec s) (wfg_wait_for tx c es))
      else wfg_wait_for tx c es s)"

definition note_blocked :: "nat \<Rightarrow> nat \<Rightarrow> nat \<Rightarrow> nat \<Rightarrow> lsys \<Rightarrow> lsys res" where
  "note_blocked c tx nwg l s =
     rbind (array_put c tx (tx_by_cid s)) (\<lambda>a.
     rbind (array_put c nwg (blocked_waitgroup_by_cid s)) (\<lambda>b.
     rbind (array_put c l (blocked_lock_by_cid s)) (\<lambda>d.
       Inr (s\<lparr>tx_by_cid := a, blocked_waitgroup_by_cid := b, blocked_lock_by_cid := d\<rparr>))))"

definition mark_deadlocked :: "wfg_result \<Rightarrow> lsys \<Rightarrow> lsys res" where
  "mark_deadlocked r s =
     rbind (array_get (blocked_waitgroup_by_cid s) (res_cid r)) (\<lambda>fwg.
     rbind (array_get (blocked_lock_by_cid s) (res_cid r)) (\<lambda>fl.
     rbind (heap_get (locks s) fl) (\<lambda>lk.
     rbind (wg_get fwg (wait_groups lk)) (\<lambda>g.
       Inr (lock_put fl (lk\<lparr>wait_groups :=
         wg_upd fwg (\<lambda>g. g\<lparr>wg_deadlocked := Some (res_tx r)\<rparr>) (wait_groups lk)\<rparr>) s)))))"

text \<open>Case E: a new wait group at the end, the deadlock detector, and the first test of the
  wait loop.\<close>

definition lock_enqueue :: "nat \<Rightarrow> lock_mode \<Rightarrow> nat \<Rightarrow> lock \<Rightarrow> waitgroup \<Rightarrow> lsys \<Rightarrow> (lock_outcome \<times> lsys) res" where
  "lock_enqueue l m tx lk fg s =
     (let nwg = next_wg s in
     rbind (last_group lk) (\<lambda>(i, lg).
     let lk = lk\<lparr>wait_groups := wg_link_after i (nwg, lock_waitgroup_new m tx) (wait_groups lk),
                last_wait_group := Some nwg\<rparr>;
         s = lock_put l lk (s\<lparr>next_wg := nwg + 1\<rparr>) in
     rbind (store_tx_get_cid tx s) (\<lambda>c.
     rbind (wfg_wait_for tx c (wg_entries fg) s) (\<lambda>s.
     rbind (note_blocked c tx nwg l s) (\<lambda>s.
     rbind (wfg_dfs s c c) (\<lambda>r.
     rbind (case r of None \<Rightarrow> Inr s | Some r \<Rightarrow> mark_deadlocked r s) (\<lambda>s.
       lock_wait l nwg tx s)))))))"

text \<open>Case C: joining a shared group at the end of the chain.\<close>

definition lock_join :: "nat \<Rightarrow> nat \<Rightarrow> lock \<Rightarrow> nat \<Rightarrow> lsys \<Rightarrow> (lock_outcome \<times> lsys) res" where
  "lock_join l tx lk i s =
     (let lk = lk\<lparr>wait_groups := wg_upd i (\<lambda>g. g\<lparr>wg_entries := wg_entries g @ [tx]\<rparr>) (wait_groups lk)\<rparr>;
          s = lock_put l lk s
      in join_wait l i s)"

definition lock_enter :: "nat \<Rightarrow> lock_mode \<Rightarrow> nat \<Rightarrow> lsys \<Rightarrow> (lock_outcome \<times> lsys) res" where
  "lock_enter l m tx s =
     rbind (heap_get (locks s) l) (\<lambda>lk.
     case wait_groups lk of
       [] \<Rightarrow>
         Inr (Returned LOCK_TAKEN,
           lock_put l \<lparr>wait_groups = [(next_wg s, lock_waitgroup_new m tx)],
             last_wait_group = Some (next_wg s)\<rparr> (s\<lparr>next_wg := next_wg s + 1\<rparr>))
     | (f, fg) # rest \<Rightarrow>
         if (wg_mode fg = m \<or> wg_mode fg = LOCK_EXCLUSIVE) \<and> tx \<in> set (wg_entries fg)
         then Inr (Returned LOCK_TAKEN, s)
         else rbind (if m = LOCK_SHARED then rbind (last_group lk) (\<lambda>(i, lg).
                       Inr (if wg_mode lg = LOCK_SHARED then Some i else None))
                     else Inr None) (\<lambda>j.
           case j of
             Some i \<Rightarrow> lock_join l tx lk i s
           | None \<Rightarrow>
               if m = LOCK_EXCLUSIVE \<and> wg_mode fg = LOCK_SHARED \<and> tx \<in> set (wg_entries fg)
                  \<and> Some f \<noteq> last_wait_group lk
               then Inr (Returned LOCK_STALE, s)
               else if m = LOCK_EXCLUSIVE \<and> wg_mode fg = LOCK_SHARED \<and> tx \<in> set (wg_entries fg)
                  \<and> length (wg_entries fg) = 1
               then Inr (Returned LOCK_TAKEN,
                 lock_put l (lk\<lparr>wait_groups := (f, fg\<lparr>wg_mode := LOCK_EXCLUSIVE\<rparr>) # rest\<rparr>) s)
               else lock_enqueue l m tx lk fg s))"

section \<open>Unlocking\<close>

fun wfg_released :: "nat \<Rightarrow> nat list \<Rightarrow> lsys \<Rightarrow> lsys res" where
  "wfg_released tx [] s = Inr s"
| "wfg_released tx (e # es) s =
     rbind (store_tx_get_cid e s) (\<lambda>x. rbind (store_tx_get_cid tx s) (\<lambda>y.
       rbind (wfg_set x y s) (wfg_released tx es)))"

text \<open>What is left of the chain when \<open>tx\<close> is taken out of the first group, and the last pointer.\<close>

definition groups_released :: "nat \<Rightarrow> lock \<Rightarrow> nat \<Rightarrow> waitgroup \<Rightarrow> groups \<Rightarrow> lock" where
  "groups_released tx lk f fg rest =
     (let es = remove1 tx (wg_entries fg);
          lk' = lk\<lparr>wait_groups := (f, fg\<lparr>wg_entries := es\<rparr>) # rest\<rparr>;
          lk'' = lk\<lparr>wait_groups := rest,
                    last_wait_group := (if rest = [] then None else last_wait_group lk)\<rparr> in
      if es = [] then lk''
      else if length es = 1 then
        (case rest of
           [] \<Rightarrow> lk'
         | (n, ng) # _ \<Rightarrow>
             if wg_mode fg = LOCK_SHARED \<and> wg_mode ng = LOCK_EXCLUSIVE \<and> es ! 0 = wg_entries ng ! 0
             then lk'' else lk')
      else lk')"

definition lock_unlock :: "nat \<Rightarrow> nat \<Rightarrow> lsys \<Rightarrow> lsys res" where
  "lock_unlock l tx s =
     rbind (heap_get (locks s) l) (\<lambda>lk.
     case wait_groups lk of
       [] \<Rightarrow> Inr s
     | (f, fg) # rest \<Rightarrow>
         if tx \<notin> set (wg_entries fg) then Inr s
         else wfg_released tx (concat (map (\<lambda>(_, g). wg_entries g) rest))
                (lock_put l (groups_released tx lk f fg rest) s))"

end
