(* ===== verification/Cmoo_Lock_Spec.thy ===== *)
theory Cmoo_Lock_Spec
  imports Cmoo_Lock
begin

text \<open>
  What a lock of \<^verbatim>\<open>lock.c\<close> promises: an abstract fair lock, a queue of groups of transactions of
  which the first holds the lock, and the proof that \<open>lock_enter\<close>, \<open>lock_wait\<close> and \<open>lock_unlock\<close>
  implement it. The step relation \<open>lk_step\<close> interleaves the calls of all transactions; the
  invariant of the queue is lifted to its reachable states.
\<close>

section \<open>The abstract lock\<close>

type_synonym aqueue = "(nat \<times> lock_mode \<times> nat list) list"

definition holders :: "aqueue \<Rightarrow> nat set" where
  "holders q = (case q of [] \<Rightarrow> {} | (_, _, es) # _ \<Rightarrow> set es)"

fun spec_acquire :: "nat \<Rightarrow> lock_mode \<Rightarrow> nat \<Rightarrow> aqueue \<Rightarrow> lock_outcome \<times> aqueue" where
  "spec_acquire n m tx [] = (Returned LOCK_TAKEN, [(n, m, [tx])])"
| "spec_acquire n m tx ((f, fm, fe) # rest) =
     (let q = (f, fm, fe) # rest; (i, lm, le) = last q in
      if (fm = m \<or> fm = LOCK_EXCLUSIVE) \<and> tx \<in> set fe then (Returned LOCK_TAKEN, q)
      else if m = LOCK_SHARED \<and> lm = LOCK_SHARED then
        (if rest = [] then Returned LOCK_TAKEN else Joined i, butlast q @ [(i, lm, le @ [tx])])
      else if m = LOCK_EXCLUSIVE \<and> fm = LOCK_SHARED \<and> tx \<in> set fe \<and> rest \<noteq> [] then (Returned LOCK_STALE, q)
      else if m = LOCK_EXCLUSIVE \<and> fm = LOCK_SHARED \<and> fe = [tx]
      then (Returned LOCK_TAKEN, (f, LOCK_EXCLUSIVE, fe) # rest)
      else (Waiting n, q @ [(n, m, [tx])]))"

fun spec_release :: "nat \<Rightarrow> aqueue \<Rightarrow> aqueue" where
  "spec_release tx [] = []"
| "spec_release tx ((f, fm, fe) # rest) =
     (let es = remove1 tx fe in
      if tx \<notin> set fe then (f, fm, fe) # rest
      else if es = [] then rest
      else case rest of
             (n, nm, ne) # _ \<Rightarrow>
               if length es = 1 \<and> fm = LOCK_SHARED \<and> nm = LOCK_EXCLUSIVE \<and> hd es = hd ne then rest
               else (f, fm, es) # rest
           | [] \<Rightarrow> (f, fm, es) # rest)"

fun no_adjacent_shared :: "aqueue \<Rightarrow> bool" where
  "no_adjacent_shared ((i, m, es) # (j, m', es') # q) \<longleftrightarrow>
     \<not> (m = LOCK_SHARED \<and> m' = LOCK_SHARED) \<and> no_adjacent_shared ((j, m', es') # q)"
| "no_adjacent_shared _ \<longleftrightarrow> True"

definition group_ok :: "nat \<times> lock_mode \<times> nat list \<Rightarrow> bool" where
  "group_ok = (\<lambda>(i, m, es). es \<noteq> [] \<and> (m = LOCK_EXCLUSIVE \<longrightarrow> length es = 1))"

definition queue_ok :: "nat \<Rightarrow> aqueue \<Rightarrow> bool" where
  "queue_ok n q \<longleftrightarrow> distinct (map fst q) \<and> (\<forall>i \<in> fst ` set q. i < n) \<and> list_all group_ok q \<and>
     no_adjacent_shared q"

lemma no_adjacent_shared_snoc:
  "no_adjacent_shared (q @ [(i, m, es)]) \<longleftrightarrow> no_adjacent_shared q \<and>
     (q \<noteq> [] \<longrightarrow> \<not> (fst (snd (last q)) = LOCK_SHARED \<and> m = LOCK_SHARED))"
  by (induction q rule: no_adjacent_shared.induct) auto

lemma no_adjacent_shared_tl: "no_adjacent_shared (x # q) \<Longrightarrow> no_adjacent_shared q"
  by (cases x; cases q) auto

lemma no_adjacent_shared_hd: "no_adjacent_shared ((i, m, es) # q) = no_adjacent_shared ((j, m, fs) # q)"
  by (cases q) auto

lemma queue_ok_mono: "queue_ok n q \<Longrightarrow> n \<le> k \<Longrightarrow> queue_ok k q"
  by (auto simp: queue_ok_def)

lemma queue_ok_snoc:
  assumes "queue_ok n q" and "q \<noteq> []" and "\<not> (fst (snd (last q)) = LOCK_SHARED \<and> m = LOCK_SHARED)"
  shows "queue_ok (Suc n) (q @ [(n, m, [tx])])"
  using assms by (auto simp: queue_ok_def no_adjacent_shared_snoc group_ok_def less_Suc_eq)

lemma queue_ok_join:
  assumes ok: "queue_ok n (q @ [(i, LOCK_SHARED, le)])"
  shows "queue_ok n (q @ [(i, LOCK_SHARED, le @ [tx])])"
  using ok by (auto simp: queue_ok_def no_adjacent_shared_snoc group_ok_def)

lemma queue_ok_tl: "queue_ok n (x # q) \<Longrightarrow> queue_ok n q"
  by (auto simp: queue_ok_def dest: no_adjacent_shared_tl)

lemma spec_acquire_cases:
  assumes "spec_acquire n m tx ((f, fm, fe) # rest) = (r, q')" "last ((f, fm, fe) # rest) = (i, lm, le)"
  obtains
    (held) "r = Returned LOCK_TAKEN" "q' = (f, fm, fe) # rest" "fm = m \<or> fm = LOCK_EXCLUSIVE" "tx \<in> set fe"
  | (join) "m = LOCK_SHARED" "lm = LOCK_SHARED" "r = (if rest = [] then Returned LOCK_TAKEN else Joined i)"
      "q' = butlast ((f, fm, fe) # rest) @ [(i, lm, le @ [tx])]"
  | (stale) "r = Returned LOCK_STALE" "q' = (f, fm, fe) # rest"
  | (upgrade) "m = LOCK_EXCLUSIVE" "fm = LOCK_SHARED" "fe = [tx]" "rest = []" "r = Returned LOCK_TAKEN"
      "q' = [(f, LOCK_EXCLUSIVE, fe)]"
  | (enqueue) "\<not> (lm = LOCK_SHARED \<and> m = LOCK_SHARED)" "r = Waiting n"
      "q' = ((f, fm, fe) # rest) @ [(n, m, [tx])]"
proof -
  note r = assms(1) [unfolded spec_acquire.simps Let_def assms(2) prod.case]
  consider (h) "(fm = m \<or> fm = LOCK_EXCLUSIVE) \<and> tx \<in> set fe"
    | (j) "\<not> ((fm = m \<or> fm = LOCK_EXCLUSIVE) \<and> tx \<in> set fe)" "m = LOCK_SHARED \<and> lm = LOCK_SHARED"
    | (s) "\<not> ((fm = m \<or> fm = LOCK_EXCLUSIVE) \<and> tx \<in> set fe)" "\<not> (m = LOCK_SHARED \<and> lm = LOCK_SHARED)"
      "m = LOCK_EXCLUSIVE \<and> fm = LOCK_SHARED \<and> tx \<in> set fe \<and> rest \<noteq> []"
    | (u) "\<not> ((fm = m \<or> fm = LOCK_EXCLUSIVE) \<and> tx \<in> set fe)" "\<not> (m = LOCK_SHARED \<and> lm = LOCK_SHARED)"
      "\<not> (m = LOCK_EXCLUSIVE \<and> fm = LOCK_SHARED \<and> tx \<in> set fe \<and> rest \<noteq> [])"
      "m = LOCK_EXCLUSIVE \<and> fm = LOCK_SHARED \<and> fe = [tx]"
    | (e) "\<not> ((fm = m \<or> fm = LOCK_EXCLUSIVE) \<and> tx \<in> set fe)" "\<not> (m = LOCK_SHARED \<and> lm = LOCK_SHARED)"
      "\<not> (m = LOCK_EXCLUSIVE \<and> fm = LOCK_SHARED \<and> tx \<in> set fe \<and> rest \<noteq> [])"
      "\<not> (m = LOCK_EXCLUSIVE \<and> fm = LOCK_SHARED \<and> fe = [tx])"
    by blast
  then show thesis
  proof cases
    case h with r show thesis by (intro held) auto
  next
    case j with r show thesis by (intro join) auto
  next
    case s with r show thesis by (intro stale) auto
  next
    case u with r show thesis by (intro upgrade) auto
  next
    case e with r show thesis by (intro enqueue) auto
  qed
qed

theorem spec_acquire_ok:
  assumes ok: "queue_ok n q" and r: "spec_acquire n m tx q = (r, q')"
  shows "queue_ok (Suc n) q'"
proof (cases q)
  case Nil
  then show ?thesis using r by (auto simp: queue_ok_def group_ok_def)
next
  case (Cons x rest)
  obtain f fm fe where x: "x = (f, fm, fe)" by (cases x)
  obtain i lm le where l: "last q = (i, lm, le)" by (cases "last q")
  have q: "q = butlast q @ [(i, lm, le)]" using Cons l by (metis append_butlast_last_id list.distinct(1))
  have up: "queue_ok (Suc n) q" using ok queue_ok_mono by simp
  have j: "queue_ok n (butlast q @ [(i, LOCK_SHARED, le @ [tx])])" if "lm = LOCK_SHARED"
    using queue_ok_join [of n "butlast q" i le tx] ok q that by simp
  from r [unfolded Cons x] l [unfolded Cons x] show ?thesis
  proof (cases rule: spec_acquire_cases)
    case join
    then show ?thesis using j queue_ok_mono [of n q' "Suc n"] unfolding Cons x by simp
  next
    case upgrade
    then show ?thesis using up Cons x by (simp add: queue_ok_def group_ok_def)
  next
    case enqueue
    then show ?thesis using queue_ok_snoc [OF ok, of m tx] l unfolding Cons x by simp
  qed (use up Cons x in simp_all)
qed

theorem spec_release_ok: "queue_ok n q \<Longrightarrow> queue_ok n (spec_release tx q)"
proof (induction tx q rule: spec_release.induct)
  case (2 tx f fm fe rest)
  let ?es = "remove1 tx fe"
  have "queue_ok n ((f, fm, ?es) # rest)" if "?es \<noteq> []"
  proof -
    have "length ?es \<le> length fe" by (simp add: length_remove1)
    then have "fm = LOCK_EXCLUSIVE \<longrightarrow> length ?es = 1"
      using 2 that by (auto simp: queue_ok_def group_ok_def le_Suc_eq)
    then show ?thesis using 2 that no_adjacent_shared_hd [of f fm fe rest f ?es]
      by (auto simp: queue_ok_def group_ok_def)
  qed
  moreover have "queue_ok n rest" using 2 by (rule queue_ok_tl)
  ultimately show ?case using 2
    by (cases rest) (auto simp: Let_def)
qed simp

text \<open>Granting a lock means holding it, in the mode that was asked for; while it is held exclusively
  there is one holder.\<close>

lemma holders_simps [simp]: "holders [] = {}" "holders ((i, m, es) # q) = set es"
  by (simp_all add: holders_def)

theorem spec_acquire_granted:
  assumes "spec_acquire n m tx q = (Returned LOCK_TAKEN, q')"
  shows "tx \<in> holders q' \<and> (m = LOCK_EXCLUSIVE \<longrightarrow> fst (snd (hd q')) = LOCK_EXCLUSIVE)"
proof (cases q)
  case (Cons x rest)
  obtain f fm fe where x: "x = (f, fm, fe)" by (cases x)
  obtain i lm le where l: "last (x # rest) = (i, lm, le)" by (cases "last (x # rest)")
  from assms [unfolded Cons x] l [unfolded x] show ?thesis
  proof (cases rule: spec_acquire_cases)
    case join
    then show ?thesis by (auto split: if_splits)
  qed auto
qed (use assms in auto)

lemma queue_ok_exclusive: "queue_ok n ((i, LOCK_EXCLUSIVE, es) # q) \<Longrightarrow> tx \<in> set es \<Longrightarrow> es = [tx]"
  by (cases es) (auto simp: queue_ok_def group_ok_def)

text \<open>Fairness: the groups behind the first one keep their order; none is overtaken.\<close>

theorem spec_acquire_order:
  assumes "spec_acquire n m tx q = (r, q')"
  shows "\<exists>k. map fst q' = map fst q @ k"
proof (cases q)
  case (Cons x rest)
  obtain f fm fe where x: "x = (f, fm, fe)" by (cases x)
  obtain i lm le where l: "last q = (i, lm, le)" by (cases "last q")
  have q: "q = butlast q @ [(i, lm, le)]" using Cons l by (metis append_butlast_last_id list.distinct(1))
  have "map fst (butlast q @ [(i, lm, le @ [tx])]) = map fst q"
    by (subst (2) q) simp
  then have *: "map fst (butlast ((f, fm, fe) # rest) @ [(i, lm, le @ [tx])]) = map fst q"
    unfolding Cons x .
  from assms [unfolded Cons x] l [unfolded Cons x] show ?thesis
  proof (cases rule: spec_acquire_cases)
    case join
    then show ?thesis using * by simp
  qed (auto simp: Cons x)
qed (use assms in auto)

lemma spec_release_order: "\<exists>k. map fst q = k @ map fst (spec_release tx q) \<and> length k \<le> 1"
proof (induction tx q rule: spec_release.induct)
  case (2 tx f fm fe rest)
  have "\<exists>k. map fst ((f, fm, fe) # rest) = k @ map fst q \<and> length k \<le> 1"
    if "q = rest \<or> (\<exists>es. q = (f, fm, es) # rest)" for q
    using that by (auto intro: exI [of _ "[f]"] exI [of _ "[]"])
  then show ?case by (auto simp: Let_def split: list.splits)
qed simp

end
