(* ===== verification/Cmoo_Lock_Refine.thy ===== *)
theory Cmoo_Lock_Refine
  imports Cmoo_Lock_Spec
begin

text \<open>
  The locks of \<^verbatim>\<open>lock.c\<close> implement the abstract lock: on a well formed lock every successful
  \<open>lock_enter\<close>, \<open>lock_wait\<close> and \<open>lock_unlock\<close> has the effect of the specification on its queue
  and none on the queues of other locks. The deadlock path is the exception that is none: a
  transaction that was chosen as the victim never gets out of \<^verbatim>\<open>lock_lock\<close> without a memory error.
\<close>

section \<open>Abstraction\<close>

definition gview :: "groups \<Rightarrow> aqueue" where
  "gview gs = map (\<lambda>(i, g). (i, wg_mode g, wg_entries g)) gs"

definition lock_wf :: "lock \<Rightarrow> bool" where
  "lock_wf lk \<longleftrightarrow> distinct (map fst (wait_groups lk)) \<and>
     last_wait_group lk = (if wait_groups lk = [] then None else Some (fst (last (wait_groups lk))))"

definition queues :: "lsys \<Rightarrow> nat \<Rightarrow> aqueue option" where
  "queues s l = (case heap_get (locks s) l of Inl _ \<Rightarrow> None | Inr lk \<Rightarrow> Some (gview (wait_groups lk)))"

definition locks_wf :: "lsys \<Rightarrow> bool" where
  "locks_wf s \<longleftrightarrow> (\<forall>l lk. heap_get (locks s) l = Inr lk \<longrightarrow>
     lock_wf lk \<and> queue_ok (next_wg s) (gview (wait_groups lk)))"

lemma gview_simps [simp]:
  "gview [] = []" "gview ((i, g) # gs) = (i, wg_mode g, wg_entries g) # gview gs"
  "gview (gs @ hs) = gview gs @ gview hs" "map fst (gview gs) = map fst gs"
  "gview gs = [] \<longleftrightarrow> gs = []" "length (gview gs) = length gs"
  by (auto simp: gview_def)

lemma gview_last: "gs \<noteq> [] \<Longrightarrow> last (gview gs) = (\<lambda>(i, g). (i, wg_mode g, wg_entries g)) (last gs)"
  by (simp add: gview_def last_map)

lemma gview_butlast: "butlast (gview gs) = gview (butlast gs)"
  by (simp add: gview_def map_butlast)

section \<open>Operations on a chain\<close>

lemma wg_get_split:
  "distinct (map fst gs) \<Longrightarrow> wg_get i gs = Inr g \<longleftrightarrow> (i, g) \<in> set gs"
proof -
  assume "distinct (map fst gs)"
  moreover have "wg_get i gs = Inr g \<longleftrightarrow> map_of gs i = Some g"
    by (auto simp: wg_get_def split: option.splits)
  ultimately show ?thesis by (simp add: map_of_eq_Some_iff)
qed

lemma wg_upd_id: "i \<notin> fst ` set gs \<Longrightarrow> wg_upd i f gs = gs"
  by (induction i f gs rule: wg_upd.induct) auto

lemma wg_upd_split:
  "i \<notin> fst ` set xs \<Longrightarrow> wg_upd i f (xs @ (i, g) # ys) = xs @ (i, f g) # ys"
  by (induction xs) auto

lemma gview_wg_upd:
  "(\<And>g. wg_mode (f g) = wg_mode g \<and> wg_entries (f g) = wg_entries g) \<Longrightarrow> gview (wg_upd i f gs) = gview gs"
  by (induction i f gs rule: wg_upd.induct) auto

lemma map_fst_wg_upd [simp]: "map fst (wg_upd i f gs) = map fst gs"
  by (induction i f gs rule: wg_upd.induct) auto

lemma wg_link_after_snoc:
  "i \<notin> fst ` set xs \<Longrightarrow> wg_link_after i new (xs @ [(i, g)]) = xs @ [(i, g), new]"
  by (induction xs) auto

lemma lock_wf_snoc:
  assumes "lock_wf lk" "wait_groups lk \<noteq> []"
  obtains xs i g where "wait_groups lk = xs @ [(i, g)]" "i \<notin> fst ` set xs" "last_wait_group lk = Some i"
    "last_group lk = Inr (i, g)"
proof -
  obtain i g where l: "last (wait_groups lk) = (i, g)" by (cases "last (wait_groups lk)")
  then have w: "wait_groups lk = butlast (wait_groups lk) @ [(i, g)]"
    using assms(2) by (metis append_butlast_last_id)
  have d: "distinct (map fst (wait_groups lk))" and p: "last_wait_group lk = Some i"
    using assms l by (auto simp: lock_wf_def)
  have n: "i \<notin> fst ` set (butlast (wait_groups lk))" using d by (subst (asm) w) auto
  have "(i, g) \<in> set (wait_groups lk)" by (subst w) simp
  then have "wg_get i (wait_groups lk) = Inr g" using d by (simp add: wg_get_split)
  then show ?thesis using that [OF w n p] p by (simp add: last_group_def)
qed

lemma lock_wf_alt:
  "lock_wf lk \<longleftrightarrow> distinct (map fst (wait_groups lk)) \<and>
     last_wait_group lk = (let is = map fst (wait_groups lk) in if is = [] then None else Some (last is))"
  by (simp add: lock_wf_def last_map Let_def)

lemma entry_index_hd: "entry_index tx (tx # es) = Some 0"
  by simp

section \<open>The steps on the system state\<close>

lemma queues_put:
  "heap_get (locks s) l = Inr lk0 \<Longrightarrow> queues (lock_put l lk s) = (queues s)(l \<mapsto> gview (wait_groups lk))"
  by (auto simp: fun_eq_iff queues_def lock_put_def heap_get_eq_Inr)

lemma queues_cong: "locks s' = locks s \<Longrightarrow> queues s' = queues s"
  by (simp add: queues_def fun_eq_iff)

lemma locks_wf_put:
  assumes wf: "locks_wf s" and l: "heap_get (locks s) l = Inr lk0"
    and lk: "lock_wf lk" "queue_ok n (gview (wait_groups lk))" and n: "next_wg s \<le> n"
  shows "locks_wf (lock_put l lk (s\<lparr>next_wg := n\<rparr>))"
  unfolding locks_wf_def
proof (intro allI impI)
  fix k lk' assume k: "heap_get (locks (lock_put l lk (s\<lparr>next_wg := n\<rparr>))) k = Inr lk'"
  show "lock_wf lk' \<and> queue_ok (next_wg (lock_put l lk (s\<lparr>next_wg := n\<rparr>))) (gview (wait_groups lk'))"
  proof (cases "k = l")
    case True
    have "l < length (locks s)" using l by (simp add: heap_get_eq_Inr)
    then have "lk' = lk" using k True by (simp add: lock_put_def)
    then show ?thesis using lk by (simp add: lock_put_def)
  next
    case False
    then have "heap_get (locks s) k = Inr lk'" using k by (simp add: lock_put_def)
    then show ?thesis using wf n queue_ok_mono unfolding locks_wf_def by (simp add: lock_put_def) blast
  qed
qed

lemmas locks_wf_put_same = locks_wf_put [where n = "next_wg s" and s = s for s, simplified]

lemma locks_wf_cong: "locks s' = locks s \<Longrightarrow> next_wg s' = next_wg s \<Longrightarrow> locks_wf s' = locks_wf s"
  by (simp add: locks_wf_def)

text \<open>The wait-for graph operations leave the locks alone.\<close>

lemma wfg_set_frame: "wfg_set x y s = Inr s' \<Longrightarrow> locks s' = locks s \<and> next_wg s' = next_wg s \<and> txs s' = txs s"
  by (auto simp: wfg_set_def split: if_splits)

lemma wfg_wait_for_frame:
  "wfg_wait_for tx c es s = Inr s' \<Longrightarrow> locks s' = locks s \<and> next_wg s' = next_wg s \<and> txs s' = txs s"
proof (induction tx c es s rule: wfg_wait_for.induct)
  case (2 tx c e es s)
  then show ?case by (fastforce simp: rbind_eq_Inr split: if_splits dest: wfg_set_frame)
qed simp

lemma wfg_released_frame:
  "wfg_released tx es s = Inr s' \<Longrightarrow> locks s' = locks s \<and> next_wg s' = next_wg s \<and> txs s' = txs s"
proof (induction tx es s rule: wfg_released.induct)
  case (2 tx e es s)
  then show ?case by (fastforce simp: rbind_eq_Inr dest: wfg_set_frame)
qed simp

lemma note_blocked_frame:
  "note_blocked c tx n l s = Inr s' \<Longrightarrow> locks s' = locks s \<and> next_wg s' = next_wg s \<and> txs s' = txs s"
  by (auto simp: note_blocked_def rbind_eq_Inr)

lemma mark_deadlocked_frame:
  assumes wf: "locks_wf s" and m: "mark_deadlocked r s = Inr s'"
  shows "locks_wf s' \<and> queues s' = queues s \<and> next_wg s' = next_wg s"
proof -
  let ?f = "\<lambda>g. g\<lparr>wg_deadlocked := Some (res_tx r)\<rparr>"
  obtain l w lk where l: "heap_get (locks s) l = Inr lk"
    and s': "s' = lock_put l (lk\<lparr>wait_groups := wg_upd w ?f (wait_groups lk)\<rparr>) s"
    using m by (auto simp: mark_deadlocked_def rbind_eq_Inr)
  have v: "gview (wg_upd w ?f (wait_groups lk)) = gview (wait_groups lk)"
    by (rule gview_wg_upd) simp
  have lk: "lock_wf lk" "queue_ok (next_wg s) (gview (wait_groups lk))" using wf l by (auto simp: locks_wf_def)
  have "lock_wf (lk\<lparr>wait_groups := wg_upd w ?f (wait_groups lk)\<rparr>)"
    using lk(1) by (simp add: lock_wf_alt)
  then have "locks_wf s'" unfolding s' using locks_wf_put_same [OF wf l] lk(2) v by simp
  moreover have "queues s' = queues s"
    using l v by (simp add: s' queues_put [OF l] fun_eq_iff) (simp add: queues_def)
  ultimately show ?thesis by (simp add: s' lock_put_def)
qed

section \<open>Locking\<close>

text \<open>A deadlocked transaction is the first entry of its wait group: it created the group.\<close>

lemma lock_leave_faults:
  assumes lk: "heap_get (locks s) l = Inr lk" "lock_wf lk"
    and g: "(i, g) \<in> set (wait_groups lk)" "wg_entries g = tx # es"
  shows "\<exists>f. lock_leave l i tx s = Inl f"
proof -
  have d: "distinct (map fst (wait_groups lk))" using lk(2) by (simp add: lock_wf_def)
  then have g': "wg_get i (wait_groups lk) = Inr g" using g(1) by (simp add: wg_get_split)
  show ?thesis
  proof (cases "es = []")
    case False
    then show ?thesis using lk g' g(2) by (simp add: lock_leave_def)
  next
    case True
    have "\<exists>f. lock_leave l i tx s = Inl f" if u: "wg_unlink i (wait_groups lk) = Inr gs" for gs
    proof -
      obtain f fg rest where w: "wait_groups lk = (f, fg) # rest"
        using g(1) by (cases "wait_groups lk") auto
      then have "i \<in> fst ` set rest" "gs = (f, fg) # filter (\<lambda>(j, g). j \<noteq> i) rest"
        using u by (auto simp: wg_unlink_def split: if_splits)
      moreover from this d w have "f \<noteq> i" by auto
      ultimately have "i \<notin> fst ` set gs" by auto
      then have "wg_get i gs = Inl Use_after_free"
        by (simp add: wg_get_def map_of_eq_None_iff [THEN iffD2])
      moreover have "l < length (locks s)" using lk(1) by (simp add: heap_get_eq_Inr)
      ultimately show ?thesis using lk g' g(2) True u
        by (simp add: lock_leave_def Let_def lock_put_def)
    qed
    moreover have "\<exists>f. lock_leave l i tx s = Inl f" if "wg_unlink i (wait_groups lk) = Inl f" for f
      using lk g' g(2) True that by (simp add: lock_leave_def Let_def)
    ultimately show ?thesis by (cases "wg_unlink i (wait_groups lk)") auto
  qed
qed

lemma lock_wait_refines:
  assumes wf: "locks_wf s" and lk: "heap_get (locks s) l = Inr lk"
    and g: "(i, g) \<in> set (wait_groups lk)" "wg_entries g = tx # es"
    and w: "lock_wait l i tx s = Inr (r, s')"
  shows "s' = s \<and> r = (if is_first i lk then Returned LOCK_TAKEN else Waiting i)"
proof -
  have lkw: "lock_wf lk" using wf lk by (simp add: locks_wf_def)
  then have g': "wg_get i (wait_groups lk) = Inr g" using g(1) by (simp add: wg_get_split lock_wf_def)
  then show ?thesis using w lk lock_leave_faults [OF lk lkw g]
    by (auto simp: lock_wait_def split: if_splits)
qed

lemma lock_enqueue_refines:
  assumes wf: "locks_wf s" and lk: "heap_get (locks s) l = Inr lk" and ne: "wait_groups lk \<noteq> []"
    and m: "\<not> (fst (snd (last (gview (wait_groups lk)))) = LOCK_SHARED \<and> m = LOCK_SHARED)"
    and e: "lock_enqueue l m tx lk fg s = Inr (r, s')"
  shows "r = Waiting (next_wg s) \<and> locks_wf s' \<and> next_wg s' = Suc (next_wg s) \<and>
    queues s' = (queues s)(l \<mapsto> gview (wait_groups lk) @ [(next_wg s, m, [tx])])"
proof -
  let ?n = "next_wg s"
  have lkw: "lock_wf lk" and qok: "queue_ok ?n (gview (wait_groups lk))"
    using wf lk by (auto simp: locks_wf_def)
  let ?lk = "lk\<lparr>wait_groups := wait_groups lk @ [(?n, lock_waitgroup_new m tx)], last_wait_group := Some ?n\<rparr>"
  let ?s1 = "lock_put l ?lk (s\<lparr>next_wg := Suc ?n\<rparr>)"
  obtain xs i g where last: "wait_groups lk = xs @ [(i, g)]" "i \<notin> fst ` set xs" "last_group lk = Inr (i, g)"
    using lock_wf_snoc [OF lkw ne] by metis
  have link: "wg_link_after i (?n, lock_waitgroup_new m tx) (wait_groups lk)
      = wait_groups lk @ [(?n, lock_waitgroup_new m tx)]"
    using last wg_link_after_snoc [OF last(2)] by simp
  obtain c s2 s3 w s4 where s2: "wfg_wait_for tx c (wg_entries fg) ?s1 = Inr s2"
    and s3: "note_blocked c tx ?n l s2 = Inr s3"
    and s4: "(case w of None \<Rightarrow> Inr s3 | Some w \<Rightarrow> mark_deadlocked w s3) = Inr s4"
    and wt: "lock_wait l ?n tx s4 = Inr (r, s')"
    using e unfolding lock_enqueue_def Let_def last(3) rbind.simps link prod.case
    by (auto simp: rbind_eq_Inr)
  have n: "?n \<notin> fst ` set (wait_groups lk)"
    using qok by (auto simp: queue_ok_def image_image gview_def case_prod_beta)
  have view: "gview (wait_groups ?lk) = gview (wait_groups lk) @ [(?n, m, [tx])]"
    by (simp add: lock_waitgroup_new_def)
  have "lock_wf ?lk" using lkw n by (auto simp: lock_wf_def)
  moreover have "queue_ok (Suc ?n) (gview (wait_groups ?lk))"
    unfolding view by (rule queue_ok_snoc [OF qok]) (use ne m in auto)
  ultimately have wf1: "locks_wf ?s1" using locks_wf_put [OF wf lk] by simp
  have q1: "queues ?s1 = (queues s)(l \<mapsto> gview (wait_groups ?lk))"
    using lk queues_put [of "s\<lparr>next_wg := Suc ?n\<rparr>" l lk ?lk] by (simp add: queues_cong [of "s\<lparr>next_wg := Suc ?n\<rparr>" s])
  have s3f: "locks s3 = locks ?s1" "next_wg s3 = next_wg ?s1"
    using wfg_wait_for_frame [OF s2] note_blocked_frame [OF s3] by auto
  then have wf3: "locks_wf s3" "queues s3 = queues ?s1" using wf1 locks_wf_cong queues_cong by metis+
  have s4f: "locks_wf s4 \<and> queues s4 = queues ?s1 \<and> next_wg s4 = Suc ?n"
    using s4 wf3 s3f mark_deadlocked_frame [OF wf3(1)] by (auto simp: lock_put_def split: option.splits)
  then have "queues s4 l = Some (gview (wait_groups ?lk))" using q1 by simp
  then obtain lk4 where lk4: "heap_get (locks s4) l = Inr lk4" "gview (wait_groups lk4) = gview (wait_groups ?lk)"
    by (auto simp: queues_def split: sum.splits)
  then have g4: "gview (wait_groups lk4) = gview (wait_groups lk) @ [(?n, m, [tx])]" using view by simp
  then obtain ys g where "wait_groups lk4 = ys @ [(?n, g)]" "wg_entries g = tx # []"
    unfolding gview_def map_eq_append_conv by auto
  then have g: "(?n, g) \<in> set (wait_groups lk4)" "wg_entries g = tx # []" by simp_all
  have "\<not> is_first ?n lk4"
    using g4 ne n by (cases "wait_groups lk"; cases "wait_groups lk4") (auto simp: is_first_def)
  then show ?thesis
    using lock_wait_refines [OF _ lk4(1) g wt] s4f q1 view by auto
qed

lemma lock_join_refines:
  assumes wf: "locks_wf s" and lk: "heap_get (locks s) l = Inr lk"
    and w: "wait_groups lk = xs @ [(i, g)]" "wg_mode g = LOCK_SHARED"
    and j: "lock_join l tx lk i s = Inr (r, s')"
  shows "r = (if xs = [] then Returned LOCK_TAKEN else Joined i) \<and> locks_wf s' \<and> next_wg s' = next_wg s \<and>
    queues s' = (queues s)(l \<mapsto> gview xs @ [(i, LOCK_SHARED, wg_entries g @ [tx])])"
proof -
  have lkw: "lock_wf lk" and qok: "queue_ok (next_wg s) (gview (wait_groups lk))"
    using wf lk by (auto simp: locks_wf_def)
  have i: "i \<notin> fst ` set xs" using lkw w by (auto simp: lock_wf_def)
  let ?g = "g\<lparr>wg_entries := wg_entries g @ [tx]\<rparr>"
  let ?lk = "lk\<lparr>wait_groups := xs @ [(i, ?g)]\<rparr>"
  let ?s1 = "lock_put l ?lk s"
  have lk1: "heap_get (locks ?s1) l = Inr ?lk" using lk by (simp add: lock_put_def heap_get_eq_Inr heap_put_def)
  have f: "is_first i ?lk \<longleftrightarrow> xs = []" using i by (cases xs) (auto simp: is_first_def)
  have r: "r = (if xs = [] then Returned LOCK_TAKEN else Joined i)" "s' = ?s1"
    using j w i f lk1 by (auto simp: lock_join_def join_wait_def wg_upd_split Let_def split: if_splits)
  have "lock_wf ?lk" using lkw w by (auto simp: lock_wf_def)
  moreover have "queue_ok (next_wg s) (gview (wait_groups ?lk))"
    using queue_ok_join [of "next_wg s" "gview xs" i "wg_entries g" tx] qok w by simp
  ultimately have "locks_wf ?s1" using locks_wf_put_same [OF wf lk] by simp
  then show ?thesis using r w queues_put [OF lk, of ?lk] by (simp add: lock_put_def)
qed

theorem lock_enter_refines:
  assumes wf: "locks_wf s" and q: "queues s l = Some q" and e: "lock_enter l m tx s = Inr (r, s')"
  shows "locks_wf s' \<and> next_wg s \<le> next_wg s' \<and>
    (\<exists>q'. spec_acquire (next_wg s) m tx q = (r, q') \<and> queues s' = (queues s)(l \<mapsto> q'))"
proof -
  obtain lk where lk: "heap_get (locks s) l = Inr lk" and q_eq: "q = gview (wait_groups lk)"
    using q by (auto simp: queues_def split: sum.splits)
  have lkw: "lock_wf lk" and qok: "queue_ok (next_wg s) q" using wf lk q_eq by (auto simp: locks_wf_def)
  have same: "queues s = (queues s)(l \<mapsto> q)" using q by auto
  show ?thesis
  proof (cases "wait_groups lk")
    case Nil
    let ?lk = "\<lparr>wait_groups = [(next_wg s, lock_waitgroup_new m tx)], last_wait_group = Some (next_wg s)\<rparr>"
    have s': "r = Returned LOCK_TAKEN" "s' = lock_put l ?lk (s\<lparr>next_wg := Suc (next_wg s)\<rparr>)"
      using e lk Nil by (auto simp: lock_enter_def)
    have "lock_wf ?lk" "queue_ok (Suc (next_wg s)) (gview (wait_groups ?lk))"
      by (auto simp: lock_wf_def queue_ok_def group_ok_def lock_waitgroup_new_def)
    then have "locks_wf s'" using locks_wf_put [OF wf lk] s' by simp
    then show ?thesis using s' q_eq Nil queues_put [of "s\<lparr>next_wg := Suc (next_wg s)\<rparr>" l lk ?lk] lk
        queues_cong [of "s\<lparr>next_wg := Suc (next_wg s)\<rparr>" s]
      by (simp add: lock_put_def lock_waitgroup_new_def)
  next
    case (Cons x rest)
    obtain f fg where x: "x = (f, fg)" by (cases x)
    obtain xs i g where l: "wait_groups lk = xs @ [(i, g)]" "last_wait_group lk = Some i" "last_group lk = Inr (i, g)"
      using lock_wf_snoc [OF lkw] Cons by (metis list.discI)
    have q2: "q = (f, wg_mode fg, wg_entries fg) # gview rest" using q_eq Cons x by simp
    have last: "last ((f, wg_mode fg, wg_entries fg) # gview rest) = (i, wg_mode g, wg_entries g)"
      using q_eq q2 l(1) by (metis gview_simps(1,2,3) last_snoc)
    have butl: "butlast ((f, wg_mode fg, wg_entries fg) # gview rest) = gview xs"
      using q_eq q2 l(1) by (metis butlast_snoc gview_simps(1,2,3))
    have fi: "Some f \<noteq> last_wait_group lk \<longleftrightarrow> rest \<noteq> []"
    proof -
      have "distinct (map fst (wait_groups lk))" using lkw by (simp add: lock_wf_def)
      then show ?thesis using l Cons x lkw by (cases rest rule: rev_cases) (auto simp: lock_wf_def)
    qed
    have xs: "xs = [] \<longleftrightarrow> rest = []" using l(1) Cons by (cases xs) auto
    let ?held = "(wg_mode fg = m \<or> wg_mode fg = LOCK_EXCLUSIVE) \<and> tx \<in> set (wg_entries fg)"
    let ?up = "m = LOCK_EXCLUSIVE \<and> wg_mode fg = LOCK_SHARED \<and> tx \<in> set (wg_entries fg)"
    note enter = e [unfolded lock_enter_def lk rbind.simps Cons x list.case prod.case l(3) fi]
    note spec = spec_acquire.simps(2) [of "next_wg s" m tx f "wg_mode fg" "wg_entries fg" "gview rest",
        unfolded Let_def last prod.case butl]
    consider (held) ?held
      | (join) "\<not> ?held" "m = LOCK_SHARED" "wg_mode g = LOCK_SHARED"
      | (stale) "\<not> ?held" "\<not> (m = LOCK_SHARED \<and> wg_mode g = LOCK_SHARED)" ?up "rest \<noteq> []"
      | (upgrade) "\<not> ?held" "\<not> (m = LOCK_SHARED \<and> wg_mode g = LOCK_SHARED)" ?up "rest = []" "length (wg_entries fg) = 1"
      | (enq) "\<not> ?held" "\<not> (m = LOCK_SHARED \<and> wg_mode g = LOCK_SHARED)" "\<not> (?up \<and> rest \<noteq> [])"
        "\<not> (?up \<and> length (wg_entries fg) = 1)"
      by blast
    then show ?thesis
    proof cases
      case held
      then have "r = Returned LOCK_TAKEN" "s' = s" using enter by auto
      then show ?thesis using spec held same wf q2 by auto
    next
      case join
      then have "lock_join l tx lk i s = Inr (r, s')" using enter by auto
      from lock_join_refines [OF wf lk l(1) join(3) this]
      show ?thesis using spec join q2 xs by auto
    next
      case stale
      then have "r = Returned LOCK_STALE" "s' = s" using enter by (auto split: if_splits)
      then show ?thesis using spec stale same wf q2 by auto
    next
      case upgrade
      let ?lk = "lk\<lparr>wait_groups := (f, fg\<lparr>wg_mode := LOCK_EXCLUSIVE\<rparr>) # rest\<rparr>"
      have r: "r = Returned LOCK_TAKEN" "s' = lock_put l ?lk s" using enter upgrade by auto
      have es: "wg_entries fg = [tx]" using upgrade by (cases "wg_entries fg") auto
      have "lock_wf ?lk" using lkw Cons x by (simp add: lock_wf_def)
      moreover have "queue_ok (next_wg s) (gview (wait_groups ?lk))"
        using qok upgrade es by (auto simp: queue_ok_def group_ok_def q2)
      ultimately have "locks_wf s'" using locks_wf_put_same [OF wf lk] r by simp
      then show ?thesis using spec upgrade es q2 r queues_put [OF lk, of ?lk]
        by (simp add: lock_put_def)
    next
      case enq
      then have "lock_enqueue l m tx lk fg s = Inr (r, s')" using enter by (auto split: if_splits)
      moreover have "\<not> (fst (snd (last (gview (wait_groups lk)))) = LOCK_SHARED \<and> m = LOCK_SHARED)"
        unfolding q_eq [symmetric] q2 last using enq(2) by auto
      ultimately show ?thesis
        using lock_enqueue_refines [OF wf lk _ _ ] Cons spec enq q2 q_eq
        by (auto split: if_splits)
    qed
  qed
qed

section \<open>Unlocking\<close>

lemma groups_released_view:
  assumes wf: "lock_wf lk" and ok: "queue_ok n (gview (wait_groups lk))"
    and w: "wait_groups lk = (f, fg) # rest" and tx: "tx \<in> set (wg_entries fg)"
  shows "lock_wf (groups_released tx lk f fg rest) \<and>
    gview (wait_groups (groups_released tx lk f fg rest)) = spec_release tx (gview (wait_groups lk))"
proof -
  have "wg_entries (snd x) \<noteq> []" if "x \<in> set rest" for x
  proof -
    have "group_ok (fst x, wg_mode (snd x), wg_entries (snd x))"
      using ok w that unfolding queue_ok_def gview_def list_all_iff by (force simp: case_prod_beta)
    then show ?thesis by (simp add: group_ok_def)
  qed
  then have hd: "wg_entries ng ! 0 = hd (wg_entries ng)" if "rest = (k, ng) # rest'" for k ng rest'
  proof -
    have "wg_entries ng \<noteq> []" using that \<open>\<And>x. x \<in> set rest \<Longrightarrow> wg_entries (snd x) \<noteq> []\<close> [of "(k, ng)"] by simp
    then show ?thesis by (simp add: hd_conv_nth)
  qed
  have es: "es \<noteq> [] \<Longrightarrow> es ! 0 = hd es" for es :: "nat list" by (simp add: hd_conv_nth)
  let ?es = "remove1 tx (wg_entries fg)"
  let ?next = "\<exists>k ng rest'. rest = (k, ng) # rest' \<and> length ?es = 1 \<and> wg_mode fg = LOCK_SHARED \<and>
    wg_mode ng = LOCK_EXCLUSIVE \<and> hd ?es = hd (wg_entries ng)"
  have r: "groups_released tx lk f fg rest =
      (if ?es = [] \<or> ?next
       then lk\<lparr>wait_groups := rest, last_wait_group := (if rest = [] then None else last_wait_group lk)\<rparr>
       else lk\<lparr>wait_groups := (f, fg\<lparr>wg_entries := ?es\<rparr>) # rest\<rparr>)"
    using hd es [of ?es] by (cases rest) (auto simp: groups_released_def Let_def)
  have s: "spec_release tx (gview (wait_groups lk)) =
      (if ?es = [] \<or> ?next then gview rest else (f, wg_mode fg, ?es) # gview rest)"
    using tx unfolding w by (cases rest) (auto simp: Let_def)
  show ?thesis
  proof (cases "?es = [] \<or> ?next")
    case True
    then show ?thesis unfolding r s if_P [OF True] using wf w by (cases rest) (simp_all add: lock_wf_def)
  next
    case False
    then show ?thesis unfolding r s if_not_P [OF False] using wf w by (cases rest) (simp_all add: lock_wf_def)
  qed
qed

theorem lock_unlock_refines:
  assumes wf: "locks_wf s" and q: "queues s l = Some q" and u: "lock_unlock l tx s = Inr s'"
  shows "locks_wf s' \<and> next_wg s' = next_wg s \<and> queues s' = (queues s)(l \<mapsto> spec_release tx q)"
proof -
  obtain lk where lk: "heap_get (locks s) l = Inr lk" and q_eq: "q = gview (wait_groups lk)"
    using q by (auto simp: queues_def split: sum.splits)
  have lkw: "lock_wf lk" and qok: "queue_ok (next_wg s) (gview (wait_groups lk))"
    using wf lk by (auto simp: locks_wf_def)
  show ?thesis
  proof (cases "wait_groups lk")
    case Nil
    then show ?thesis using u lk q q_eq wf by (auto simp: lock_unlock_def)
  next
    case (Cons x rest)
    obtain f fg where w: "wait_groups lk = (f, fg) # rest" using Cons by (cases x) simp
    show ?thesis
    proof (cases "tx \<in> set (wg_entries fg)")
      case False
      then have "s' = s" using u lk w by (auto simp: lock_unlock_def)
      then show ?thesis using wf q q_eq w False by auto
    next
      case True
      let ?lk = "groups_released tx lk f fg rest"
      have rel: "lock_wf ?lk" "gview (wait_groups ?lk) = spec_release tx q"
        using groups_released_view [OF lkw qok w True] q_eq by auto
      have "queue_ok (next_wg s) (gview (wait_groups ?lk))"
        unfolding rel(2) q_eq by (rule spec_release_ok [OF qok])
      then have wf': "locks_wf (lock_put l ?lk s)" using locks_wf_put_same [OF wf lk rel(1)] by simp
      have "wfg_released tx (concat (map (\<lambda>(_, g). wg_entries g) rest)) (lock_put l ?lk s) = Inr s'"
        using u lk w True by (simp add: lock_unlock_def)
      from wfg_released_frame [OF this] have "locks s' = locks (lock_put l ?lk s)" "next_wg s' = next_wg s"
        by (auto simp: lock_put_def)
      then show ?thesis using wf' locks_wf_cong [of s' "lock_put l ?lk s"] queues_cong [of s' "lock_put l ?lk s"]
          queues_put [OF lk, of ?lk] rel(2) by (simp add: lock_put_def)
    qed
  qed
qed

section \<open>Interleavings\<close>

text \<open>
  A configuration is the state of the locks and, for every transaction that is inside
  \<^verbatim>\<open>lock_lock\<close>, where it waits. A step is one call of a transaction that is not waiting, or a
  waiting one that is woken (waking up early is always possible). The transactions' own records
  may be changed at any time.
\<close>

datatype waiting = WaitIn nat nat | JoinedIn nat nat

fun waiting_of :: "nat \<Rightarrow> lock_outcome \<Rightarrow> waiting option" where
  "waiting_of l (Returned c) = None"
| "waiting_of l (Waiting g) = Some (WaitIn l g)"
| "waiting_of l (Joined g) = Some (JoinedIn l g)"

type_synonym config = "lsys \<times> (nat \<Rightarrow> waiting option)"

inductive lk_step :: "config \<Rightarrow> config \<Rightarrow> bool" where
  enter: "w tx = None \<Longrightarrow> lock_enter l m tx s = Inr (r, s') \<Longrightarrow> lk_step (s, w) (s', w(tx := waiting_of l r))"
| wake: "w tx = Some (WaitIn l g) \<Longrightarrow> lock_wait l g tx s = Inr (r, s') \<Longrightarrow>
    lk_step (s, w) (s', w(tx := waiting_of l r))"
| joined: "w tx = Some (JoinedIn l g) \<Longrightarrow> join_wait l g s = Inr (r, s') \<Longrightarrow>
    lk_step (s, w) (s', w(tx := waiting_of l r))"
| unlock: "w tx = None \<Longrightarrow> lock_unlock l tx s = Inr s' \<Longrightarrow> lk_step (s, w) (s', w)"
| create: "lock_new s = (l, s') \<Longrightarrow> lk_step (s, w) (s', w)"
| transactions: "lk_step (s, w) (s\<lparr>txs := t\<rparr>, w)"

inductive lk_reachable :: "nat \<Rightarrow> nat \<Rightarrow> config \<Rightarrow> bool" for n frames where
  start: "lk_reachable n frames (locks_new_ctx n frames, \<lambda>_. None)"
| step: "lk_reachable n frames c \<Longrightarrow> lk_step c c' \<Longrightarrow> lk_reachable n frames c'"

text \<open>A transaction that waits in the group it created is its first entry, and is in none of the
  groups behind it.\<close>

definition waits_at :: "nat \<Rightarrow> nat \<Rightarrow> aqueue \<Rightarrow> bool" where
  "waits_at tx i q \<longleftrightarrow> (\<exists>xs m es ys. q = xs @ (i, m, tx # es) # ys \<and> (\<forall>(j, m', es') \<in> set ys. tx \<notin> set es'))"

definition config_ok :: "config \<Rightarrow> bool" where
  "config_ok c \<longleftrightarrow> locks_wf (fst c) \<and>
     (\<forall>tx l i. snd c tx = Some (WaitIn l i) \<longrightarrow> (\<exists>q. queues (fst c) l = Some q \<and> waits_at tx i q))"

lemma waits_at_snoc:
  "waits_at tx i q \<Longrightarrow> tx \<notin> set es \<Longrightarrow> waits_at tx i (q @ [(n, m, es)])"
  unfolding waits_at_def by (elim exE conjE, rule exI, rule exI, rule exI, rule exI) auto

lemma waits_at_join:
  assumes w: "waits_at tx i (q @ [(n, m, es)])" and t: "t \<noteq> tx"
  shows "waits_at tx i (q @ [(n, m, es @ [t])])"
proof -
  obtain xs k fs ys where e: "q @ [(n, m, es)] = xs @ (i, k, tx # fs) # ys"
    and ys: "\<forall>(j, m', es') \<in> set ys. tx \<notin> set es'"
    using w unfolding waits_at_def by blast
  show ?thesis
  proof (cases ys rule: rev_cases)
    case Nil
    then have "q @ [(n, m, es @ [t])] = xs @ (i, k, tx # (fs @ [t])) # []" using e by simp
    then show ?thesis unfolding waits_at_def by fastforce
  next
    case (snoc zs z)
    then have "q @ [(n, m, es @ [t])] = xs @ (i, k, tx # fs) # (zs @ [(n, m, es @ [t])])" using e by simp
    moreover have "\<forall>(j, m', es') \<in> set (zs @ [(n, m, es @ [t])]). tx \<notin> set es'"
      using ys snoc e t by auto
    ultimately show ?thesis unfolding waits_at_def by blast
  qed
qed

lemma waits_at_acquire:
  assumes w: "waits_at tx i q" and a: "spec_acquire n m t q = (r, q')" and t: "t \<noteq> tx"
  shows "waits_at tx i q'"
proof (cases q)
  case (Cons x rest)
  obtain f fm fe where x: "x = (f, fm, fe)" by (cases x)
  obtain j lm le where l: "last q = (j, lm, le)" by (cases "last q")
  have q: "q = butlast q @ [(j, lm, le)]" using Cons l by (metis append_butlast_last_id list.distinct(1))
  from a [unfolded Cons x] l [unfolded Cons x] show ?thesis
  proof (cases rule: spec_acquire_cases)
    case join
    have "waits_at tx i (butlast q @ [(j, lm, le @ [t])])"
      by (rule waits_at_join [OF _ t]) (use w q in simp)
    then show ?thesis using join Cons x by simp
  next
    case upgrade
    then show ?thesis using w t unfolding Cons x waits_at_def by (auto simp: Cons_eq_append_conv)
  next
    case enqueue
    then show ?thesis using waits_at_snoc [OF w, of "[t]" n m] t Cons x by simp
  qed (use w Cons x in auto)
qed (use w in \<open>simp add: waits_at_def\<close>)

lemma spec_release_shape:
  "spec_release t ((f, fm, fe) # rest) = rest \<or> (\<exists>es. spec_release t ((f, fm, fe) # rest) = (f, fm, es) # rest)"
  by (auto simp: Let_def split: list.split)

lemma waits_at_release:
  assumes w: "waits_at tx i q" and t: "t \<noteq> tx" and ok: "queue_ok n q"
  shows "waits_at tx i (spec_release t q)"
proof (cases q)
  case (Cons x rest)
  obtain f fm fe where x: "x = (f, fm, fe)" by (cases x)
  obtain xs k fs ys where e: "q = xs @ (i, k, tx # fs) # ys"
    and ys: "\<forall>(j, m', es') \<in> set ys. tx \<notin> set es'"
    using w unfolding waits_at_def by blast
  show ?thesis
  proof (cases xs)
    case Nil
    then have h: "i = f" "k = fm" "fe = tx # fs" "rest = ys" using e Cons x by auto
    have "hd es' \<noteq> tx" if "rest = (j, m', es') # zs" for j m' es' zs
    proof -
      have "es' \<noteq> []" using ok that by (simp add: Cons queue_ok_def group_ok_def)
      then show ?thesis using ys h(4) that by (cases es') auto
    qed
    then have "spec_release t q = (f, fm, tx # remove1 t fs) # rest \<or> spec_release t q = (f, fm, tx # fs) # rest"
      using t unfolding Cons x h by (cases ys) (auto simp: Let_def)
    then have "\<exists>gs. spec_release t q = [] @ (f, fm, tx # gs) # ys" unfolding h by auto
    then show ?thesis unfolding waits_at_def h(1) using ys by blast
  next
    case (Cons a xs')
    then have r: "rest = xs' @ (i, k, tx # fs) # ys" "a = x" using \<open>q = x # rest\<close> e by auto
    then have "\<exists>zs. spec_release t q = zs @ (i, k, tx # fs) # ys"
      using spec_release_shape [of t f fm fe rest] \<open>q = x # rest\<close> x by (metis append_Cons)
    then show ?thesis unfolding waits_at_def using ys by blast
  qed
qed (use w in \<open>simp add: waits_at_def\<close>)

lemma waits_at_enqueue: "waits_at tx n (q @ [(n, m, [tx])])"
  unfolding waits_at_def by fastforce

lemma spec_acquire_waiting:
  "spec_acquire n m tx q = (Waiting i, q') \<Longrightarrow> i = n \<and> waits_at tx i q'"
proof (cases q)
  case (Cons x rest)
  obtain f fm fe where x: "x = (f, fm, fe)" by (cases x)
  obtain j lm le where l: "last q = (j, lm, le)" by (cases "last q")
  assume a: "spec_acquire n m tx q = (Waiting i, q')"
  from a [unfolded Cons x] l [unfolded Cons x] show ?thesis
  proof (cases rule: spec_acquire_cases)
    case enqueue
    then show ?thesis using waits_at_enqueue [of tx n "(f, fm, fe) # rest" m] by auto
  qed (auto split: if_splits)
qed auto

lemma queue_is_first:
  "heap_get (locks s) l = Inr lk \<Longrightarrow> queues s l = Some q \<Longrightarrow>
     is_first i lk \<longleftrightarrow> (case q of [] \<Rightarrow> False | (f, _) # _ \<Rightarrow> f = i)"
  by (cases "wait_groups lk") (auto simp: queues_def is_first_def)

text \<open>A woken transaction either finds its group in front, and has the lock, or waits on.\<close>

lemma lock_wait_step:
  assumes wf: "locks_wf s" and q: "queues s l = Some q" and w: "waits_at tx i q"
    and lw: "lock_wait l i tx s = Inr (r, s')"
  shows "s' = s \<and> (r = Returned LOCK_TAKEN \<and> tx \<in> holders q \<or> r = Waiting i)"
proof -
  obtain lk where lk: "heap_get (locks s) l = Inr lk" "q = gview (wait_groups lk)"
    using q by (auto simp: queues_def split: sum.splits)
  obtain xs m es ys where e: "q = xs @ (i, m, tx # es) # ys" using w by (auto simp: waits_at_def)
  then obtain us g vs where g: "wait_groups lk = us @ (i, g) # vs" "wg_entries g = tx # es" "gview us = xs"
    unfolding lk(2) gview_def map_eq_append_conv map_eq_Cons_conv by auto
  then have "s' = s \<and> r = (if is_first i lk then Returned LOCK_TAKEN else Waiting i)"
    using lock_wait_refines [OF wf lk(1) _ g(2) lw] by simp
  moreover have "tx \<in> holders q" if "is_first i lk"
  proof -
    have "distinct (map fst (wait_groups lk))" using wf lk(1) by (auto simp: locks_wf_def lock_wf_def)
    then have "us = []" using that g(1) by (cases us) (auto simp: is_first_def)
    then show ?thesis using e g(3) by (simp add: holders_def)
  qed
  ultimately show ?thesis by auto
qed

lemma config_ok_step:
  assumes c: "config_ok c" and st: "lk_step c c'"
  shows "config_ok c'"
  using st c
proof cases
  case (enter w tx l m s r s')
  obtain lk where "heap_get (locks s) l = Inr lk" using enter by (auto simp: lock_enter_def rbind_eq_Inr)
  then obtain q where q: "queues s l = Some q" by (auto simp: queues_def)
  have wf: "locks_wf s" using c enter by (simp add: config_ok_def)
  obtain q' where a: "spec_acquire (next_wg s) m tx q = (r, q')" and q': "queues s' = (queues s)(l \<mapsto> q')"
    and wf': "locks_wf s'"
    using lock_enter_refines [OF wf q enter(4)] by blast
  have "\<exists>q. queues s' k = Some q \<and> waits_at t i q" if t: "(w(tx := waiting_of l r)) t = Some (WaitIn k i)" for t k i
  proof (cases "t = tx")
    case True
    then have "r = Waiting i" "k = l" using t by (cases r; simp)+
    then show ?thesis using spec_acquire_waiting a q' True by auto
  next
    case False
    then have "w t = Some (WaitIn k i)" using t by simp
    then have "\<exists>p. queues s k = Some p \<and> waits_at t i p"
      using c enter by (simp add: config_ok_def)
    then obtain p where p: "queues s k = Some p" "waits_at t i p" by blast
    show ?thesis
    proof (cases "k = l")
      case True
      then have "waits_at t i q'" using waits_at_acquire [OF _ a] p q False by auto
      then show ?thesis using q' True by simp
    qed (use p q' in simp)
  qed
  then show ?thesis using wf' enter by (simp add: config_ok_def)
next
  case (wake w tx l g s r s')
  have "\<exists>q. queues s l = Some q \<and> waits_at tx g q" using c wake by (simp add: config_ok_def)
  then obtain q where q: "queues s l = Some q" "waits_at tx g q" by blast
  have wf: "locks_wf s" using c wake by (simp add: config_ok_def)
  have "s' = s" "r = Returned LOCK_TAKEN \<or> r = Waiting g" using lock_wait_step [OF wf q wake(4)] by auto
  then show ?thesis using c wake q by (auto simp: config_ok_def)
next
  case (joined w tx l g s r s')
  then have "s' = s" "\<And>i. waiting_of l r \<noteq> Some (WaitIn l i)" by (auto simp: join_wait_def rbind_eq_Inr split: if_splits)
  then show ?thesis using c joined by (cases r) (auto simp: config_ok_def split: if_splits)
next
  case (unlock w tx l s s')
  obtain lk where "heap_get (locks s) l = Inr lk" using unlock by (auto simp: lock_unlock_def rbind_eq_Inr)
  then obtain q where q: "queues s l = Some q" by (auto simp: queues_def)
  have wf: "locks_wf s" using c unlock by (simp add: config_ok_def)
  have qok: "queue_ok (next_wg s) q" using wf q by (auto simp: locks_wf_def queues_def split: sum.splits)
  have r: "locks_wf s' \<and> queues s' = (queues s)(l \<mapsto> spec_release tx q)"
    using lock_unlock_refines [OF wf q unlock(4)] by simp
  have "\<exists>q. queues s' k = Some q \<and> waits_at t i q" if t: "w t = Some (WaitIn k i)" for t k i
  proof -
    have "\<exists>p. queues s k = Some p \<and> waits_at t i p" using c unlock t by (simp add: config_ok_def)
    then obtain p where p: "queues s k = Some p" "waits_at t i p" by blast
    moreover have "tx \<noteq> t" using t unlock by auto
    ultimately show ?thesis using r waits_at_release qok q by (cases "k = l") auto
  qed
  then show ?thesis using r unlock by (simp add: config_ok_def)
next
  case (create s l s' w)
  then have s': "s' = s\<lparr>locks := locks s @ [Some \<lparr>wait_groups = [], last_wait_group = None\<rparr>]\<rparr>"
    by (simp add: lock_new_def)
  have get: "heap_get (locks s') k = Inr lk \<longleftrightarrow>
      heap_get (locks s) k = Inr lk \<or> (k = length (locks s) \<and> lk = \<lparr>wait_groups = [], last_wait_group = None\<rparr>)" for k lk
    by (auto simp: s' heap_get_eq_Inr nth_append less_Suc_eq)
  have q: "queues s k = Some p \<Longrightarrow> queues s' k = Some p" for k p
  proof -
    assume "queues s k = Some p"
    then obtain lk where lk: "heap_get (locks s) k = Inr lk" "p = gview (wait_groups lk)"
      by (auto simp: queues_def split: sum.splits)
    then have "heap_get (locks s') k = Inr lk" using get by blast
    then show ?thesis using lk by (simp add: queues_def)
  qed
  have "locks_wf s'" using c create get
    by (auto simp: config_ok_def locks_wf_def s' lock_wf_def queue_ok_def)
  then show ?thesis using c create q by (auto simp: config_ok_def) metis
next
  case (transactions s w t)
  then show ?thesis using c queues_cong [of "s\<lparr>txs := t\<rparr>" s] by (simp add: config_ok_def locks_wf_def)
qed

lemma config_ok_reachable: "lk_reachable n frames c \<Longrightarrow> config_ok c"
proof (induction rule: lk_reachable.induct)
  case start
  then show ?case by (simp add: config_ok_def locks_wf_def locks_new_ctx_def heap_get_def)
qed (rule config_ok_step)

end
