(* ===== verification/Cmoo_Deadlock.thy ===== *)
theory Cmoo_Deadlock
  imports Cmoo_Lock_Refine
begin

text \<open>
  The deadlock detector of \<^verbatim>\<open>lock.c\<close>. The depth first search is correct for the graph it is given:
  it reports a transaction exactly when the waiting one is on a cycle, and the one it reports is
  the youngest of such a cycle. The graph itself is not maintained: no operation ever removes an
  edge, so that cycles are reported that do not exist, and cycles that exist are missed.
\<close>

section \<open>The graph\<close>

definition waits_for :: "lsys \<Rightarrow> (nat \<times> nat) set" where
  "waits_for s = {(x, y). y < max_tasks s \<and> wfg_edge s x y = Inr True}"

text \<open>A way back to the root: the vertices after the start, the last one is the root.\<close>

fun way_to :: "lsys \<Rightarrow> nat \<Rightarrow> nat \<Rightarrow> nat list \<Rightarrow> bool" where
  "way_to s root x [] \<longleftrightarrow> False"
| "way_to s root x [y] \<longleftrightarrow> (x, y) \<in> waits_for s \<and> y = root"
| "way_to s root x (y # ys) \<longleftrightarrow> (x, y) \<in> waits_for s \<and> y \<noteq> root \<and> way_to s root y ys"

lemma way_to_last: "way_to s root x ys \<Longrightarrow> ys \<noteq> [] \<and> last ys = root"
  by (induction s root x ys rule: way_to.induct) auto

lemma way_to_trancl: "way_to s root x ys \<Longrightarrow> (x, root) \<in> (waits_for s)\<^sup>+"
  by (induction s root x ys rule: way_to.induct) (auto intro: trancl_into_trancl2)

definition youngest :: "lsys \<Rightarrow> nat list \<Rightarrow> wfg_result \<Rightarrow> bool" where
  "youngest s ys r \<longleftrightarrow> res_cid r \<in> set ys \<and> wfg_candidate s (res_cid r) = Inr r \<and>
     (\<forall>y \<in> set ys. \<exists>c. wfg_candidate s y = Inr c \<and> res_sid c \<le> res_sid r)"

lemma wfg_candidate_cid: "wfg_candidate s y = Inr c \<Longrightarrow> res_cid c = y"
  by (auto simp: wfg_candidate_def rbind_eq_Inr)

section \<open>The search\<close>

lemma wfg_scan_sound:
  "wfg_scan s root frames x ys = Inr (Some r) \<Longrightarrow> set ys \<subseteq> {..<max_tasks s} \<Longrightarrow>
     \<exists>zs. way_to s root x zs \<and> youngest s zs r"
proof (induction s root frames x ys arbitrary: r rule: wfg_scan.induct)
  case (2 s root frames x y ys)
  obtain b where b: "wfg_edge s x y = Inr b" using "2.prems"(1) by (auto simp: rbind_eq_Inr)
  have y: "y < max_tasks s" using "2.prems"(2) by simp
  consider (no) "\<not> b" | (root) b "y = root" | (rec) b "y \<noteq> root" by blast
  then show ?case
  proof cases
    case no
    then show ?thesis using "2.IH"(1) [OF b no] "2.prems" b by simp
  next
    case root
    then have "wfg_candidate s y = Inr r" using "2.prems"(1) b by (auto simp: rbind_eq_Inr)
    then have "way_to s root x [y] \<and> youngest s [y] r"
      using root b y wfg_candidate_cid by (auto simp: waits_for_def youngest_def)
    then show ?thesis by blast
  next
    case rec
    then obtain fs where fs: "frames = Suc fs" using "2.prems"(1) b by (cases frames) auto
    obtain rr where rr: "wfg_scan s root fs y [0..<max_tasks s] = Inr rr"
      using "2.prems"(1) b rec fs by (auto simp: rbind_eq_Inr)
    show ?thesis
    proof (cases rr)
      case None
      then show ?thesis using "2.IH"(3) [OF b _ _ fs rr None] "2.prems" b rec fs rr by simp
    next
      case (Some q)
      obtain c where c: "wfg_candidate s y = Inr c" "r = (if res_sid q < res_sid c then c else q)"
        using "2.prems"(1) b rec fs rr Some by (auto simp: rbind_eq_Inr)
      obtain zs where zs: "way_to s root y zs" "youngest s zs q"
        using "2.IH"(2) [OF b _ _ fs] rec rr Some by fastforce
      have "way_to s root x (y # zs)" using zs rec b y by (cases zs) (auto simp: waits_for_def)
      moreover have "youngest s (y # zs) r"
        using zs(2) c wfg_candidate_cid [OF c(1)]
        by (auto simp: youngest_def intro: less_imp_le dest: order.strict_trans1 [THEN less_imp_le])
      ultimately show ?thesis by blast
    qed
  qed
qed simp

text \<open>No result: the root cannot be reached.\<close>

lemma wfg_scan_none:
  "wfg_scan s root frames x ys = Inr None \<Longrightarrow>
     \<forall>y \<in> set ys. (x, y) \<in> waits_for s \<longrightarrow> y \<noteq> root \<and> (y, root) \<notin> (waits_for s)\<^sup>+"
proof (induction s root frames x ys rule: wfg_scan.induct)
  case (2 s root frames x y ys)
  obtain b where b: "wfg_edge s x y = Inr b" using "2.prems"(1) by (auto simp: rbind_eq_Inr)
  show ?case
  proof (cases b)
    case False
    then show ?thesis using "2.IH"(1) [OF b False] "2.prems" b by (auto simp: waits_for_def)
  next
    case True
    have y: "y \<noteq> root" using "2.prems"(1) b True by (auto simp: rbind_eq_Inr)
    obtain fs where fs: "frames = Suc fs" using "2.prems"(1) b True y by (cases frames) auto
    obtain rr where rr: "wfg_scan s root fs y [0..<max_tasks s] = Inr rr"
      using "2.prems"(1) b True y fs by (auto simp: rbind_eq_Inr)
    have rn: "rr = None" using "2.prems"(1) b True y fs rr by (cases rr) (auto simp: rbind_eq_Inr)
    have rec: "\<forall>z \<in> set [0..<max_tasks s]. (y, z) \<in> waits_for s \<longrightarrow> z \<noteq> root \<and> (z, root) \<notin> (waits_for s)\<^sup>+"
      using "2.IH"(2) [OF b _ y fs] True rr rn by simp
    have "(y, root) \<notin> (waits_for s)\<^sup>+"
    proof
      assume "(y, root) \<in> (waits_for s)\<^sup>+"
      then obtain z where z: "(y, z) \<in> waits_for s" "z = root \<or> (z, root) \<in> (waits_for s)\<^sup>+"
        by (metis tranclD rtranclD)
      then have "z \<in> set [0..<max_tasks s]" by (simp add: waits_for_def)
      then show False using rec z by blast
    qed
    moreover have "wfg_scan s root frames x ys = Inr None" using "2.prems" b True y fs rr rn by simp
    then have "\<forall>z \<in> set ys. (x, z) \<in> waits_for s \<longrightarrow> z \<noteq> root \<and> (z, root) \<notin> (waits_for s)\<^sup>+"
      using "2.IH"(3) [OF b _ y fs rr rn] True by simp
    ultimately show ?thesis using y by auto
  qed
qed simp

lemma wfg_dfs_none: "wfg_dfs s x root = Inr None \<Longrightarrow> (x, root) \<notin> (waits_for s)\<^sup>+"
proof
  assume d: "wfg_dfs s x root = Inr None" and t: "(x, root) \<in> (waits_for s)\<^sup>+"
  then obtain z where z: "(x, z) \<in> waits_for s" "z = root \<or> (z, root) \<in> (waits_for s)\<^sup>+"
    by (metis tranclD rtranclD)
  then have "z \<in> set [0..<max_tasks s]" by (simp add: waits_for_def)
  then show False using wfg_scan_none [OF d [unfolded wfg_dfs_def]] z by blast
qed

text \<open>The recursion is not guarded against cycles that avoid the root. It ends when there are
  none: a rank that falls along the edges bounds its depth.\<close>

lemma wfg_scan_total:
  "length (wfg_matrix s) = max_tasks s * max_tasks s \<Longrightarrow> x < max_tasks s \<Longrightarrow> set ys \<subseteq> {..<max_tasks s} \<Longrightarrow>
   (\<And>u v. (u, v) \<in> waits_for s \<Longrightarrow> v \<noteq> root \<Longrightarrow> rank v < (rank u :: nat)) \<Longrightarrow>
   (\<And>y. y < max_tasks s \<Longrightarrow> \<exists>c. wfg_candidate s y = Inr c) \<Longrightarrow> rank x \<le> frames \<Longrightarrow>
   \<exists>r. wfg_scan s root frames x ys = Inr r"
proof (induction s root frames x ys rule: wfg_scan.induct)
  case (2 s root frames x y ys)
  have y: "y < max_tasks s" and ys: "set ys \<subseteq> {..<max_tasks s}" using "2.prems"(3) by auto
  have "x + y * max_tasks s < max_tasks s * max_tasks s"
  proof -
    have "x + y * max_tasks s < Suc y * max_tasks s" using "2.prems"(2) by simp
    also have "\<dots> \<le> max_tasks s * max_tasks s" using y by (intro mult_le_mono1) simp
    finally show ?thesis .
  qed
  then obtain b where b: "wfg_edge s x y = Inr b" using "2.prems"(1) by (simp add: wfg_edge_def)
  obtain c where c: "wfg_candidate s y = Inr c" using "2.prems"(5) y by blast
  note prems = "2.prems"(1,2) ys "2.prems"(4,5)
  show ?case
  proof (cases "b \<and> y \<noteq> root")
    case False
    then show ?thesis using "2.IH"(1) [OF b] prems "2.prems"(6) b c by auto
  next
    case True
    then have "(x, y) \<in> waits_for s" using b y by (simp add: waits_for_def)
    then have r: "rank y < rank x" using "2.prems"(4) True by blast
    then obtain fs where fs: "frames = Suc fs" using "2.prems"(6) by (cases frames) auto
    have "\<exists>r. wfg_scan s root fs y [0..<max_tasks s] = Inr r"
      by (rule "2.IH"(2) [OF b _ _ fs]) (use True "2.prems" y r fs in auto)
    then obtain rr where rr: "wfg_scan s root fs y [0..<max_tasks s] = Inr rr" by blast
    show ?thesis
    proof (cases rr)
      case None
      have "\<exists>r. wfg_scan s root frames x ys = Inr r"
        by (rule "2.IH"(3) [OF b _ _ fs rr None]) (use True prems "2.prems"(6) in auto)
      then show ?thesis using b True fs rr None by simp
    next
      case (Some q)
      then show ?thesis using b True fs rr c by simp
    qed
  qed
qed simp

text \<open>A set of vertices without the root in which every vertex has a successor, and no way out of it
  but to vertices without successors: the search never comes out of it.\<close>

definition trap :: "lsys \<Rightarrow> nat \<Rightarrow> nat set \<Rightarrow> bool" where
  "trap s root C \<longleftrightarrow> root \<notin> C \<and> (\<forall>u \<in> C. u < max_tasks s \<and> (\<exists>v \<in> C. (u, v) \<in> waits_for s) \<and>
     (\<forall>v. (u, v) \<in> waits_for s \<longrightarrow> v \<in> C \<or> v \<noteq> root \<and> (\<forall>z. (v, z) \<notin> waits_for s)))"

lemma wfg_edge_defined:
  assumes "length (wfg_matrix s) = max_tasks s * max_tasks s" "x < max_tasks s" "y < max_tasks s"
  obtains b where "wfg_edge s x y = Inr b" "b \<longleftrightarrow> (x, y) \<in> waits_for s"
proof -
  have "x + y * max_tasks s < Suc y * max_tasks s" using assms(2) by simp
  also have "\<dots> \<le> max_tasks s * max_tasks s" using assms(3) by (intro mult_le_mono1) simp
  finally show ?thesis using that assms by (auto simp: wfg_edge_def waits_for_def)
qed

lemma wfg_scan_sink:
  assumes m: "length (wfg_matrix s) = max_tasks s * max_tasks s" "x < max_tasks s"
    and "\<forall>z. (x, z) \<notin> waits_for s"
  shows "set ys \<subseteq> {..<max_tasks s} \<Longrightarrow> wfg_scan s root frames x ys = Inr None"
proof (induction ys)
  case (Cons y ys)
  obtain b where "wfg_edge s x y = Inr b" "b \<longleftrightarrow> (x, y) \<in> waits_for s"
    using wfg_edge_defined [OF m, of y] Cons.prems by auto
  then show ?case using Cons assms(3) by simp
qed simp

lemma wfg_scan_diverges:
  assumes m: "length (wfg_matrix s) = max_tasks s * max_tasks s" and C: "trap s root C"
  shows "x < max_tasks s \<Longrightarrow> set ys \<subseteq> {..<max_tasks s} \<Longrightarrow>
    \<forall>y \<in> set ys. (x, y) \<in> waits_for s \<longrightarrow> y \<in> C \<or> y \<noteq> root \<and> (\<forall>z. (y, z) \<notin> waits_for s) \<Longrightarrow>
    \<exists>y \<in> set ys. y \<in> C \<and> (x, y) \<in> waits_for s \<Longrightarrow> wfg_scan s root frames x ys = Inl Stack_overflow"
proof (induction frames arbitrary: x ys)
  case 0
  then show ?case
  proof (induction ys)
    case (Cons y ys)
    obtain b where b: "wfg_edge s x y = Inr b" "b \<longleftrightarrow> (x, y) \<in> waits_for s"
      using wfg_edge_defined [OF m Cons.prems(1), of y] Cons.prems(2) by auto
    show ?case using Cons b C by (cases b) (auto simp: trap_def)
  qed simp
next
  case (Suc fs)
  have rec: "wfg_scan s root fs u [0..<max_tasks s] = Inl Stack_overflow" if u: "u \<in> C" for u
  proof (rule Suc.IH)
    show "u < max_tasks s" using C u by (simp add: trap_def)
    show "set [0..<max_tasks s] \<subseteq> {..<max_tasks s}" by auto
    show "\<forall>y \<in> set [0..<max_tasks s]. (u, y) \<in> waits_for s \<longrightarrow> y \<in> C \<or> y \<noteq> root \<and> (\<forall>z. (y, z) \<notin> waits_for s)"
      using C u unfolding trap_def by blast
    obtain v where "v \<in> C" "(u, v) \<in> waits_for s" using C u unfolding trap_def by blast
    then show "\<exists>y \<in> set [0..<max_tasks s]. y \<in> C \<and> (u, y) \<in> waits_for s" by (auto simp: waits_for_def)
  qed
  from Suc.prems show ?case
  proof (induction ys)
    case (Cons y ys)
    have y: "y < max_tasks s" using Cons.prems(2) by simp
    obtain b where b: "wfg_edge s x y = Inr b" "b \<longleftrightarrow> (x, y) \<in> waits_for s"
      using wfg_edge_defined [OF m Cons.prems(1) y] by blast
    consider (no) "\<not> b" | (in_C) b "y \<in> C" | (sink) b "y \<notin> C" "y \<noteq> root" "\<forall>z. (y, z) \<notin> waits_for s"
      using Cons.prems(3) b by auto
    then show ?case
    proof cases
      case in_C
      then show ?thesis using b rec C by (auto simp: trap_def)
    next
      case sink
      then have "wfg_scan s root fs y [0..<max_tasks s] = Inr None"
        by (intro wfg_scan_sink [OF m y]) auto
      then show ?thesis using b sink Cons by auto
    next
      case no
      then show ?thesis using b Cons by auto
    qed
  qed simp
qed

section \<open>The edges are never removed\<close>

definition edges_kept :: "lsys \<Rightarrow> lsys \<Rightarrow> bool" where
  "edges_kept s s' \<longleftrightarrow> max_tasks s' = max_tasks s \<and> length (wfg_matrix s') = length (wfg_matrix s) \<and>
     (\<forall>k < length (wfg_matrix s). wfg_matrix s ! k \<longrightarrow> wfg_matrix s' ! k)"

lemma edges_kept_refl [simp]: "edges_kept s s" by (simp add: edges_kept_def)

lemma edges_kept_trans: "edges_kept s s' \<Longrightarrow> edges_kept s' s'' \<Longrightarrow> edges_kept s s''"
  by (simp add: edges_kept_def)

lemma edges_kept_eq: "max_tasks s' = max_tasks s \<Longrightarrow> wfg_matrix s' = wfg_matrix s \<Longrightarrow> edges_kept s s'"
  by (simp add: edges_kept_def)

lemma wfg_set_kept: "wfg_set x y s = Inr s' \<Longrightarrow> edges_kept s s'"
  by (auto simp: wfg_set_def edges_kept_def nth_list_update split: if_splits)

lemma wfg_wait_for_kept: "wfg_wait_for tx c es s = Inr s' \<Longrightarrow> edges_kept s s'"
proof (induction tx c es s rule: wfg_wait_for.induct)
  case (2 tx c e es s)
  then show ?case
    by (auto simp: rbind_eq_Inr split: if_splits) (metis edges_kept_trans wfg_set_kept)
qed simp

lemma wfg_released_kept: "wfg_released tx es s = Inr s' \<Longrightarrow> edges_kept s s'"
proof (induction tx es s rule: wfg_released.induct)
  case (2 tx e es s)
  then show ?case by (auto simp: rbind_eq_Inr) (metis edges_kept_trans wfg_set_kept)
qed simp

lemma edges_kept_lock_put [simp]: "edges_kept s (lock_put l lk s')  = edges_kept s s'"
  by (simp add: edges_kept_def lock_put_def)

lemma edges_kept_lock_put_left [simp]: "edges_kept (lock_put l lk s) s' = edges_kept s s'"
  by (simp add: edges_kept_def lock_put_def)

lemma lock_leave_kept: "lock_leave l i tx s = Inr (r, s') \<Longrightarrow> edges_kept s s'"
  by (auto simp: lock_leave_def Let_def rbind_eq_Inr split: option.splits if_splits)

lemma lock_wait_kept: "lock_wait l i tx s = Inr (r, s') \<Longrightarrow> edges_kept s s'"
  by (auto simp: lock_wait_def rbind_eq_Inr lock_leave_kept split: if_splits)

lemma join_wait_kept: "join_wait l i s = Inr (r, s') \<Longrightarrow> edges_kept s s'"
  by (auto simp: join_wait_def rbind_eq_Inr split: if_splits)

lemma note_blocked_kept: "note_blocked c tx n l s = Inr s' \<Longrightarrow> edges_kept s s'"
  by (auto simp: note_blocked_def rbind_eq_Inr edges_kept_def)

lemma mark_deadlocked_kept: "mark_deadlocked r s = Inr s' \<Longrightarrow> edges_kept s s'"
  by (auto simp: mark_deadlocked_def rbind_eq_Inr)

lemma lock_enqueue_kept:
  assumes "lock_enqueue l m tx lk fg s = Inr (r, s')"
  shows "edges_kept s s'"
proof -
  obtain s1 s2 s3 w s4 c where "s1 = s\<lparr>next_wg := Suc (next_wg s)\<rparr>"
    and s2: "\<exists>lk. wfg_wait_for tx c (wg_entries fg) (lock_put l lk s1) = Inr s2"
    and s3: "note_blocked c tx (next_wg s) l s2 = Inr s3"
    and s4: "(case w of None \<Rightarrow> Inr s3 | Some w \<Rightarrow> mark_deadlocked w s3) = Inr s4"
    and w: "lock_wait l (next_wg s) tx s4 = Inr (r, s')"
    using assms unfolding lock_enqueue_def Let_def by (auto simp: rbind_eq_Inr) blast
  then have "edges_kept s s1" by (simp add: edges_kept_def)
  moreover have "edges_kept s1 s2" using s2 wfg_wait_for_kept by (metis edges_kept_lock_put edges_kept_trans edges_kept_refl)
  moreover have "edges_kept s3 s4" using s4 mark_deadlocked_kept by (auto split: option.splits)
  ultimately show ?thesis
    using note_blocked_kept [OF s3] lock_wait_kept [OF w] by (metis edges_kept_trans)
qed

lemma lock_join_kept: "lock_join l tx lk i s = Inr (r, s') \<Longrightarrow> edges_kept s s'"
  unfolding lock_join_def Let_def by (drule join_wait_kept) simp

lemma lock_enter_kept:
  assumes e: "lock_enter l m tx s = Inr (r, s')"
  shows "edges_kept s s'"
proof -
  obtain lk where lk: "heap_get (locks s) l = Inr lk" using e by (auto simp: lock_enter_def rbind_eq_Inr)
  show ?thesis
  proof (cases "wait_groups lk")
    case Nil
    then show ?thesis using e lk by (auto simp: lock_enter_def edges_kept_def lock_put_def)
  next
    case (Cons x rest)
    obtain f fg where x: "x = (f, fg)" by (cases x)
    note enter = e [unfolded lock_enter_def lk rbind.simps Cons x list.case prod.case]
    show ?thesis
    proof (cases "(wg_mode fg = m \<or> wg_mode fg = LOCK_EXCLUSIVE) \<and> tx \<in> set (wg_entries fg)")
      case True
      then show ?thesis using enter by simp
    next
      case False
      from enter [unfolded if_not_P [OF False]] show ?thesis
      proof (rule rbind_InrE)
        fix j assume j: "(case j of Some i \<Rightarrow> lock_join l tx lk i s
          | None \<Rightarrow>
              if m = LOCK_EXCLUSIVE \<and> wg_mode fg = LOCK_SHARED \<and> tx \<in> set (wg_entries fg)
                 \<and> Some f \<noteq> last_wait_group lk
              then Inr (Returned LOCK_STALE, s)
              else if m = LOCK_EXCLUSIVE \<and> wg_mode fg = LOCK_SHARED \<and> tx \<in> set (wg_entries fg)
                 \<and> length (wg_entries fg) = 1
              then Inr (Returned LOCK_TAKEN,
                lock_put l (lk\<lparr>wait_groups := (f, fg\<lparr>wg_mode := LOCK_EXCLUSIVE\<rparr>) # rest\<rparr>) s)
              else lock_enqueue l m tx lk fg s) = Inr (r, s')"
        show ?thesis
        proof (cases j)
          case (Some i)
          then show ?thesis using j lock_join_kept by simp
        next
          case None
          then show ?thesis using j lock_enqueue_kept by (auto split: if_split_asm)
        qed
      qed
    qed
  qed
qed

lemma lock_unlock_kept:
  assumes u: "lock_unlock l tx s = Inr s'"
  shows "edges_kept s s'"
proof -
  obtain lk where lk: "heap_get (locks s) l = Inr lk" using u by (auto simp: lock_unlock_def rbind_eq_Inr)
  show ?thesis
  proof (cases "wait_groups lk")
    case Nil
    then show ?thesis using u lk by (simp add: lock_unlock_def)
  next
    case (Cons x rest)
    obtain f fg where x: "x = (f, fg)" by (cases x)
    show ?thesis
    proof (cases "tx \<in> set (wg_entries fg)")
      case True
      then have "wfg_released tx (concat (map (\<lambda>(_, g). wg_entries g) rest))
          (lock_put l (groups_released tx lk f fg rest) s) = Inr s'"
        using u lk Cons x by (simp add: lock_unlock_def)
      from wfg_released_kept [OF this] show ?thesis by simp
    qed (use u lk Cons x in \<open>simp add: lock_unlock_def\<close>)
  qed
qed

lemma lk_step_kept: "lk_step c c' \<Longrightarrow> edges_kept (fst c) (fst c')"
proof (induction rule: lk_step.induct)
  case (create s l s' w)
  then show ?case by (auto simp: lock_new_def intro: edges_kept_eq)
next
  case (transactions s w t)
  show ?case by (auto intro: edges_kept_eq)
qed (auto intro: lock_enter_kept lock_wait_kept join_wait_kept lock_unlock_kept)

lemma edge_stays:
  assumes "lk_step\<^sup>*\<^sup>* c c'" and "True \<in> set (wfg_matrix (fst c))"
  shows "True \<in> set (wfg_matrix (fst c'))"
  using assms(1)
proof (induction rule: rtranclp_induct)
  case (step c1 c2)
  then have "edges_kept (fst c1) (fst c2)" using lk_step_kept by blast
  with step.IH show ?case by (auto simp: edges_kept_def in_set_conv_nth)
qed (use assms(2) in simp)

section \<open>Runs of calls\<close>

text \<open>Sequences of calls of different transactions, for the examples.\<close>

datatype lk_call =
    Enter nat nat lock_mode
  | Wake nat
  | Unlock nat nat

fun waiting_upd :: "nat \<Rightarrow> waiting option \<Rightarrow> (nat \<times> waiting) list \<Rightarrow> (nat \<times> waiting) list" where
  "waiting_upd tx None ws = filter (\<lambda>(t, _). t \<noteq> tx) ws"
| "waiting_upd tx (Some w) ws = (tx, w) # filter (\<lambda>(t, _). t \<noteq> tx) ws"

fun run_call :: "lk_call \<Rightarrow> lsys \<times> (nat \<times> waiting) list \<Rightarrow> (lsys \<times> (nat \<times> waiting) list) option" where
  "run_call (Enter tx l m) (s, ws) =
     (if map_of ws tx \<noteq> None then None
      else case lock_enter l m tx s of
             Inl _ \<Rightarrow> None
           | Inr (r, s) \<Rightarrow> Some (s, waiting_upd tx (waiting_of l r) ws))"
| "run_call (Wake tx) (s, ws) =
     (case map_of ws tx of
        Some (WaitIn l g) \<Rightarrow>
          (case lock_wait l g tx s of
             Inl _ \<Rightarrow> None
           | Inr (r, s) \<Rightarrow> Some (s, waiting_upd tx (waiting_of l r) ws))
      | _ \<Rightarrow> None)"
| "run_call (Unlock tx l) (s, ws) =
     (if map_of ws tx \<noteq> None then None
      else case lock_unlock l tx s of Inl _ \<Rightarrow> None | Inr s \<Rightarrow> Some (s, ws))"

fun run_calls :: "lk_call list \<Rightarrow> lsys \<times> (nat \<times> waiting) list \<Rightarrow> (lsys \<times> (nat \<times> waiting) list) option" where
  "run_calls [] c = Some c"
| "run_calls (k # ks) c = Option.bind (run_call k c) (run_calls ks)"

lemma map_of_without:
  "map_of (filter (\<lambda>(t, _). t \<noteq> tx) ws) x = (if x = tx then None else map_of ws x)"
  by (induction ws) auto

lemma map_of_waiting_upd: "map_of (waiting_upd tx w ws) = (map_of ws)(tx := w)"
  by (cases w) (auto simp: fun_eq_iff map_of_without)

lemma run_call_step:
  "run_call k (s, ws) = Some (s', ws') \<Longrightarrow> lk_step (s, map_of ws) (s', map_of ws')"
  by (cases k) (auto simp: map_of_waiting_upd intro: lk_step.intros split: if_splits sum.splits option.splits waiting.splits)

lemma run_calls_reachable:
  "run_calls ks (s, ws) = Some (s', ws') \<Longrightarrow> lk_reachable n f (s, map_of ws) \<Longrightarrow> lk_reachable n f (s', map_of ws')"
proof (induction ks arbitrary: s ws)
  case (Cons k ks)
  then obtain s1 ws1 where "run_call k (s, ws) = Some (s1, ws1)" "run_calls ks (s1, ws1) = Some (s', ws')"
    by (auto simp: bind_eq_Some_conv)
  then show ?case using Cons run_call_step lk_reachable.step by metis
qed simp

text \<open>Two locks and transactions with the given sids and cids.\<close>

definition demo_sys :: "nat \<Rightarrow> nat \<Rightarrow> (64 word \<times> nat) list \<Rightarrow> lsys" where
  "demo_sys n f ts = (snd (lock_new (snd (lock_new (locks_new_ctx n f)))))
     \<lparr>txs := map (\<lambda>(sid, cid). Some \<lparr>tx_sid = sid, tx_cid = Some cid, tx_locked = []\<rparr>) ts\<rparr>"

lemma demo_reachable: "lk_reachable n f (demo_sys n f ts, map_of [])"
proof -
  have "lk_reachable n f (snd (lock_new (snd (lock_new (locks_new_ctx n f)))), \<lambda>_. None)"
    by (metis lk_reachable.start lk_reachable.step lk_step.create prod.collapse)
  from lk_reachable.step [OF this lk_step.transactions] show ?thesis
    by (simp add: demo_sys_def)
qed

lemmas demo_run = run_calls_reachable [OF _ demo_reachable]

section \<open>Deadlocks that do not exist\<close>

text \<open>Transaction 0 (cid 0) takes a lock, 1 (cid 1) waits for it, 0 finishes and its cid goes to 2.
  Transaction 1 has the lock and waits for nothing, but the edge from cid 1 to cid 0 is still there.\<close>

definition stale_calls :: "lk_call list" where
  "stale_calls = [Enter 0 0 LOCK_EXCLUSIVE, Enter 1 0 LOCK_EXCLUSIVE, Unlock 0 0, Wake 1]"

definition stale_state :: lsys where
  "stale_state = fst (the (run_calls stale_calls (demo_sys 2 10 [(1, 0), (2, 1), (3, 0)], [])))"

lemma stale_run: "run_calls stale_calls (demo_sys 2 10 [(1, 0), (2, 1), (3, 0)], []) = Some (stale_state, [])"
  by code_simp

lemma stale_enter: "lock_enter 0 LOCK_EXCLUSIVE 2 stale_state = Inl Use_after_free"
  by code_simp

section \<open>Deadlocks that are missed\<close>

text \<open>Transactions 1 and 2 queue up behind 0. When 0 releases the lock, 1 holds it, but the edge of 2
  still leads to 0. Transaction 2 holds the second lock; 1 waits for that now.\<close>

definition missed_calls :: "lk_call list" where
  "missed_calls = [Enter 2 1 LOCK_EXCLUSIVE, Enter 0 0 LOCK_EXCLUSIVE, Enter 1 0 LOCK_EXCLUSIVE,
     Enter 2 0 LOCK_EXCLUSIVE, Unlock 0 0, Wake 1, Enter 1 1 LOCK_EXCLUSIVE]"

definition missed_state :: lsys where
  "missed_state = fst (the (run_calls missed_calls (demo_sys 3 10 [(1, 0), (2, 1), (3, 2)], [])))"

lemma missed_run:
  "run_calls missed_calls (demo_sys 3 10 [(1, 0), (2, 1), (3, 2)], []) =
     Some (missed_state, [(1, WaitIn 1 4), (2, WaitIn 0 3)])"
  by code_simp

lemma missed_queues:
  "queues missed_state 0 = Some [(2, LOCK_EXCLUSIVE, [1]), (3, LOCK_EXCLUSIVE, [2])]"
  "queues missed_state 1 = Some [(0, LOCK_EXCLUSIVE, [2]), (4, LOCK_EXCLUSIVE, [1])]"
  by code_simp+

lemma missed_waits:
  "lock_wait 1 4 1 missed_state = Inr (Waiting 4, missed_state)"
  "lock_wait 0 3 2 missed_state = Inr (Waiting 3, missed_state)"
  by code_simp+

section \<open>A search that does not end\<close>

text \<open>Cid 1 waits for cid 2 at one time, cid 2 queues up behind cid 1 at another: the graph has the
  cycle 1, 2 for good. The next transaction that waits for one of them searches it forever.\<close>

definition overflow_calls :: "lk_call list" where
  "overflow_calls = [Enter 0 0 LOCK_EXCLUSIVE, Enter 1 0 LOCK_EXCLUSIVE, Unlock 0 0, Wake 1, Unlock 1 0,
     Enter 2 1 LOCK_EXCLUSIVE, Enter 3 1 LOCK_EXCLUSIVE, Enter 4 1 LOCK_EXCLUSIVE, Unlock 2 1, Wake 3,
     Unlock 3 1, Wake 4]"

definition overflow_init :: "nat \<Rightarrow> lsys" where
  "overflow_init f = demo_sys 4 (Suc (Suc f)) [(1, 2), (2, 1), (3, 0), (4, 1), (5, 2), (6, 3)]"

definition overflow_state :: "nat \<Rightarrow> lsys" where
  "overflow_state f = fst (the (run_calls overflow_calls (overflow_init f, [])))"

lemma overflow_run: "run_calls overflow_calls (overflow_init f, []) = Some (overflow_state f, [])"
  by code_simp

definition overflow_matrix :: "bool list" where
  "overflow_matrix = [False, True, True, False, False, False, True, False, False, True, False, True,
     False, False, False, False]"

lemma overflow_edges:
  assumes "max_tasks s = 4" "wfg_matrix s = overflow_matrix"
  shows "x < 4 \<Longrightarrow> (x, y) \<in> waits_for s \<longleftrightarrow> (x, y) \<in> {(1, 0), (2, 0), (2, 1), (1, 2), (3, 2)}"
proof -
  assume "x < 4"
  then have x: "x = 0 \<or> x = 1 \<or> x = 2 \<or> x = 3" by arith
  show ?thesis
  proof (cases "y < 4")
    case True
    then have "y = 0 \<or> y = 1 \<or> y = 2 \<or> y = 3" by arith
    then show ?thesis using x assms
      by (elim disjE) (simp_all add: waits_for_def wfg_edge_def overflow_matrix_def)
  next
    case False
    then show ?thesis using assms by (auto simp: waits_for_def)
  qed
qed

lemma overflow_dfs:
  assumes s: "max_tasks s = 4" "wfg_matrix s = overflow_matrix"
  shows "wfg_dfs s 3 3 = Inl Stack_overflow"
proof -
  note e = overflow_edges [OF s]
  have t: "trap s 3 {1, 2}" unfolding trap_def using s(1) e [of 1] e [of 2] e [of 0] by auto
  show ?thesis unfolding wfg_dfs_def
  proof (rule wfg_scan_diverges [OF _ t])
    show "length (wfg_matrix s) = max_tasks s * max_tasks s" using s by (simp add: overflow_matrix_def)
    show "\<forall>y \<in> set [0..<max_tasks s]. (3, y) \<in> waits_for s \<longrightarrow> y \<in> {1, 2} \<or> y \<noteq> 3 \<and> (\<forall>z. (y, z) \<notin> waits_for s)"
      using e [of 3] by auto
    show "\<exists>y \<in> set [0..<max_tasks s]. y \<in> {1, 2} \<and> (3, y) \<in> waits_for s"
      using e [of 3] s(1) by auto
  qed (use s(1) in auto)
qed

lemma overflow_state_fields:
  "locks (overflow_state f) = [Some \<lparr>wait_groups = [], last_wait_group = None\<rparr>,
     Some \<lparr>wait_groups = [(4, \<lparr>wg_mode = LOCK_EXCLUSIVE, wg_entries = [4], wg_deadlocked = None\<rparr>)],
       last_wait_group = Some 4\<rparr>]"
  "max_tasks (overflow_state f) = 4" "next_wg (overflow_state f) = 5"
  "wfg_matrix (overflow_state f) = overflow_matrix[11 := False]"
  "length (tx_by_cid (overflow_state f)) = 4" "length (blocked_waitgroup_by_cid (overflow_state f)) = 4"
  "length (blocked_lock_by_cid (overflow_state f)) = 4"
  "txs (overflow_state f) = map (\<lambda>(sid, cid). Some \<lparr>tx_sid = sid, tx_cid = Some cid, tx_locked = []\<rparr>)
     [(1, 2), (2, 1), (3, 0), (4, 1), (5, 2), (6, 3)]"
  by code_simp+

lemma overflow_enter: "lock_enter 1 LOCK_EXCLUSIVE 5 (overflow_state f) = Inl Stack_overflow"
proof -
  let ?s = "overflow_state f"
  have g: "heap_get (locks ?s) 1 = Inr \<lparr>wait_groups = [(4, \<lparr>wg_mode = LOCK_EXCLUSIVE, wg_entries = [4], wg_deadlocked = None\<rparr>)],
       last_wait_group = Some 4\<rparr>"
    by (simp add: overflow_state_fields heap_get_def)
  have m: "overflow_matrix[11 := False, 11 := True] = overflow_matrix" by (simp add: overflow_matrix_def)
  have c: "heap_get (txs ?s) 4 = Inr \<lparr>tx_sid = 5, tx_cid = Some 2, tx_locked = []\<rparr>"
    "heap_get (txs ?s) 5 = Inr \<lparr>tx_sid = 6, tx_cid = Some 3, tx_locked = []\<rparr>"
    by (simp_all add: overflow_state_fields heap_get_def)
  show ?thesis
    unfolding lock_enter_def g rbind.simps lock.simps list.case prod.case
    using m c
    by (simp add: lock_enqueue_def last_group_def wg_get_def lock_put_def store_tx_get_cid_def
        wfg_set_def note_blocked_def array_put_def overflow_state_fields overflow_dfs overflow_matrix_def [THEN arg_cong [where f = length]] )
qed

end
