(* ===== verification/Cmoo_Lock_Props.thy ===== *)
theory Cmoo_Lock_Props
  imports Cmoo_Deadlock
begin

text \<open>The properties of the locks and of the deadlock detector.\<close>

section \<open>Helper lemmas\<close>

lemma reachable_wf: "lk_reachable n f (s, w) \<Longrightarrow> locks_wf s"
  using config_ok_reachable by (fastforce simp: config_ok_def)




section \<open>Properties\<close>

text \<open>C2: \<^verbatim>\<open>lock_lock\<close> up to its first wait implements the abstract fair lock: on every well formed
  state its answer and its effect on the queue of the lock are those of the specification (empty
  lock, re-entry, joining a shared group, stale upgrade, immediate upgrade, queueing), and the
  queues of all other locks stay as they are.\<close>

theorem lock_lock_implements_queue:
  assumes "locks_wf s" and "queues s l = Some q" and "lock_enter l m tx s = Inr (r, s')"
  shows "locks_wf s' \<and> (\<exists>q'. spec_acquire (next_wg s) m tx q = (r, q') \<and> queues s' = (queues s)(l \<mapsto> q'))"
  using lock_enter_refines [OF assms] by blast

definition demo1 :: lsys where
  "demo1 = demo_sys 2 10 [(1, 0), (2, 1)]"

lemma demo1_wf: "locks_wf demo1"
  unfolding demo1_def using reachable_wf [OF demo_reachable] .

definition demo2 :: lsys where
  "demo2 = snd (the (case lock_enter 0 LOCK_EXCLUSIVE 0 demo1 of Inl _ \<Rightarrow> None | Inr x \<Rightarrow> Some x))"

lemma demo2_eq: "lock_enter 0 LOCK_EXCLUSIVE 0 demo1 = Inr (Returned LOCK_TAKEN, demo2)"
  by code_simp

lemma demo1_queue: "queues demo1 0 = Some []"
  by code_simp

theorem lock_lock_implements_queue_witness:
  "\<exists>q'. spec_acquire 0 LOCK_EXCLUSIVE 0 [] = (Returned LOCK_TAKEN, q') \<and> queues demo2 = (queues demo1)(0 \<mapsto> q')"
proof -
  have "next_wg demo1 = 0" by code_simp
  then show ?thesis using lock_lock_implements_queue [OF demo1_wf demo1_queue demo2_eq] by simp
qed

text \<open>C3: \<^verbatim>\<open>lock_unlock\<close> implements the abstract release: a transaction that does not hold the lock
  changes nothing; otherwise it leaves the first group, the next group follows when that was the
  last holder, or when the remaining holder is the one waiting for an upgrade.\<close>

theorem lock_unlock_implements_queue:
  assumes "locks_wf s" and "queues s l = Some q" and "lock_unlock l tx s = Inr s'"
  shows "locks_wf s' \<and> queues s' = (queues s)(l \<mapsto> spec_release tx q)"
  using lock_unlock_refines [OF assms] by blast

definition demo3 :: lsys where
  "demo3 = (case lock_unlock 0 0 demo2 of Inl _ \<Rightarrow> demo2 | Inr x \<Rightarrow> x)"

lemma demo3_eq: "lock_unlock 0 0 demo2 = Inr demo3"
  by code_simp

lemma demo2_queue: "queues demo2 0 = Some [(0, LOCK_EXCLUSIVE, [0])]"
  by code_simp

lemma demo2_wf: "locks_wf demo2"
  using lock_enter_refines [OF demo1_wf demo1_queue demo2_eq] by blast

theorem lock_unlock_implements_queue_witness:
  "locks_wf demo3 \<and> queues demo3 = (queues demo2)(0 \<mapsto> [])"
  using lock_unlock_implements_queue [OF demo2_wf demo2_queue demo3_eq] by simp







text \<open>C7: the depth first search is right about the graph it is given: no result means that the
  transaction is on no cycle through the root; a result is the transaction with the largest sid
  on a path back to the root.\<close>

theorem wfg_dfs_correct:
  assumes "wfg_dfs s cid root_cid = Inr r"
  shows "case r of None \<Rightarrow> (cid, root_cid) \<notin> (waits_for s)\<^sup>+
    | Some v \<Rightarrow> \<exists>zs. way_to s root_cid cid zs \<and> youngest s zs v"
proof (cases r)
  case None
  then show ?thesis using wfg_dfs_none assms by simp
next
  case (Some v)
  have "set [0..<max_tasks s] \<subseteq> {..<max_tasks s}" by auto
  then show ?thesis using wfg_scan_sound [OF assms [unfolded wfg_dfs_def Some]] Some by simp
qed

definition two_cycle :: lsys where
  "two_cycle = (demo_sys 2 10 [(5, 0), (7, 1)])\<lparr>wfg_matrix := [False, True, True, False],
     tx_by_cid := [Some 0, Some 1]\<rparr>"

lemma two_cycle_dfs: "wfg_dfs two_cycle 0 0 = Inr (Some \<lparr>res_tx = 1, res_cid = 1, res_sid = 7\<rparr>)"
  by code_simp

theorem wfg_dfs_correct_witness:
  "\<exists>zs. way_to two_cycle 0 0 zs \<and> youngest two_cycle zs \<lparr>res_tx = 1, res_cid = 1, res_sid = 7\<rparr>"
  using wfg_dfs_correct [OF two_cycle_dfs] by simp

text \<open>C8: the search ends, within a stack whose size is the length of the longest chain of waiting
  transactions, whenever the graph has no cycle other than those through the root; without that
  it has no bound: in a graph with a cycle that the root is not on it recurses until the stack is
  exhausted, whatever its size (a situation that does arise, see C11).\<close>

theorem wfg_dfs_terminates:
  assumes "length (wfg_matrix s) = max_tasks s * max_tasks s" and "cid < max_tasks s"
    and "\<And>u v. (u, v) \<in> waits_for s \<Longrightarrow> v \<noteq> root_cid \<Longrightarrow> rank v < (rank u :: nat)"
    and "\<And>y. y < max_tasks s \<Longrightarrow> \<exists>c. wfg_candidate s y = Inr c" and "rank cid \<le> stack_frames s"
  shows "\<exists>r. wfg_dfs s cid root_cid = Inr r"
  unfolding wfg_dfs_def by (rule wfg_scan_total [where rank = rank]) (use assms in auto)

theorem wfg_dfs_terminates_witness: "\<exists>r. wfg_dfs two_cycle 0 0 = Inr r"
proof (rule wfg_dfs_terminates [where rank = "\<lambda>u. if u = 0 then 1 else 0"])
  have "wfg_edge two_cycle u v = Inr True \<Longrightarrow> v < 2 \<Longrightarrow> v \<noteq> 0 \<Longrightarrow> u = 0" for u v
    by (cases "u < 2")
      (auto simp: wfg_edge_def two_cycle_def demo_sys_def lock_new_def locks_new_ctx_def less_2_cases_iff
        numeral_eq_Suc less_Suc_eq split: if_splits)
  then show "(u, v) \<in> waits_for two_cycle \<Longrightarrow> v \<noteq> 0 \<Longrightarrow> (if v = 0 then 1 else 0) < (if u = 0 then 1 else (0 :: nat))" for u v
    by (force simp: waits_for_def two_cycle_def demo_sys_def lock_new_def locks_new_ctx_def)
  show "y < max_tasks two_cycle \<Longrightarrow> \<exists>c. wfg_candidate two_cycle y = Inr c" for y
    by (cases y) (auto simp: two_cycle_def demo_sys_def lock_new_def locks_new_ctx_def wfg_candidate_def
        array_get_def store_tx_get_sid_def heap_get_def)
qed (simp_all add: two_cycle_def demo_sys_def lock_new_def locks_new_ctx_def)

text \<open>C9: the wait-for graph is never cleaned up: \<^verbatim>\<open>lock_unlock\<close> sets the edges of the transactions
  behind it instead of clearing them. Once there has been contention the edges stay for good, and
  \<^verbatim>\<open>locks_free_ctx\<close> aborts at its assertion.\<close>

theorem contention_aborts_locks_free_ctx:
  assumes "lk_step\<^sup>*\<^sup>* c c'" and "True \<in> set (wfg_matrix (fst c))"
  shows "locks_free_ctx (fst c') = Inl Assert_failed"
  using edge_stays [OF assms] by (simp add: locks_free_ctx_def)

theorem contention_aborts_locks_free_ctx_witness:
  "locks_free_ctx missed_state = Inl Assert_failed"
proof -
  have "True \<in> set (wfg_matrix missed_state)" by code_simp
  then show ?thesis using contention_aborts_locks_free_ctx [of "(missed_state, w)" "(missed_state, w)" for w] by simp
qed


text \<open>C11: five transactions, with four cids between them, are enough for a search that does not
  end: the state is reachable for every size of the C stack, nobody waits, and the next
  transaction that has to wait overflows the stack.\<close>

theorem deadlock_search_overflows:
  "\<exists>s. lk_reachable 4 (Suc (Suc f)) (s, \<lambda>_. None) \<and> lock_enter 1 LOCK_EXCLUSIVE 5 s = Inl Stack_overflow"
proof (intro exI conjI)
  show "lk_reachable 4 (Suc (Suc f)) (overflow_state f, \<lambda>_. None)"
    using demo_run [OF overflow_run [unfolded overflow_init_def]] by (simp add: map_of.simps(1) [abs_def])
qed (rule overflow_enter)


end
