(* ===== verification/Cmoo_Types.thy ===== *)
theory Cmoo_Types
  imports Cmoo_Base
begin

unbundle bit_operations_syntax

text \<open>
  The value representation of \<^verbatim>\<open>src/src/types.c\<close>: a value is a 64 bit word whose three low bits
  are a type tag. Nil, booleans, integers, floats and object references carry their payload in
  the upper bits; a string carries the address of a reference counted heap structure. The heap
  of strings is an explicit state; \<open>avail\<close> lists the addresses that \<^verbatim>\<open>malloc\<close> is going to
  return for it. A float is its 32 bit pattern.
\<close>

section \<open>Type tags\<close>

abbreviation (input) TYPE_NIL :: nat where "TYPE_NIL \<equiv> 0"
abbreviation (input) TYPE_BOOL :: nat where "TYPE_BOOL \<equiv> 1"
abbreviation (input) TYPE_INT :: nat where "TYPE_INT \<equiv> 2"
abbreviation (input) TYPE_FLOAT :: nat where "TYPE_FLOAT \<equiv> 3"
abbreviation (input) TYPE_STRING :: nat where "TYPE_STRING \<equiv> 4"
abbreviation (input) TYPE_OBJREF :: nat where "TYPE_OBJREF \<equiv> 5"
abbreviation (input) TYPE_SPECIAL :: nat where "TYPE_SPECIAL \<equiv> 6"

record heap_string =
  ref_count :: "16 word"
  hs_length :: "16 word"
  hs_data :: "byte list"

record sheap =
  cells :: "addr \<Rightarrow> heap_string option"
  avail :: "addr list"

definition val_type :: "val \<Rightarrow> nat" where
  "val_type v = unat (v AND 7)"

section \<open>Constructors\<close>

definition val_make_nil :: val where
  "val_make_nil = 0"

definition val_make_bool :: "bool \<Rightarrow> val" where
  "val_make_bool i = push_bit 4 (of_bool i) OR 1"

definition val_make_int :: "32 word \<Rightarrow> val" where
  "val_make_int i = push_bit 4 (scast i) OR 2"

definition val_make_float :: "32 word \<Rightarrow> val" where
  "val_make_float f = push_bit 4 (ucast f) OR 3"

definition val_make_objref :: "object_id \<Rightarrow> val res" where
  "val_make_objref ref =
     rbind (c_assert (ref < 0x010000000000)) (\<lambda>_. Inr (push_bit 4 ref OR 5))"

definition val_make_special :: "addr \<Rightarrow> val res" where
  "val_make_special special =
     rbind (c_assert (special AND 7 = 0)) (\<lambda>_. Inr (special OR 6))"

definition string_malloc :: "sheap \<Rightarrow> (addr \<times> sheap) res" where
  "string_malloc h =
     (case avail h of [] \<Rightarrow> Inl Malloc_failed | a # as \<Rightarrow> Inr (a, h\<lparr>avail := as\<rparr>))"

definition val_make_string :: "16 word \<Rightarrow> byte list \<Rightarrow> sheap \<Rightarrow> (val \<times> sheap) res" where
  "val_make_string len s h =
     rbind (string_malloc h) (\<lambda>(a, h).
       if length s < unat len then Inl Out_of_bounds
       else Inr (a OR 4,
         h\<lparr>cells := (cells h)(a \<mapsto>
           \<lparr>ref_count = 1, hs_length = len, hs_data = take (unat len) s @ [0]\<rparr>)\<rparr>))"

section \<open>Reference counting\<close>

definition string_addr :: "val \<Rightarrow> addr" where
  "string_addr v = v AND NOT 7"

definition string_get :: "val \<Rightarrow> sheap \<Rightarrow> heap_string res" where
  "string_get v h =
     (case cells h (string_addr v) of None \<Rightarrow> Inl Use_after_free | Some hs \<Rightarrow> Inr hs)"

definition val_inc_ref :: "val \<Rightarrow> sheap \<Rightarrow> sheap res" where
  "val_inc_ref v h =
     (if val_type v = TYPE_STRING then
        rbind (string_get v h) (\<lambda>hs.
          Inr (h\<lparr>cells := (cells h)(string_addr v \<mapsto> hs\<lparr>ref_count := ref_count hs + 1\<rparr>)\<rparr>))
      else Inr h)"

definition val_dec_ref :: "val \<Rightarrow> sheap \<Rightarrow> sheap res" where
  "val_dec_ref v h =
     (if val_type v = TYPE_STRING then
        rbind (string_get v h) (\<lambda>hs.
          let n = ref_count hs - 1 in
          if n = 0 then Inr (h\<lparr>cells := (cells h)(string_addr v := None)\<rparr>)
          else Inr (h\<lparr>cells := (cells h)(string_addr v \<mapsto> hs\<lparr>ref_count := n\<rparr>)\<rparr>))
      else Inr h)"

text \<open>\<^verbatim>\<open>val_clear\<close> and \<^verbatim>\<open>val_init\<close> take a pointer to a value; the model returns what is
  left there.\<close>

definition val_clear :: "val \<Rightarrow> sheap \<Rightarrow> (val \<times> sheap) res" where
  "val_clear v h = rbind (val_dec_ref v h) (\<lambda>h. Inr (0, h))"

definition val_init :: val where
  "val_init = 0"

section \<open>Accessors\<close>

definition val_get_bool :: "val \<Rightarrow> bool res" where
  "val_get_bool v = rbind (c_assert (val_type v = TYPE_BOOL)) (\<lambda>_. Inr (drop_bit 4 v \<noteq> 0))"

definition val_get_int :: "val \<Rightarrow> 32 word res" where
  "val_get_int v = rbind (c_assert (val_type v = TYPE_INT)) (\<lambda>_. Inr (ucast (drop_bit 4 v)))"

definition val_get_float :: "val \<Rightarrow> 32 word res" where
  "val_get_float v = rbind (c_assert (val_type v = TYPE_FLOAT)) (\<lambda>_. Inr (ucast (drop_bit 4 v)))"

definition val_get_string_data :: "val \<Rightarrow> sheap \<Rightarrow> byte list res" where
  "val_get_string_data v h =
     rbind (c_assert (val_type v = TYPE_STRING)) (\<lambda>_.
       rbind (string_get v h) (\<lambda>hs. Inr (hs_data hs)))"

definition val_get_string_len :: "val \<Rightarrow> sheap \<Rightarrow> 16 word res" where
  "val_get_string_len v h =
     rbind (c_assert (val_type v = TYPE_STRING)) (\<lambda>_.
       rbind (string_get v h) (\<lambda>hs. Inr (hs_length hs)))"

definition val_get_objref :: "val \<Rightarrow> object_id res" where
  "val_get_objref v = rbind (c_assert (val_type v = TYPE_OBJREF)) (\<lambda>_. Inr (drop_bit 4 v))"

definition val_get_special :: "val \<Rightarrow> addr" where
  "val_get_special v = v AND NOT 7"

section \<open>Printing\<close>

text \<open>The formats \<^verbatim>\<open>%i\<close> and \<^verbatim>\<open>%li\<close> print the decimal digits of a signed number; \<^verbatim>\<open>%f\<close> of the
  C library is the parameter \<open>fmt\<close>. \<^verbatim>\<open>snprintf\<close> keeps at most 127 characters.\<close>

fun dec_digits :: "nat \<Rightarrow> cstring" where
  "dec_digits n = (if n < 10 then [of_nat (48 + n)]
                   else dec_digits (n div 10) @ [of_nat (48 + n mod 10)])"

declare dec_digits.simps [simp del]

definition dec_int :: "int \<Rightarrow> cstring" where
  "dec_int i = (if i < 0 then lit ''-'' @ dec_digits (nat (- i)) else dec_digits (nat i))"

definition snprintf128 :: "cstring \<Rightarrow> cstring" where
  "snprintf128 s = take 127 s"

definition val_print :: "(32 word \<Rightarrow> cstring) \<Rightarrow> val \<Rightarrow> sheap \<Rightarrow> cstring res" where
  "val_print fmt v h =
     (if val_type v = TYPE_NIL then Inr (snprintf128 (lit ''NIL''))
      else if val_type v = TYPE_BOOL then
        rbind (val_get_bool v) (\<lambda>b. Inr (snprintf128 (if b then lit ''#t'' else lit ''#f'')))
      else if val_type v = TYPE_INT then
        rbind (val_get_int v) (\<lambda>i. Inr (snprintf128 (dec_int (sint i))))
      else if val_type v = TYPE_FLOAT then
        rbind (val_get_float v) (\<lambda>f. Inr (snprintf128 (fmt f)))
      else if val_type v = TYPE_STRING then
        rbind (val_get_string_data v h) (\<lambda>s. Inr (snprintf128 (lit [CHR 39] @ cstr s @ lit [CHR 39])))
      else if val_type v = TYPE_OBJREF then
        rbind (val_get_objref v) (\<lambda>r. Inr (snprintf128 (lit ''OBJ:'' @ dec_int (sint r))))
      else if val_type v = TYPE_SPECIAL then Inr (snprintf128 (lit ''SPECIAL''))
      else Inr (snprintf128 (lit ''??'')))"

section \<open>Lemmas on the tags\<close>

lemma and_7_iff: "w AND 7 = (v :: 'a::len word) AND 7 \<longleftrightarrow> (\<forall>n < 3. n < LENGTH('a) \<longrightarrow> bit w n = bit v n)"
proof -
  have m: "(7 :: 'a word) = mask 3" by (simp add: mask_eq_exp_minus_1)
  show ?thesis unfolding m by (auto simp: bit_eq_iff bit_simps)
qed

lemma tag_of_payload:
  "t AND 7 = t \<Longrightarrow> (push_bit 4 (x :: val) OR t) AND 7 = t"
proof -
  assume t: "t AND 7 = t"
  have "push_bit 4 x AND (7 :: val) = 0"
  proof -
    have m: "(7 :: val) = mask 3" by (simp add: mask_eq_exp_minus_1)
    show ?thesis unfolding m by (auto simp: bit_eq_iff bit_simps)
  qed
  then show ?thesis using t by (simp add: bit.conj_disj_distrib2)
qed

lemma val_type_payload: "t AND 7 = t \<Longrightarrow> val_type (push_bit 4 x OR t) = unat t"
  by (simp add: val_type_def tag_of_payload)

lemma drop_payload: "drop_bit 4 t = 0 \<Longrightarrow> drop_bit 4 (push_bit 4 x OR t) = (x :: val) AND mask 60"
proof (rule bit_word_eqI)
  fix n assume t: "drop_bit 4 t = 0" and n: "n < LENGTH(64)"
  have "bit (drop_bit 4 t) n = False" using t by simp
  then show "bit (drop_bit 4 (push_bit 4 x OR t)) n = bit (x AND mask 60) n"
    using n by (auto simp: bit_simps)
qed

lemma val_type_make [simp]:
  "val_type val_make_nil = TYPE_NIL"
  "val_type (val_make_bool b) = TYPE_BOOL"
  "val_type (val_make_int i) = TYPE_INT"
  "val_type (val_make_float f) = TYPE_FLOAT"
  by (simp_all add: val_make_nil_def val_make_bool_def val_make_int_def val_make_float_def
      val_type_payload val_type_def [of 0] del: push_bit_of_1)

lemma val_type_objref: "val_make_objref r = Inr v \<Longrightarrow> val_type v = TYPE_OBJREF"
  by (auto simp: val_make_objref_def val_type_payload res_simps)

lemma val_type_0 [simp]: "val_type 0 = 0"
  by (simp add: val_type_def)

lemma val_get_bool_make [simp]: "val_get_bool (val_make_bool b) = Inr b"
proof -
  have "drop_bit 4 (val_make_bool b) = (of_bool b :: val) AND mask 60"
    unfolding val_make_bool_def by (rule drop_payload) simp
  then show ?thesis by (cases b) (simp_all add: val_get_bool_def mask_eq_exp_minus_1)
qed

lemma val_get_int_make [simp]: "val_get_int (val_make_int i) = Inr i"
proof -
  have "drop_bit 4 (val_make_int i) = (scast i :: val) AND mask 60"
    unfolding val_make_int_def by (rule drop_payload) simp
  moreover have "ucast ((scast i :: val) AND mask 60) = i"
    by (rule bit_word_eqI) (auto simp: bit_simps)
  ultimately show ?thesis by (simp add: val_get_int_def)
qed

lemma val_get_float_make [simp]: "val_get_float (val_make_float f) = Inr f"
proof -
  have "drop_bit 4 (val_make_float f) = (ucast f :: val) AND mask 60"
    unfolding val_make_float_def by (rule drop_payload) simp
  moreover have "ucast ((ucast f :: val) AND mask 60) = f"
    by (rule bit_word_eqI) (auto simp: bit_simps)
  ultimately show ?thesis by (simp add: val_get_float_def)
qed

lemma val_get_objref_make: "val_make_objref r = Inr v \<Longrightarrow> val_get_objref v = Inr r"
proof -
  assume v: "val_make_objref r = Inr v"
  then have r: "r < 0x010000000000" and eq: "v = push_bit 4 r OR 5"
    by (auto simp: val_make_objref_def res_simps)
  have "drop_bit 4 v = r AND mask 60" unfolding eq by (rule drop_payload) simp
  also have "\<dots> = r"
  proof (rule less_mask_eq)
    have "(0x010000000000 :: val) < 2 ^ 60" by simp
    with r show "r < 2 ^ 60" by (rule less_trans)
  qed
  finally show ?thesis using val_type_objref [OF v] by (simp add: val_get_objref_def)
qed

end
