(* ===== verification/Cmoo_Strings.thy ===== *)
theory Cmoo_Strings
  imports Cmoo_Types
begin

unbundle bit_operations_syntax

text \<open>
  What \<^verbatim>\<open>types.c\<close> promises: the abstract value a tagged word stands for, and the discipline of
  the reference counts. \<open>refs_ok h M\<close> says that \<open>M\<close> is the multiset of all values held anywhere
  and that the heap agrees with it: exactly the referenced strings are allocated, and each count
  is the number of its references.
\<close>

section \<open>Strings and their addresses\<close>

lemma val_type_lt_8: "val_type v < 8"
proof -
  have "v AND mask 3 < 2 ^ 3" by (rule and_mask_less') simp
  then have "v AND 7 < 8" by (simp add: mask_eq_exp_minus_1)
  then show ?thesis by (simp add: val_type_def word_less_nat_alt)
qed

lemma string_val_eq:
  assumes "val_type v = TYPE_STRING"
  shows "string_addr v OR 4 = v" "string_addr v AND 7 = 0"
proof -
  have t: "v AND 7 = 4"
    using assms by (simp add: val_type_def word_unat_eq_iff)
  have "(v AND NOT 7) OR (v AND 7) = v" by (simp add: bit.conj_disj_distrib [symmetric])
  then show "string_addr v OR 4 = v" by (simp add: string_addr_def t)
  show "string_addr v AND 7 = 0" by (simp add: string_addr_def and.assoc)
qed

lemma string_addr_of [simp]:
  assumes "a AND 7 = 0"
  shows "string_addr (a OR 4) = a" "val_type (a OR 4) = TYPE_STRING"
proof -
  have "a = (a AND NOT 7) OR (a AND 7)" by (simp add: bit.conj_disj_distrib [symmetric])
  then have "a = a AND NOT 7" using assms by simp
  moreover have "(4 :: addr) AND NOT 7 = 0" by simp
  ultimately show "string_addr (a OR 4) = a"
    by (simp add: string_addr_def bit.conj_disj_distrib2)
  show "val_type (a OR 4) = TYPE_STRING"
    using assms by (simp add: val_type_def bit.conj_disj_distrib2)
qed

lemma string_addr_inj:
  "val_type v = TYPE_STRING \<Longrightarrow> a AND 7 = 0 \<Longrightarrow> a OR 4 = v \<longleftrightarrow> a = string_addr v"
  using string_val_eq [of v] by auto

section \<open>The abstract value\<close>

datatype dval =
    DNil
  | DBool bool
  | DInt "32 word"
  | DFloat "32 word"
  | DString "byte list"
  | DObj object_id
  | DSpecial addr

fun val_encode :: "dval \<Rightarrow> sheap \<Rightarrow> (val \<times> sheap) res" where
  "val_encode DNil h = Inr (val_make_nil, h)"
| "val_encode (DBool b) h = Inr (val_make_bool b, h)"
| "val_encode (DInt i) h = Inr (val_make_int i, h)"
| "val_encode (DFloat f) h = Inr (val_make_float f, h)"
| "val_encode (DString s) h = val_make_string (of_nat (length s)) s h"
| "val_encode (DObj r) h = rbind (val_make_objref r) (\<lambda>v. Inr (v, h))"
| "val_encode (DSpecial p) h = rbind (val_make_special p) (\<lambda>v. Inr (v, h))"

definition val_decode :: "val \<Rightarrow> sheap \<Rightarrow> dval res" where
  "val_decode v h =
     (if val_type v = TYPE_NIL then Inr DNil
      else if val_type v = TYPE_BOOL then rbind (val_get_bool v) (\<lambda>b. Inr (DBool b))
      else if val_type v = TYPE_INT then rbind (val_get_int v) (\<lambda>i. Inr (DInt i))
      else if val_type v = TYPE_FLOAT then rbind (val_get_float v) (\<lambda>f. Inr (DFloat f))
      else if val_type v = TYPE_STRING then
        rbind (val_get_string_len v h) (\<lambda>n.
          rbind (val_get_string_data v h) (\<lambda>s. Inr (DString (take (unat n) s))))
      else if val_type v = TYPE_OBJREF then rbind (val_get_objref v) (\<lambda>r. Inr (DObj r))
      else Inr (DSpecial (val_get_special v)))"

definition avail_ok :: "sheap \<Rightarrow> bool" where
  "avail_ok h \<longleftrightarrow> distinct (avail h) \<and>
     (\<forall>a \<in> set (avail h). a AND 7 = 0 \<and> a \<noteq> 0 \<and> cells h a = None)"

lemma special_roundtrip:
  assumes "p AND 7 = 0"
  shows "val_type (p OR 6) = TYPE_SPECIAL" "val_get_special (p OR 6) = p"
proof -
  have "p = (p AND NOT 7) OR (p AND 7)" by (simp add: bit.conj_disj_distrib [symmetric])
  then have "p = p AND NOT 7" using assms by simp
  moreover have "(6 :: addr) AND NOT 7 = 0" by simp
  ultimately show "val_get_special (p OR 6) = p"
    by (simp add: val_get_special_def bit.conj_disj_distrib2)
  show "val_type (p OR 6) = TYPE_SPECIAL"
    using assms by (simp add: val_type_def bit.conj_disj_distrib2)
qed

lemma val_make_string_eq_Inr:
  "val_make_string len s h = Inr (v, h') \<longleftrightarrow>
     (\<exists>a as. avail h = a # as \<and> unat len \<le> length s \<and> v = a OR 4 \<and>
        h' = h\<lparr>avail := as, cells := (cells h)(a \<mapsto>
          \<lparr>ref_count = 1, hs_length = len, hs_data = take (unat len) s @ [0]\<rparr>)\<rparr>)"
  by (auto simp: val_make_string_def string_malloc_def res_simps split: list.splits)

lemma val_decode_string:
  assumes "avail_ok h" and "length s < 2 ^ 16"
    and "val_make_string (of_nat (length s)) s h = Inr (v, h')"
  shows "val_decode v h' = Inr (DString s)"
proof -
  from assms(3) obtain a as where a: "avail h = a # as" and v: "v = a OR 4"
    and h': "cells h' a = Some \<lparr>ref_count = 1, hs_length = of_nat (length s),
      hs_data = take (unat (of_nat (length s) :: 16 word)) s @ [0]\<rparr>"
    by (auto simp: val_make_string_eq_Inr)
  have len: "unat (of_nat (length s) :: 16 word) = length s"
    using assms(2) by (simp add: unat_of_nat)
  have "a AND 7 = 0" using assms(1) a by (simp add: avail_ok_def)
  with h' show ?thesis
    by (simp add: val_decode_def val_get_string_len_def val_get_string_data_def string_get_def
        v len)
qed

lemma val_decode_encode:
  assumes "avail_ok h" and "\<And>s. d = DString s \<Longrightarrow> length s < 2 ^ 16"
    and enc: "val_encode d h = Inr (v, h')"
  shows "val_decode v h' = Inr d"
proof (cases d)
  case (DString s)
  then show ?thesis using assms by (auto intro: val_decode_string)
next
  case (DObj r)
  then have "val_make_objref r = Inr v" using enc by (auto simp: res_simps)
  with DObj show ?thesis by (simp add: val_decode_def val_type_objref val_get_objref_make)
next
  case (DSpecial p)
  then have "p AND 7 = 0" "v = p OR 6"
    using enc by (auto simp: val_make_special_def res_simps)
  with DSpecial show ?thesis by (simp add: val_decode_def special_roundtrip)
qed (use enc in \<open>auto simp: val_decode_def\<close>)

section \<open>The reference counting discipline\<close>

definition cell_ok :: "heap_string \<Rightarrow> bool" where
  "cell_ok hs \<longleftrightarrow> (\<exists>s. length s = unat (hs_length hs) \<and> hs_data hs = s @ [0])"

definition entry_ok :: "val multiset \<Rightarrow> addr \<Rightarrow> heap_string \<Rightarrow> bool" where
  "entry_ok M a hs \<longleftrightarrow>
     a AND 7 = 0 \<and> unat (ref_count hs) = count M (a OR 4) \<and> 0 < count M (a OR 4) \<and> cell_ok hs"

definition refs_ok :: "sheap \<Rightarrow> val multiset \<Rightarrow> bool" where
  "refs_ok h M \<longleftrightarrow>
     (\<forall>a hs. cells h a = Some hs \<longrightarrow> entry_ok M a hs) \<and>
     (\<forall>v \<in># M. val_type v = TYPE_STRING \<longrightarrow> cells h (string_addr v) \<noteq> None) \<and>
     avail_ok h"

text \<open>Between two heaps with \<open>same_strings\<close>, a string that is alive in both is unchanged: the
  strings are immutable.\<close>

definition same_strings :: "sheap \<Rightarrow> sheap \<Rightarrow> bool" where
  "same_strings h h' \<longleftrightarrow>
     (\<forall>a hs hs'. cells h a = Some hs \<longrightarrow> cells h' a = Some hs' \<longrightarrow>
        hs_data hs' = hs_data hs \<and> hs_length hs' = hs_length hs)"

lemma same_strings_refl [simp]: "same_strings h h"
  by (simp add: same_strings_def)

lemma refs_ok_empty: "refs_ok \<lparr>cells = Map.empty, avail = as\<rparr> {#} \<longleftrightarrow>
    avail_ok \<lparr>cells = Map.empty, avail = as\<rparr>"
  by (simp add: refs_ok_def)

lemma entry_ok_cong: "count N (a OR 4) = count M (a OR 4) \<Longrightarrow> entry_ok N a hs \<longleftrightarrow> entry_ok M a hs"
  by (simp add: entry_ok_def)

lemma refs_ok_nonstring:
  assumes v: "val_type v \<noteq> TYPE_STRING"
  shows "refs_ok h (add_mset v M) \<longleftrightarrow> refs_ok h M"
proof -
  have "count (add_mset v M) (a OR 4) = count M (a OR 4)" if "a AND 7 = 0" for a
    using string_addr_of(2) [OF that] v by auto
  then have "entry_ok (add_mset v M) a hs \<longleftrightarrow> entry_ok M a hs" for a hs
    by (cases "a AND 7 = 0") (auto simp: entry_ok_def)
  then show ?thesis using v unfolding refs_ok_def by simp
qed

lemma refs_ok_live:
  assumes "refs_ok h M" and "v \<in># M" and "val_type v = TYPE_STRING"
  obtains hs where "cells h (string_addr v) = Some hs" "unat (ref_count hs) = count M v"
    "cell_ok hs"
  using assms string_val_eq [of v] unfolding refs_ok_def entry_ok_def by (metis not_None_eq)

lemma refs_ok_upd:
  assumes ok: "refs_ok h M" and v: "val_type v = TYPE_STRING"
    and live: "cells h (string_addr v) \<noteq> None"
    and cnt: "unat n = count N v" "0 < count N v"
    and same: "\<And>w. w \<noteq> v \<Longrightarrow> count N w = count M w"
    and hs: "cells h (string_addr v) = Some hs"
  shows "refs_ok (h\<lparr>cells := (cells h)(string_addr v \<mapsto> hs\<lparr>ref_count := n\<rparr>)\<rparr>) N"
proof -
  have av: "string_addr v OR 4 = v" "string_addr v AND 7 = 0" using string_val_eq [OF v] by auto
  have other: "a OR 4 \<noteq> v" if "a AND 7 = 0" "a \<noteq> string_addr v" for a
    using that string_addr_inj [OF v] by auto
  have mem: "w \<in># M" if "w \<in># N" "w \<noteq> v" for w
    using that same [of w] by (metis count_eq_zero_iff)
  show ?thesis
    unfolding refs_ok_def
  proof (intro conjI allI impI ballI)
    fix a hs' assume "cells (h\<lparr>cells := (cells h)(string_addr v \<mapsto> hs\<lparr>ref_count := n\<rparr>)\<rparr>) a = Some hs'"
    then consider "a = string_addr v" "hs' = hs\<lparr>ref_count := n\<rparr>"
      | "a \<noteq> string_addr v" "cells h a = Some hs'"
      by (auto split: if_splits)
    then show "entry_ok N a hs'"
    proof cases
      case 1
      have "entry_ok M (string_addr v) hs" using ok \<open>cells h (string_addr v) = Some hs\<close>
        unfolding refs_ok_def by blast
      then show ?thesis using 1 cnt av by (simp add: entry_ok_def cell_ok_def)
    next
      case 2
      then have l: "entry_ok M a hs'" using ok unfolding refs_ok_def by blast
      then have "count N (a OR 4) = count M (a OR 4)"
        using 2 same other by (simp add: entry_ok_def)
      then show ?thesis using l entry_ok_cong by metis
    qed
  next
    fix w assume "w \<in># N" "val_type w = TYPE_STRING"
    then show "cells (h\<lparr>cells := (cells h)(string_addr v \<mapsto> hs\<lparr>ref_count := n\<rparr>)\<rparr>) (string_addr w) \<noteq> None"
      using mem [of w] ok by (cases "w = v") (auto simp: refs_ok_def)
  next
    show "avail_ok (h\<lparr>cells := (cells h)(string_addr v \<mapsto> hs\<lparr>ref_count := n\<rparr>)\<rparr>)"
      using ok live by (auto simp: refs_ok_def avail_ok_def)
  qed
qed

lemma refs_ok_free:
  assumes ok: "refs_ok h M" and v: "val_type v = TYPE_STRING"
    and cnt: "count N v = 0" and same: "\<And>w. w \<noteq> v \<Longrightarrow> count N w = count M w"
  shows "refs_ok (h\<lparr>cells := (cells h)(string_addr v := None)\<rparr>) N"
proof -
  have av: "string_addr v OR 4 = v" "string_addr v AND 7 = 0" using string_val_eq [OF v] by auto
  have other: "a OR 4 \<noteq> v" if "a AND 7 = 0" "a \<noteq> string_addr v" for a
    using that string_addr_inj [OF v] by auto
  have mem: "w \<in># M \<and> w \<noteq> v" if "w \<in># N" for w
    using that same [of w] cnt by (metis count_eq_zero_iff)
  have inj: "string_addr w \<noteq> string_addr v" if "val_type w = TYPE_STRING" "w \<noteq> v" for w
    using that v string_val_eq by metis
  show ?thesis
    unfolding refs_ok_def
  proof (intro conjI allI impI ballI)
    fix a hs assume "cells (h\<lparr>cells := (cells h)(string_addr v := None)\<rparr>) a = Some hs"
    then have a: "a \<noteq> string_addr v" "cells h a = Some hs" by (auto split: if_splits)
    then have l: "entry_ok M a hs" using ok unfolding refs_ok_def by blast
    then have "count N (a OR 4) = count M (a OR 4)"
      using a same other by (simp add: entry_ok_def)
    then show "entry_ok N a hs" using l entry_ok_cong by metis
  next
    fix w assume w: "w \<in># N" "val_type w = TYPE_STRING"
    then have "cells h (string_addr w) \<noteq> None" using mem ok unfolding refs_ok_def by metis
    then show "cells (h\<lparr>cells := (cells h)(string_addr v := None)\<rparr>) (string_addr w) \<noteq> None"
      using inj [of w] w mem by simp
  next
    show "avail_ok (h\<lparr>cells := (cells h)(string_addr v := None)\<rparr>)"
      using ok by (auto simp: refs_ok_def avail_ok_def)
  qed
qed

lemma unat_plus_1_16: "unat (n :: 16 word) < 65535 \<Longrightarrow> unat (n + 1) = unat n + 1"
  by (simp add: unat_word_ariths)

lemma unat_minus_1_16: "0 < unat (n :: 16 word) \<Longrightarrow> unat (n - 1) = unat n - 1"
  by (metis neq0_conv unat_0 unat_minus_one word_neq_0_conv)

lemma inc_ref_ok:
  assumes ok: "refs_ok h M" and v: "v \<in># M" and small: "count M v < 65535"
  obtains h' where "val_inc_ref v h = Inr h'" "refs_ok h' (add_mset v M)" "same_strings h h'"
    "avail h' = avail h"
proof (cases "val_type v = TYPE_STRING")
  case False
  then show ?thesis using that [of h] ok by (simp add: val_inc_ref_def refs_ok_nonstring)
next
  case True
  obtain hs where hs: "cells h (string_addr v) = Some hs" "unat (ref_count hs) = count M v"
    using refs_ok_live [OF ok v True] by metis
  let ?h' = "h\<lparr>cells := (cells h)(string_addr v \<mapsto> hs\<lparr>ref_count := ref_count hs + 1\<rparr>)\<rparr>"
  have "refs_ok ?h' (add_mset v M)"
    by (rule refs_ok_upd [OF ok True]) (use hs small in \<open>auto simp: unat_plus_1_16\<close>)
  moreover have "val_inc_ref v h = Inr ?h'"
    using True hs by (simp add: val_inc_ref_def string_get_def)
  moreover have "same_strings h ?h'" using hs by (auto simp: same_strings_def)
  ultimately show ?thesis using that [of ?h'] by simp
qed

lemma dec_ref_ok:
  assumes ok: "refs_ok h (add_mset v M)"
  obtains h' where "val_dec_ref v h = Inr h'" "refs_ok h' M" "same_strings h h'"
    "avail h' = avail h"
proof (cases "val_type v = TYPE_STRING")
  case False
  then show ?thesis using that [of h] ok by (simp add: val_dec_ref_def refs_ok_nonstring)
next
  case True
  obtain hs where hs: "cells h (string_addr v) = Some hs" "unat (ref_count hs) = count M v + 1"
    using refs_ok_live [OF ok _ True] by (metis add.commute count_add_mset plus_1_eq_Suc union_single_eq_member)
  have m: "unat (ref_count hs - 1) = count M v" using hs by (simp add: unat_minus_1_16)
  show ?thesis
  proof (cases "count M v = 0")
    case True': True
    let ?h' = "h\<lparr>cells := (cells h)(string_addr v := None)\<rparr>"
    have "refs_ok ?h' M" by (rule refs_ok_free [OF ok True True']) simp
    moreover have "ref_count hs - 1 = 0" using m True' by (simp add: unat_eq_zero)
    then have "val_dec_ref v h = Inr ?h'"
      using True hs by (simp add: val_dec_ref_def string_get_def Let_def)
    moreover have "same_strings h ?h'" by (auto simp: same_strings_def)
    ultimately show ?thesis using that [of ?h'] by simp
  next
    case False
    let ?h' = "h\<lparr>cells := (cells h)(string_addr v \<mapsto> hs\<lparr>ref_count := ref_count hs - 1\<rparr>)\<rparr>"
    have "ref_count hs - 1 \<noteq> 0" using m False by (metis unat_0)
    then have "val_dec_ref v h = Inr ?h'"
      using True hs by (simp add: val_dec_ref_def string_get_def Let_def)
    moreover have "refs_ok ?h' M"
      by (rule refs_ok_upd [OF ok True]) (use hs m False in auto)
    moreover have "same_strings h ?h'" using hs by (auto simp: same_strings_def)
    ultimately show ?thesis using that [of ?h'] by simp
  qed
qed

lemma make_string_ok:
  assumes ok: "refs_ok h M" and mk: "val_make_string len s h = Inr (v, h')"
  shows "refs_ok h' (add_mset v M) \<and> same_strings h h' \<and> val_type v = TYPE_STRING"
proof -
  obtain a as where a: "avail h = a # as" "unat len \<le> length s" "v = a OR 4"
    and h': "h' = h\<lparr>avail := as, cells := (cells h)(a \<mapsto>
          \<lparr>ref_count = 1, hs_length = len, hs_data = take (unat len) s @ [0]\<rparr>)\<rparr>"
    using mk by (auto simp: val_make_string_eq_Inr)
  have al: "a AND 7 = 0" "cells h a = None" and av: "avail_ok h"
    using ok a by (auto simp: refs_ok_def avail_ok_def)
  have fresh: "v \<notin># M" using ok al a unfolding refs_ok_def by auto
  have inj: "b OR 4 \<noteq> a OR 4" if "b AND 7 = 0" "b \<noteq> a" for b
    using that al string_addr_of(1) by metis
  have c: "cell_ok \<lparr>ref_count = 1, hs_length = len, hs_data = take (unat len) s @ [0]\<rparr>"
    using a by (auto simp: cell_ok_def)
  have "avail_ok h'" using av a by (auto simp: avail_ok_def h')
  moreover have "entry_ok (add_mset v M) b hs" if "cells h' b = Some hs" for b hs
  proof (cases "b = a")
    case True
    then have "hs = \<lparr>ref_count = 1, hs_length = len, hs_data = take (unat len) s @ [0]\<rparr>"
      using that by (simp add: h')
    then show ?thesis using True a fresh c al by (simp add: entry_ok_def not_in_iff)
  next
    case False
    then have "cells h b = Some hs" using that by (simp add: h')
    then have l: "entry_ok M b hs" using ok unfolding refs_ok_def by blast
    then have "v \<noteq> b OR 4" using inj [of b] False a(3) by (auto simp: entry_ok_def)
    then show ?thesis using l entry_ok_cong [of "add_mset v M" b M] by simp
  qed
  moreover have "cells h' (string_addr w) \<noteq> None" if "w \<in># add_mset v M" "val_type w = TYPE_STRING" for w
    using that ok a al unfolding refs_ok_def h' by auto
  ultimately have "refs_ok h' (add_mset v M)" unfolding refs_ok_def by blast
  moreover have "same_strings h h'" using al by (auto simp: same_strings_def h')
  ultimately show ?thesis using al a by simp
qed

lemma string_data_ok:
  assumes "refs_ok h M" and "v \<in># M" and "val_type v = TYPE_STRING"
  obtains s where "val_get_string_data v h = Inr (s @ [0])"
    "val_get_string_len v h = Inr (of_nat (length s))" "length s < 2 ^ 16"
proof -
  obtain hs where hs: "cells h (string_addr v) = Some hs" "cell_ok hs"
    using refs_ok_live [OF assms] by metis
  then obtain s where s: "length s = unat (hs_length hs)" "hs_data hs = s @ [0]"
    by (auto simp: cell_ok_def)
  have "length s < 2 ^ 16" unfolding s by (rule order_less_le_trans [OF unsigned_less]) simp
  then show ?thesis
    using that [of s] hs s assms(3)
    by (simp add: val_get_string_data_def val_get_string_len_def string_get_def)
qed

lemmas ref_rules = inc_ref_ok dec_ref_ok make_string_ok

end
