(* ===== verification/Cmoo_Object.thy ===== *)
theory Cmoo_Object
  imports Cmoo_Strings
begin

unbundle bit_operations_syntax

text \<open>
  The objects of \<^verbatim>\<open>src/src/object.c\<close>: an id, an array of parent ids, a list of method slots and
  a list of global slots. A method slot is the pair of its name and its code buffer (whose
  length is \<^verbatim>\<open>buf_len\<close>), a global slot the pair of its name and its value; both lists are
  searched from the front. \<open>parents\<close> is the memory of the parents array, of which the first
  \<open>parent_count\<close> entries are in use.
\<close>

section \<open>State and accessors\<close>

record object =
  obj_id :: object_id
  parent_count :: nat
  parents :: "object_id list"
  methods :: "(cstring \<times> opcode list) list"
  globals :: "(cstring \<times> val) list"

definition obj_new :: object where
  "obj_new = \<lparr>obj_id = 0, parent_count = 0, parents = [], methods = [], globals = []\<rparr>"

text \<open>\<^verbatim>\<open>obj_free\<close> drops one reference of every global.\<close>

fun globals_free :: "(cstring \<times> val) list \<Rightarrow> sheap \<Rightarrow> sheap res" where
  "globals_free [] h = Inr h"
| "globals_free ((n, v) # gs) h = rbind (val_dec_ref v h) (globals_free gs)"

definition obj_free :: "object \<Rightarrow> sheap \<Rightarrow> sheap res" where
  "obj_free ob h = globals_free (globals ob) h"

definition obj_get_id :: "object \<Rightarrow> object_id" where
  "obj_get_id ob = obj_id ob"

definition obj_set_id :: "object_id \<Rightarrow> object \<Rightarrow> object" where
  "obj_set_id i ob = ob\<lparr>obj_id := i\<rparr>"

section \<open>Parents\<close>

definition obj_get_parent_count :: "object \<Rightarrow> nat" where
  "obj_get_parent_count ob = parent_count ob"

definition obj_get_parent :: "object \<Rightarrow> nat \<Rightarrow> object_id res" where
  "obj_get_parent ob idx =
     (if idx < length (parents ob) then Inr (parents ob ! idx) else Inl Out_of_bounds)"

definition obj_add_parent :: "object_id \<Rightarrow> object \<Rightarrow> object" where
  "obj_add_parent parent_id ob =
     ob\<lparr>parents := take (parent_count ob) (parents ob) @ [parent_id],
        parent_count := parent_count ob + 1\<rparr>"

fun parent_index :: "object_id \<Rightarrow> object_id list \<Rightarrow> nat option" where
  "parent_index pid [] = None"
| "parent_index pid (p # ps) = (if p = pid then Some 0 else map_option Suc (parent_index pid ps))"

text \<open>The parents array as bytes, and back: \<^verbatim>\<open>obj_remove_parent\<close> moves a number of bytes.\<close>

definition ids_to_bytes :: "object_id list \<Rightarrow> byte list" where
  "ids_to_bytes ps = concat (map (\<lambda>p. le_bytes 8 (unat p)) ps)"

fun ids_of_bytes :: "nat \<Rightarrow> byte list \<Rightarrow> object_id list" where
  "ids_of_bytes 0 bs = []"
| "ids_of_bytes (Suc n) bs = of_nat (le_value (take 8 bs)) # ids_of_bytes n (drop 8 bs)"

definition obj_remove_parent :: "object_id \<Rightarrow> object \<Rightarrow> object res" where
  "obj_remove_parent parent_id ob =
     (case parent_index parent_id (take (parent_count ob) (parents ob)) of
        None \<Rightarrow> Inr ob
      | Some i \<Rightarrow>
          rbind (memmove (8 * i) (8 * (i + 1)) (parent_count ob - i - 1) (ids_to_bytes (parents ob)))
            (\<lambda>bs. Inr (ob\<lparr>parents := ids_of_bytes (length (parents ob)) bs,
                         parent_count := parent_count ob - 1\<rparr>)))"

section \<open>Methods\<close>

definition obj_get_code :: "object \<Rightarrow> byte list \<Rightarrow> nat \<times> opcode list option" where
  "obj_get_code ob name =
     (case slot_find (methods ob) (cstr name) of
        Some code_buf \<Rightarrow> (length code_buf, Some code_buf)
      | None \<Rightarrow> (0, None))"

definition obj_set_code :: "byte list \<Rightarrow> opcode list option \<Rightarrow> nat \<Rightarrow> object \<Rightarrow> object res" where
  "obj_set_code name code_buf buf_len ob =
     (case code_buf of
        None \<Rightarrow> Inl Null_deref
      | Some code \<Rightarrow>
          if length code < buf_len then Inl Out_of_bounds
          else Inr (ob\<lparr>methods := slot_store (methods ob) (cstr name) (take buf_len code)\<rparr>))"

section \<open>Globals\<close>

definition obj_get_global :: "object \<Rightarrow> byte list \<Rightarrow> sheap \<Rightarrow> (val \<times> sheap) res" where
  "obj_get_global ob name h =
     (case slot_find (globals ob) (cstr name) of
        Some v \<Rightarrow> rbind (val_inc_ref v h) (\<lambda>h. Inr (v, h))
      | None \<Rightarrow> Inr (val_make_nil, h))"

definition obj_set_global :: "byte list \<Rightarrow> val \<Rightarrow> object \<times> sheap \<Rightarrow> (object \<times> sheap) res" where
  "obj_set_global name v = (\<lambda>(ob, h).
     case slot_find (globals ob) (cstr name) of
       Some old \<Rightarrow>
         rbind (val_dec_ref old h) (\<lambda>h. rbind (val_inc_ref v h) (\<lambda>h.
           Inr (ob\<lparr>globals := slot_replace (globals ob) (cstr name) v\<rparr>, h)))
     | None \<Rightarrow>
         rbind (val_inc_ref v h) (\<lambda>h. Inr (ob\<lparr>globals := (cstr name, v) # globals ob\<rparr>, h)))"

section \<open>Serialisation\<close>

definition method_size :: "cstring \<times> opcode list \<Rightarrow> nat" where
  "method_size m = 4 + length (fst m) + 4 + length (snd m)"

definition code_size_required :: "object \<Rightarrow> nat" where
  "code_size_required ob =
     8 + 4 + parent_count ob * 8 + 4 + sum_list (map method_size (methods ob))"

definition method_bytes :: "cstring \<times> opcode list \<Rightarrow> byte list" where
  "method_bytes m = le_bytes 4 (length (fst m)) @ fst m @ le_bytes 4 (length (snd m)) @ snd m"

definition code_bytes :: "object \<Rightarrow> byte list" where
  "code_bytes ob =
     le_bytes 8 (unat (obj_id ob)) @ le_bytes 4 (parent_count ob)
     @ ids_to_bytes (take (parent_count ob) (parents ob))
     @ le_bytes 4 (length (methods ob)) @ concat (map method_bytes (methods ob))"

text \<open>The buffer is reallocated when \<^verbatim>\<open>*buf_len\<close> is too small; what is written over it must fit.
  The result is the buffer and the new \<^verbatim>\<open>*buf_len\<close>.\<close>

definition obj_code_to_buffer :: "object \<Rightarrow> byte list \<Rightarrow> nat \<Rightarrow> (byte list \<times> nat) res" where
  "obj_code_to_buffer ob buffer buf_len =
     (let size_required = code_size_required ob;
          capacity = (if buf_len < size_required then size_required else length buffer);
          data = code_bytes ob
      in if capacity < length data then Inl Out_of_bounds
         else Inr (data @ (if buf_len < size_required then drop (length data) (take size_required buffer)
                           else drop (length data) buffer), size_required))"

section \<open>Copying\<close>

text \<open>
  The loops of \<^verbatim>\<open>obj_copy\<close> link the copied slots by pointers: \<open>nodes\<close> are the new slots with
  their \<^verbatim>\<open>next\<close>, \<open>head\<close> is the list pointer of the copy and \<open>prev\<close> the slot copied last. The
  branch without a previous slot assigns \<open>prev\<close> to the head, as the source does.
\<close>

type_synonym 'a nodes = "('a \<times> nat option) list"

fun copy_slots :: "'a list \<Rightarrow> nat option \<Rightarrow> nat option \<Rightarrow> 'a nodes \<Rightarrow> nat option \<times> 'a nodes" where
  "copy_slots [] head prev nodes = (head, nodes)"
| "copy_slots (s # ss) head prev nodes =
     (let new = length nodes; nodes' = nodes @ [(s, None)] in
      case prev of
        Some p \<Rightarrow> copy_slots ss head (Some new) (nodes'[p := (fst (nodes' ! p), Some new)])
      | None \<Rightarrow> copy_slots ss prev (Some new) nodes')"

fun follow :: "nat \<Rightarrow> 'a nodes \<Rightarrow> nat option \<Rightarrow> 'a list" where
  "follow 0 nodes p = []"
| "follow (Suc n) nodes p =
     (case p of None \<Rightarrow> [] | Some a \<Rightarrow> fst (nodes ! a) # follow n nodes (snd (nodes ! a)))"

fun globals_inc :: "(cstring \<times> val) list \<Rightarrow> sheap \<Rightarrow> sheap res" where
  "globals_inc [] h = Inr h"
| "globals_inc ((n, v) # gs) h = rbind (val_inc_ref v h) (globals_inc gs)"

definition linked_copy :: "'a list \<Rightarrow> 'a list" where
  "linked_copy ss = (let (head, nodes) = copy_slots ss None None [] in
     follow (length nodes) nodes head)"

definition obj_copy :: "object \<Rightarrow> sheap \<Rightarrow> (object \<times> sheap) res" where
  "obj_copy ob h =
     rbind (globals_inc (globals ob) h) (\<lambda>h.
       Inr (\<lparr>obj_id = obj_id ob, parent_count = parent_count ob,
             parents = take (parent_count ob) (parents ob),
             methods = linked_copy (methods ob), globals = linked_copy (globals ob)\<rparr>, h))"

section \<open>Lemmas: slots\<close>

definition obj_method :: "object \<Rightarrow> byte list \<Rightarrow> opcode list option" where
  "obj_method ob name = snd (obj_get_code ob name)"

definition obj_put_method :: "object \<Rightarrow> byte list \<Rightarrow> opcode list \<Rightarrow> object" where
  "obj_put_method ob name code = ob\<lparr>methods := slot_store (methods ob) (cstr name) code\<rparr>"

definition obj_global :: "object \<Rightarrow> byte list \<Rightarrow> val option" where
  "obj_global ob name = slot_find (globals ob) (cstr name)"

definition obj_put_global :: "object \<Rightarrow> byte list \<Rightarrow> val \<Rightarrow> object" where
  "obj_put_global ob name v = ob\<lparr>globals := slot_store (globals ob) (cstr name) v\<rparr>"

interpretation meths: slot_table cstr obj_method obj_put_method
  by unfold_locales
    (auto simp: obj_method_def obj_put_method_def obj_get_code_def slots.get_put split: option.splits)

interpretation globs: slot_table cstr obj_global obj_put_global
  by unfold_locales (auto simp: obj_global_def obj_put_global_def slots.get_put)

lemma obj_get_code_method:
  "obj_get_code ob name = (case obj_method ob name of None \<Rightarrow> (0, None) | Some c \<Rightarrow> (length c, Some c))"
  by (simp add: obj_method_def obj_get_code_def split: option.splits)

lemma obj_set_code_eq:
  "buf_len \<le> length code \<Longrightarrow>
     obj_set_code name (Some code) buf_len ob = Inr (obj_put_method ob name (take buf_len code))"
  by (simp add: obj_set_code_def obj_put_method_def)

section \<open>Lemmas: globals and their references\<close>

definition global_refs :: "object \<Rightarrow> val multiset" where
  "global_refs ob = mset (map snd (globals ob))"

lemma mset_slot_replace:
  "slot_find s k = Some w \<Longrightarrow>
     add_mset w (mset (map snd (slot_replace s k v))) = add_mset v (mset (map snd s))"
  by (induction s k v rule: slot_replace.induct) (auto split: if_splits)

lemma slot_find_refs: "slot_find s k = Some v \<Longrightarrow> v \<in># mset (map snd s)"
  by (induction s k rule: slot_find.induct) (auto split: if_splits)

lemma obj_get_global_ok:
  assumes "refs_ok h (global_refs ob + M)"
    and "\<And>v. obj_global ob name = Some v \<Longrightarrow> count (global_refs ob + M) v < 65535"
  obtains v h' where "obj_get_global ob name h = Inr (v, h')"
    "v = (case obj_global ob name of None \<Rightarrow> val_make_nil | Some v \<Rightarrow> v)"
    "refs_ok h' (add_mset v (global_refs ob + M))" "same_strings h h'" "avail h' = avail h"
proof (cases "obj_global ob name")
  case None
  have "refs_ok h (add_mset val_make_nil (global_refs ob + M))"
    using assms(1) refs_ok_nonstring [of val_make_nil] by simp
  with None that show ?thesis by (simp add: obj_get_global_def obj_global_def)
next
  case (Some v)
  then have "v \<in># global_refs ob + M"
    using slot_find_refs by (fastforce simp: obj_global_def global_refs_def)
  then obtain h' where "val_inc_ref v h = Inr h'" "refs_ok h' (add_mset v (global_refs ob + M))"
      "same_strings h h'" "avail h' = avail h"
    using inc_ref_ok [OF assms(1)] assms(2) [OF Some] by metis
  with Some that show ?thesis by (simp add: obj_get_global_def obj_global_def)
qed

lemma same_strings_refs_trans:
  assumes "same_strings h h'" "same_strings h' h''"
    and "\<And>a. cells h a \<noteq> None \<Longrightarrow> cells h'' a \<noteq> None \<Longrightarrow> cells h' a \<noteq> None"
  shows "same_strings h h''"
  using assms unfolding same_strings_def by (metis not_None_eq)

lemma obj_set_global_ok:
  assumes ok: "refs_ok h (global_refs ob + M)" and v: "v \<in># M"
    and small: "count (global_refs ob + M) v < 65535"
  obtains h' where "obj_set_global name v (ob, h) = Inr (obj_put_global ob name v, h')"
    "refs_ok h' (global_refs (obj_put_global ob name v) + M)" "avail h' = avail h"
proof (cases "slot_find (globals ob) (cstr name)")
  case None
  have "v \<in># global_refs ob + M" using v by simp
  then obtain h' where h': "val_inc_ref v h = Inr h'" "refs_ok h' (add_mset v (global_refs ob + M))"
      "avail h' = avail h"
    using inc_ref_ok [OF ok] small by metis
  have "global_refs (obj_put_global ob name v) = add_mset v (global_refs ob)"
    using None by (simp add: global_refs_def obj_put_global_def slot_store_def)
  with None h' that show ?thesis
    by (simp add: obj_set_global_def obj_put_global_def slot_store_def)
next
  case (Some w)
  let ?s = "slot_replace (globals ob) (cstr name) v"
  have w: "w \<in># global_refs ob" using slot_find_refs [OF Some] by (simp add: global_refs_def)
  let ?G = "global_refs ob - {#w#}"
  have G: "global_refs ob = add_mset w ?G" using w by simp
  obtain h1 where h1: "val_dec_ref w h = Inr h1" "refs_ok h1 (?G + M)" "avail h1 = avail h"
    using dec_ref_ok [of h w "?G + M"] ok G by (metis union_mset_add_mset_left)
  have "count (?G + M) v < 65535"
    using small by simp
  moreover have "v \<in># ?G + M" using v by simp
  ultimately obtain h2 where h2: "val_inc_ref v h1 = Inr h2" "refs_ok h2 (add_mset v (?G + M))"
      "avail h2 = avail h1"
    using inc_ref_ok [OF h1(2)] by metis
  have "add_mset w (mset (map snd ?s)) = add_mset v (global_refs ob)"
    using mset_slot_replace [OF Some, of v] by (simp add: global_refs_def)
  also have "\<dots> = add_mset v (add_mset w ?G)" by (metis G)
  finally have "add_mset w (mset (map snd ?s)) = add_mset v (add_mset w ?G)" .
  then have "mset (map snd ?s) = add_mset v ?G" 
    by (simp only: add_mset_commute [of v w] add_mset_add_mset_same_iff)
  then have "global_refs (obj_put_global ob name v) = add_mset v ?G"
    using Some by (simp add: global_refs_def obj_put_global_def slot_store_def)
  with Some h1 h2 that show ?thesis
    by (simp add: obj_set_global_def obj_put_global_def slot_store_def)
qed

lemma globals_free_ok:
  "refs_ok h (mset (map snd gs) + M) \<Longrightarrow> \<exists>h'. globals_free gs h = Inr h' \<and> refs_ok h' M"
proof (induction gs arbitrary: h)
  case (Cons g gs)
  obtain n v where g: "g = (n, v)" by (cases g)
  then obtain h1 where "val_dec_ref v h = Inr h1" "refs_ok h1 (mset (map snd gs) + M)"
    using dec_ref_ok [of h v "mset (map snd gs) + M"] Cons.prems by auto
  with Cons.IH g show ?case by auto
qed simp

lemma globals_inc_ok:
  assumes "refs_ok h (mset (map snd gs) + M)"
    and "\<And>v. count (mset (map snd gs) + mset (map snd gs) + M) v < 65536"
  shows "\<exists>h'. globals_inc gs h = Inr h' \<and> refs_ok h' (mset (map snd gs) + mset (map snd gs) + M)"
  using assms
proof (induction gs arbitrary: h M)
  case (Cons g gs)
  obtain n v where g: "g = (n, v)" by (cases g)
  let ?A = "mset (map snd gs)"
  have "count (add_mset v ?A + M) v < 65535" using Cons.prems(2) [of v] g by simp
  then obtain h1 where h1: "val_inc_ref v h = Inr h1" "refs_ok h1 (add_mset v (add_mset v ?A + M))"
    using inc_ref_ok [of h "add_mset v ?A + M" v] Cons.prems(1) g by auto
  then have "refs_ok h1 (?A + add_mset v (add_mset v M))" by simp
  then obtain h2 where "globals_inc gs h1 = Inr h2" "refs_ok h2 (?A + ?A + add_mset v (add_mset v M))"
    using Cons.IH [of h1 "add_mset v (add_mset v M)"] Cons.prems(2) g by auto
  then show ?case using h1 g by simp
qed simp

section \<open>Lemmas: parents\<close>

definition parents_used :: "object \<Rightarrow> object_id list" where
  "parents_used ob = take (parent_count ob) (parents ob)"

definition parents_wf :: "object \<Rightarrow> bool" where
  "parents_wf ob \<longleftrightarrow> parent_count ob \<le> length (parents ob)"

lemma length_ids_to_bytes [simp]: "length (ids_to_bytes ps) = 8 * length ps"
  by (induction ps) (auto simp: ids_to_bytes_def)

lemma ids_to_bytes_simps [simp]:
  "ids_to_bytes [] = []"
  "ids_to_bytes (p # ps) = le_bytes 8 (unat p) @ ids_to_bytes ps"
  "ids_to_bytes (ps @ qs) = ids_to_bytes ps @ ids_to_bytes qs"
  by (simp_all add: ids_to_bytes_def)

lemma le_value_word: "of_nat (le_value (le_bytes 8 (unat (p :: object_id)))) = p"
proof -
  have "unat p < 256 ^ 8" using unsigned_less [where w = p] by simp
  then show ?thesis by (simp add: le_value_le_bytes)
qed

lemma ids_of_bytes_append:
  "ids_of_bytes (length ps + n) (ids_to_bytes ps @ bs) = ps @ ids_of_bytes n bs"
  by (induction ps) (auto simp: le_value_word)

lemma ids_of_to_bytes: "ids_of_bytes (length ps) (ids_to_bytes ps) = ps"
  using ids_of_bytes_append [of ps 0 "[]"] by simp

lemma length_ids_of_bytes [simp]: "length (ids_of_bytes n bs) = n"
  by (induction n arbitrary: bs) auto

lemma parent_index_append:
  "pid \<notin> set ps \<Longrightarrow> parent_index pid (ps @ pid # qs) = Some (length ps)"
  by (induction ps) auto

lemma parent_index_None: "parent_index pid ps = None \<longleftrightarrow> pid \<notin> set ps"
  by (induction ps) auto

lemma parent_index_lt: "parent_index pid ps = Some i \<Longrightarrow> i < length ps \<and> ps ! i = pid"
  by (induction ps arbitrary: i) (auto split: if_splits)

text \<open>A parent with exactly one successor: one byte is moved, where the whole id should be.\<close>

lemma word_low_byte:
  "of_nat (unat q mod 256 + 256 * (unat p div 256)) = (p AND NOT 0xFF) OR (q AND 0xFF :: object_id)"
proof -
  have m: "(0xFF :: object_id) = mask 8" by (simp add: mask_eq_exp_minus_1)
  have "of_nat (take_bit 8 (unat q)) = take_bit 8 q"
    by (simp flip: unsigned_take_bit_eq)
  then have q: "of_nat (unat q mod 256) = q AND 0xFF"
    unfolding m take_bit_eq_mask [symmetric] by (simp add: take_bit_nat_def)
  have p: "of_nat (256 * (unat p div 256)) = p AND NOT 0xFF"
  proof -
    have "of_nat (256 * (unat p div 256)) = push_bit 8 (drop_bit 8 p)"
      by (simp add: push_bit_eq_mult drop_bit_eq_div of_nat_div word_arith_nat_div)
    also have "\<dots> = p AND NOT 0xFF"
      unfolding m by (rule bit_word_eqI) (auto simp: bit_simps)
    finally show ?thesis .
  qed
  have "(p AND NOT 0xFF) OR (q AND 0xFF) = (p AND NOT 0xFF) + (q AND 0xFF)"
    by (rule disjunctive_add_eq_or [symmetric])
      (rule bit_word_eqI, auto simp: bit_simps m)
  then show ?thesis using p q by (simp add: add.commute)
qed

lemma le_bytes_8: "le_bytes 8 x = of_nat x # le_bytes 7 (x div 256)"
proof -
  have "(8 :: nat) = Suc 7" by simp
  then show ?thesis by (simp only: le_bytes.simps)
qed

lemma le_value_patched:
  "of_nat (le_value (of_nat (unat q) # drop 1 (le_bytes 8 (unat p))))
     = (p AND NOT 0xFF) OR (q AND 0xFF :: object_id)"
proof -
  have d: "drop 1 (le_bytes 8 (unat p)) = le_bytes 7 (unat p div 256)"
    by (simp add: le_bytes_8)
  have "unat p < 256 ^ 8" using unsigned_less [where w = p] by simp
  then have "unat p div 256 < 256 ^ 7" by (simp add: less_mult_imp_div_less)
  then have "le_value (of_nat (unat q) # drop 1 (le_bytes 8 (unat p)))
      = unat q mod 256 + 256 * (unat p div 256)"
    unfolding d by (simp add: le_value_le_bytes unsigned_ucast_eq take_bit_nat_def)
  then show ?thesis using word_low_byte by metis
qed

lemma ids_of_bytes_Cons:
  "length b = 8 \<Longrightarrow> ids_of_bytes (Suc n) (b @ bs) = of_nat (le_value b) # ids_of_bytes n bs"
  by simp

lemma take_1_le_bytes: "take (Suc 0) (le_bytes 8 x) = [of_nat x]"
  by (simp add: le_bytes_8)

lemma remove_parent_shape:
  assumes wf: "parents_wf ob" and used: "parents_used ob = ps @ pid # qs" and pid: "pid \<notin> set ps"
    and bs: "memmove (8 * length ps) (8 * (length ps + 1)) (length qs) (ids_to_bytes (parents ob)) = Inr bs"
  shows "obj_remove_parent pid ob =
    Inr (ob\<lparr>parents := ids_of_bytes (length (parents ob)) bs, parent_count := length ps + length qs\<rparr>)"
proof -
  have c: "parent_count ob = length ps + length qs + 1"
    using wf used by (metis One_nat_def add.assoc add_Suc_right length_Cons length_append length_take
        min.absorb2 parents_used_def parents_wf_def add.right_neutral)
  have i: "parent_index pid (take (parent_count ob) (parents ob)) = Some (length ps)"
    using used pid parent_index_append by (simp add: parents_used_def)
  have "8 * (length ps + 1) = 8 + 8 * length ps" by simp
  then show ?thesis using bs unfolding obj_remove_parent_def i by (simp add: c)
qed

lemma remove_parent_last:
  assumes wf: "parents_wf ob" and used: "parents_used ob = ps @ [pid]" and pid: "pid \<notin> set ps"
  shows "\<exists>ob'. obj_remove_parent pid ob = Inr ob' \<and> parents_used ob' = ps"
proof -
  obtain r where p: "parents ob = ps @ pid # r"
    using used by (metis append_Cons append_assoc append_take_drop_id parents_used_def self_append_conv2)
  have "memmove (8 * length ps) (8 * (length ps + 1)) (length ([] :: nat list)) (ids_to_bytes (parents ob))
      = Inr (ids_to_bytes (parents ob))"
    by (simp add: memmove_def p)
  then show ?thesis
    using remove_parent_shape [OF wf used pid, of "ids_to_bytes (parents ob)"]
    by (simp add: ids_of_to_bytes parents_used_def) (simp add: p)
qed

lemma remove_parent_one_successor:
  assumes wf: "parents_wf ob" and used: "parents_used ob = ps @ [pid, q]" and pid: "pid \<notin> set ps"
  shows "\<exists>ob'. obj_remove_parent pid ob = Inr ob' \<and>
    parents_used ob' = ps @ [(pid AND NOT 0xFF) OR (q AND 0xFF)]"
proof -
  obtain r where p: "parents ob = ps @ pid # q # r"
    using used by (metis append_Cons append_assoc append_take_drop_id parents_used_def self_append_conv2)
  let ?bs = "ids_to_bytes ps @ (of_nat (unat q) # drop 1 (le_bytes 8 (unat pid)))
      @ ids_to_bytes (q # r)"
  have "memmove (8 * length ps) (8 * (length ps + 1)) (length [q]) (ids_to_bytes (parents ob)) = Inr ?bs"
    by (simp add: memmove_def p take_1_le_bytes)
  then have r: "obj_remove_parent pid ob =
      Inr (ob\<lparr>parents := ids_of_bytes (length (parents ob)) ?bs, parent_count := length ps + length [q]\<rparr>)"
    by (rule remove_parent_shape [OF wf used pid])
  have n: "length (parents ob) = length ps + Suc (Suc (length r))" by (simp add: p)
  have "ids_of_bytes (length (parents ob)) ?bs =
      ps @ of_nat (le_value (of_nat (unat q) # drop 1 (le_bytes 8 (unat pid)))) # q # r"
    unfolding n ids_of_bytes_append
    by (subst ids_of_bytes_Cons) (simp, metis append_Nil2 ids_of_to_bytes length_Cons)
  then show ?thesis using r le_value_patched by (simp add: parents_used_def)
qed

section \<open>Lemmas: copying\<close>

lemma copy_slots_head: "fst (copy_slots ss None prev nodes) = None"
  by (induction ss "None :: nat option" prev nodes rule: copy_slots.induct)
    (auto simp: Let_def split: option.splits)

lemma linked_copy_empty: "linked_copy ss = []"
proof (cases "copy_slots ss None None []")
  case (Pair head nodes)
  then have "head = None" using copy_slots_head [of ss None "[]"] by simp
  then show ?thesis using Pair by (cases nodes) (auto simp: linked_copy_def)
qed

section \<open>Lemmas: the serialised form\<close>

lemma length_method_bytes: "length (concat (map method_bytes ms)) = sum_list (map method_size ms)"
  by (induction ms) (auto simp: method_bytes_def method_size_def)

lemma length_code_bytes: "parents_wf ob \<Longrightarrow> length (code_bytes ob) = code_size_required ob"
  by (simp add: code_bytes_def code_size_required_def length_method_bytes parents_wf_def)

text \<open>A reader of the format: what \<^verbatim>\<open>obj_code_from_buffer\<close> would have to do. It is the
  specification the round trip is stated against.\<close>

definition read_bytes :: "nat \<Rightarrow> byte list \<Rightarrow> (byte list \<times> byte list) option" where
  "read_bytes n bs = (if n \<le> length bs then Some (take n bs, drop n bs) else None)"

definition read_nat :: "nat \<Rightarrow> byte list \<Rightarrow> (nat \<times> byte list) option" where
  "read_nat n bs = map_option (\<lambda>(x, r). (le_value x, r)) (read_bytes n bs)"

fun read_methods :: "nat \<Rightarrow> byte list \<Rightarrow> (cstring \<times> opcode list) list option" where
  "read_methods 0 bs = (if bs = [] then Some [] else None)"
| "read_methods (Suc n) bs =
     Option.bind (read_nat 4 bs) (\<lambda>(l, bs). Option.bind (read_bytes l bs) (\<lambda>(name, bs).
     Option.bind (read_nat 4 bs) (\<lambda>(l, bs). Option.bind (read_bytes l bs) (\<lambda>(code, bs).
     map_option (\<lambda>ms. (name, code) # ms) (read_methods n bs)))))"

definition read_object :: "byte list \<Rightarrow> (object_id \<times> object_id list \<times> (cstring \<times> opcode list) list) option"
where
  "read_object bs =
     Option.bind (read_nat 8 bs) (\<lambda>(i, bs). Option.bind (read_nat 4 bs) (\<lambda>(n, bs).
     Option.bind (read_bytes (8 * n) bs) (\<lambda>(ps, bs). Option.bind (read_nat 4 bs) (\<lambda>(m, bs).
     map_option (\<lambda>ms. (of_nat i, ids_of_bytes n ps, ms)) (read_methods m bs)))))"

lemma read_bytes_append [simp]: "length xs = n \<Longrightarrow> read_bytes n (xs @ ys) = Some (xs, ys)"
  by (auto simp: read_bytes_def)

lemma read_nat_append [simp]:
  "x < 256 ^ n \<Longrightarrow> read_nat n (le_bytes n x @ bs) = Some (x, bs)"
  by (simp add: read_nat_def le_value_le_bytes)

lemma read_methods_bytes:
  "list_all (\<lambda>m. length (fst m) < 2 ^ 32 \<and> length (snd m) < 2 ^ 32) ms \<Longrightarrow>
     read_methods (length ms) (concat (map method_bytes ms)) = Some ms"
  by (induction ms) (auto simp: method_bytes_def)

lemma read_object_code_bytes:
  assumes wf: "parents_wf ob" and "parent_count ob < 2 ^ 32" "length (methods ob) < 2 ^ 32"
    and "list_all (\<lambda>m. length (fst m) < 2 ^ 32 \<and> length (snd m) < 2 ^ 32) (methods ob)"
  shows "read_object (code_bytes ob) = Some (obj_id ob, parents_used ob, methods ob)"
proof -
  have i: "unat (obj_id ob) < 256 ^ 8" using unsigned_less [where w = "obj_id ob"] by simp
  have n: "length (parents_used ob) = parent_count ob"
    using wf by (simp add: parents_used_def parents_wf_def)
  show ?thesis
    using assms i n ids_of_to_bytes [of "parents_used ob"]
    by (simp add: read_object_def code_bytes_def read_methods_bytes flip: parents_used_def)
qed

end
