(* ===== verification/Cmoo_Lobject.thy ===== *)
theory Cmoo_Lobject
  imports Cmoo_Object
begin

text \<open>
  The lockable objects of \<^verbatim>\<open>src/src/lobject.c\<close>: a pair of an object pointer and a lock pointer with
  a pin flag. Objects and lobjects live in the heap \<open>oheap\<close>; their addresses are the numbers of
  their allocation, \<open>None\<close> is the null pointer.
\<close>

record lobject =
  lo_obj :: "nat option"
  lo_lock :: "nat option"
  lo_pin :: int

record oheap =
  objs :: "object option list"
  lobjs :: "lobject option list"

section \<open>Operations\<close>

definition lobject_new :: "oheap \<Rightarrow> nat \<times> oheap" where
  "lobject_new h =
     (length (lobjs h), h\<lparr>lobjs := lobjs h @ [Some \<lparr>lo_obj = None, lo_lock = None, lo_pin = 0\<rparr>]\<rparr>)"

definition lobject_free :: "nat \<Rightarrow> oheap \<Rightarrow> oheap res" where
  "lobject_free lo h = rbind (heap_get (lobjs h) lo) (\<lambda>_. Inr (h\<lparr>lobjs := heap_free lo (lobjs h)\<rparr>))"

definition lobject_upd :: "nat \<Rightarrow> (lobject \<Rightarrow> lobject) \<Rightarrow> oheap \<Rightarrow> oheap res" where
  "lobject_upd lo f h =
     rbind (heap_get (lobjs h) lo) (\<lambda>l. Inr (h\<lparr>lobjs := heap_put lo (f l) (lobjs h)\<rparr>))"

definition lobject_set_object :: "nat \<Rightarrow> nat option \<Rightarrow> oheap \<Rightarrow> oheap res" where
  "lobject_set_object lo ob h = lobject_upd lo (\<lambda>l. l\<lparr>lo_obj := ob\<rparr>) h"

definition lobject_get_object :: "nat \<Rightarrow> oheap \<Rightarrow> nat option res" where
  "lobject_get_object lo h = rbind (heap_get (lobjs h) lo) (\<lambda>l. Inr (lo_obj l))"

definition lobject_set_lock :: "nat \<Rightarrow> nat option \<Rightarrow> oheap \<Rightarrow> oheap res" where
  "lobject_set_lock lo lk h = lobject_upd lo (\<lambda>l. l\<lparr>lo_lock := lk\<rparr>) h"

definition lobject_get_lock :: "nat \<Rightarrow> oheap \<Rightarrow> nat option res" where
  "lobject_get_lock lo h = rbind (heap_get (lobjs h) lo) (\<lambda>l. Inr (lo_lock l))"

definition lobject_pin :: "nat \<Rightarrow> oheap \<Rightarrow> oheap res" where
  "lobject_pin lo h = lobject_upd lo (\<lambda>l. l\<lparr>lo_pin := 1\<rparr>) h"

definition lobject_unpin :: "nat \<Rightarrow> oheap \<Rightarrow> oheap res" where
  "lobject_unpin lo h = lobject_upd lo (\<lambda>l. l\<lparr>lo_pin := 0\<rparr>) h"

definition lobject_is_pinned :: "nat \<Rightarrow> oheap \<Rightarrow> int res" where
  "lobject_is_pinned lo h = rbind (heap_get (lobjs h) lo) (\<lambda>l. Inr (lo_pin l))"

text \<open>Following a pointer that may be null, and the object behind an lobject.\<close>

definition deref :: "'a option list \<Rightarrow> nat option \<Rightarrow> 'a res" where
  "deref h p = (case p of None \<Rightarrow> Inl Null_deref | Some a \<Rightarrow> heap_get h a)"

definition lobj_object :: "nat \<Rightarrow> oheap \<Rightarrow> object res" where
  "lobj_object lo h = rbind (lobject_get_object lo h) (\<lambda>p. deref (objs h) p)"

definition lobj_id :: "nat \<Rightarrow> oheap \<Rightarrow> object_id res" where
  "lobj_id lo h = rbind (lobj_object lo h) (\<lambda>ob. Inr (obj_get_id ob))"

section \<open>Lemmas\<close>

lemma lobject_upd_eq_Inr [res_simps]:
  "lobject_upd lo f h = Inr h' \<longleftrightarrow>
     (\<exists>l. lo < length (lobjs h) \<and> lobjs h ! lo = Some l \<and>
       h' = h\<lparr>lobjs := heap_put lo (f l) (lobjs h)\<rparr>)"
  by (auto simp: lobject_upd_def res_simps)

lemma lobject_upd_object:
  assumes "lobject_upd lo f h = Inr h'" and "\<And>l. lo_obj (f l) = lo_obj l"
  shows "lobj_object a h' = lobj_object a h"
  using assms
  by (cases "a = lo")
    (auto simp: res_simps lobj_object_def lobject_get_object_def heap_get_def heap_put_def)

lemma lobject_upd_id:
  assumes "lobject_upd lo f h = Inr h'" and "\<And>l. lo_obj (f l) = lo_obj l"
  shows "lobj_id a h' = lobj_id a h"
  by (simp add: lobj_id_def lobject_upd_object [OF assms])

lemma lobject_pin_id [simp]: "lobject_pin lo h = Inr h' \<Longrightarrow> lobj_id a h' = lobj_id a h"
  unfolding lobject_pin_def by (erule lobject_upd_id) simp

lemma lobject_unpin_id [simp]: "lobject_unpin lo h = Inr h' \<Longrightarrow> lobj_id a h' = lobj_id a h"
  unfolding lobject_unpin_def by (erule lobject_upd_id) simp

lemma lobj_id_live: "lobj_id lo h = Inr i \<Longrightarrow> \<exists>l. heap_get (lobjs h) lo = Inr l"
  by (auto simp: lobj_id_def lobj_object_def lobject_get_object_def res_simps)

lemma lobject_pin_live: "lobj_id lo h = Inr i \<Longrightarrow> \<exists>h'. lobject_pin lo h = Inr h'"
  by (auto simp: lobject_pin_def lobject_upd_def dest: lobj_id_live)

lemma lobject_unpin_live: "lobj_id lo h = Inr i \<Longrightarrow> \<exists>h'. lobject_unpin lo h = Inr h'"
  by (auto simp: lobject_unpin_def lobject_upd_def dest: lobj_id_live)

lemma lobject_pin_frame:
  "lobject_pin lo h = Inr h' \<Longrightarrow> objs h' = objs h \<and> length (lobjs h') = length (lobjs h)"
  by (auto simp: lobject_pin_def res_simps)

text \<open>Pinning is a flag, not a count: one unpin undoes any number of pins.\<close>

lemma unpin_after_two_pins:
  assumes "lobject_pin lo h = Inr h1" "lobject_pin lo h1 = Inr h2" "lobject_unpin lo h2 = Inr h3"
  shows "lobject_is_pinned lo h3 = Inr 0"
  using assms by (auto simp: lobject_pin_def lobject_unpin_def lobject_is_pinned_def res_simps heap_put_def)

end
