(* ===== verification/Cmoo_Cache.thy ===== *)
theory Cmoo_Cache
  imports Cmoo_Lobject
begin

text \<open>
  The object cache of \<^verbatim>\<open>src/src/cache.c\<close>: a hash table of chained entries that are also linked
  into a recently-used list by \<open>newer\<close> and \<open>older\<close>. Entries live in a heap of their own, \<open>ces\<close>;
  a bucket is the list of the addresses of its chain (the link \<^verbatim>\<open>list_next\<close> is written once, when
  an entry is put in front of its chain). An entry that was freed may still be in a chain: walking
  over it is a use after free.
\<close>

section \<open>State\<close>

record centry =
  ce_object :: nat
  newer :: "nat option"
  older :: "nat option"

record cache =
  table :: "nat list list"
  ces :: "centry option list"
  newest :: "nat option"
  oldest :: "nat option"
  csize :: nat
  slots_used :: nat
  entries :: nat

definition GROW_FACTOR :: nat where "GROW_FACTOR = 2"
definition CHAIN_FACTOR :: nat where "CHAIN_FACTOR = 2"

text \<open>
  \<^verbatim>\<open>LOAD_FACTOR\<close> is the double nearest to 0.7, which is \<open>LOAD_FACTOR_mantissa / 2 ^ 53\<close>, and
  \<^verbatim>\<open>c->size * LOAD_FACTOR\<close> a product of doubles: rounded to 53 significant bits, to even on a tie.
\<close>

definition LOAD_FACTOR_mantissa :: nat where
  "LOAD_FACTOR_mantissa = 6305039478318694"

fun bit_len :: "nat \<Rightarrow> nat" where
  "bit_len n = (if n = 0 then 0 else Suc (bit_len (n div 2)))"

declare bit_len.simps [simp del]

definition round53 :: "nat \<Rightarrow> nat" where
  "round53 p =
     (let k = bit_len p - 53; q = p div 2 ^ k; r = p mod 2 ^ k; half = 2 ^ (k - 1) in
      if k = 0 then p
      else if half < r \<or> (r = half \<and> odd q) then (q + 1) * 2 ^ k else q * 2 ^ k)"

definition load_exceeded :: "nat \<Rightarrow> nat \<Rightarrow> bool" where
  "load_exceeded used sz \<longleftrightarrow> round53 (sz * LOAD_FACTOR_mantissa) < used * 2 ^ 53"

section \<open>Operations\<close>

definition cache_new :: "nat \<Rightarrow> cache" where
  "cache_new initial_size =
     \<lparr>table = replicate initial_size [], ces = [], newest = None, oldest = None,
      csize = initial_size, slots_used = 0, entries = 0\<rparr>"

text \<open>\<^verbatim>\<open>cache_resize\<close> allocates the larger table and then fails an assertion: it is not
  implemented.\<close>

definition cache_resize :: "cache \<Rightarrow> cache res" where
  "cache_resize c =
     rbind (c_assert False) (\<lambda>_.
       let new_size = csize c * GROW_FACTOR in
       Inr (c\<lparr>table := replicate new_size [], csize := new_size\<rparr>))"

definition bucket :: "cache \<Rightarrow> object_id \<Rightarrow> nat res" where
  "bucket c i = (if csize c = 0 then Inl Div_by_zero else Inr (unat i mod csize c))"

definition ce_upd :: "nat \<Rightarrow> (centry \<Rightarrow> centry) \<Rightarrow> cache \<Rightarrow> cache res" where
  "ce_upd e f c = rbind (heap_get (ces c) e) (\<lambda>ce. Inr (c\<lparr>ces := heap_put e (f ce) (ces c)\<rparr>))"

fun chain_find :: "cache \<Rightarrow> oheap \<Rightarrow> object_id \<Rightarrow> nat list \<Rightarrow> nat option res" where
  "chain_find c h i [] = Inr None"
| "chain_find c h i (e # es) =
     rbind (heap_get (ces c) e) (\<lambda>ce.
       rbind (lobj_id (ce_object ce) h) (\<lambda>j.
         if j = i then Inr (Some e) else chain_find c h i es))"

text \<open>An assignment through a pointer, guarded by a null check.\<close>

definition ce_upd_opt :: "nat option \<Rightarrow> (centry \<Rightarrow> centry) \<Rightarrow> cache \<Rightarrow> cache res" where
  "ce_upd_opt p f c = (case p of None \<Rightarrow> Inr c | Some a \<Rightarrow> ce_upd a f c)"

text \<open>Taking an entry out of the recently-used list, in the order of the source's assignments.\<close>

definition lru_ends :: "nat \<Rightarrow> centry \<Rightarrow> cache \<Rightarrow> cache" where
  "lru_ends e ce c =
     (let c = (if newest c = Some e then c\<lparr>newest := older ce\<rparr> else c)
      in if oldest c = Some e then c\<lparr>oldest := newer ce\<rparr> else c)"

definition lru_remove :: "nat \<Rightarrow> cache \<Rightarrow> cache res" where
  "lru_remove e c =
     rbind (heap_get (ces c) e) (\<lambda>ce.
     rbind (ce_upd_opt (older ce) (\<lambda>x. x\<lparr>newer := newer ce\<rparr>) (lru_ends e ce c)) (\<lambda>c.
     rbind (heap_get (ces c) e) (\<lambda>ce.
     rbind (ce_upd_opt (newer ce) (\<lambda>x. x\<lparr>older := older ce\<rparr>) c) (\<lambda>c.
       ce_upd e (\<lambda>x. x\<lparr>older := None, newer := None\<rparr>) c))))"

definition cache_get_object :: "object_id \<Rightarrow> cache \<times> oheap \<Rightarrow> (nat option \<times> cache \<times> oheap) res" where
  "cache_get_object i = (\<lambda>(c, h).
     rbind (bucket c i) (\<lambda>b.
     rbind (chain_find c h i (table c ! b)) (\<lambda>r.
       case r of
         None \<Rightarrow> Inr (None, c, h)
       | Some e \<Rightarrow>
           rbind (heap_get (ces c) e) (\<lambda>ce.
           rbind (lobject_pin (ce_object ce) h) (\<lambda>h.
           rbind (lru_remove e c) (\<lambda>c.
           rbind (heap_get (ces c) e) (\<lambda>ce.
             Inr (Some (ce_object ce), c, h))))))))"

definition cache_put_object :: "nat \<Rightarrow> cache \<times> oheap \<Rightarrow> (cache \<times> oheap) res" where
  "cache_put_object lo = (\<lambda>(c, h).
     rbind (lobj_id lo h) (\<lambda>i.
     rbind (bucket c i) (\<lambda>b.
     let chain = table c ! b;
         ne = length (ces c);
         c = c\<lparr>entries := entries c + 1,
               ces := ces c @ [Some \<lparr>ce_object = lo, newer = None, older = None\<rparr>],
               table := (table c)[b := ne # chain]\<rparr> in
     rbind (lobject_pin lo h) (\<lambda>h.
     let c = (if chain = [] then c\<lparr>slots_used := slots_used c + 1\<rparr> else c) in
     rbind (if load_exceeded (slots_used c) (csize c) then cache_resize c else Inr c) (\<lambda>c.
       Inr (c, h))))))"

text \<open>The eviction loop at the end of \<^verbatim>\<open>cache_release_object\<close>; the chains are left as they are.\<close>

function evict :: "cache \<Rightarrow> cache res" where
  "evict c =
     (if csize c * CHAIN_FACTOR < entries c then
        case oldest c of
          None \<Rightarrow> Inr c
        | Some e \<Rightarrow>
            rbind (heap_get (ces c) e) (\<lambda>ce.
            rbind (case newer ce of
                     None \<Rightarrow> Inr (c\<lparr>oldest := None, newest := None\<rparr>)
                   | Some n \<Rightarrow> ce_upd n (\<lambda>x. x\<lparr>older := None\<rparr>) (c\<lparr>oldest := Some n\<rparr>)) (\<lambda>c'.
              evict (c'\<lparr>ces := heap_free e (ces c'), entries := entries c - 1\<rparr>)))
      else Inr c)"
  by pat_completeness auto
termination by (relation "measure entries") auto

declare evict.simps [simp del]

definition cache_release_object :: "nat \<Rightarrow> cache \<times> oheap \<Rightarrow> (cache \<times> oheap) res" where
  "cache_release_object lo = (\<lambda>(c, h).
     rbind (lobject_unpin lo h) (\<lambda>h.
     rbind (lobj_id lo h) (\<lambda>i.
     rbind (bucket c i) (\<lambda>b.
     rbind (chain_find c h i (table c ! b)) (\<lambda>r.
       case r of
         None \<Rightarrow> Inl Assert_failed
       | Some e \<Rightarrow>
           rbind (ce_upd e (\<lambda>x. x\<lparr>newer := None, older := newest c\<rparr>) c) (\<lambda>c.
           let c = c\<lparr>newest := Some e\<rparr>;
               c = (if oldest c = None then c\<lparr>oldest := Some e\<rparr> else c) in
           rbind (evict c) (\<lambda>c. Inr (c, h))))))))"

text \<open>\<^verbatim>\<open>cache_free\<close> walks from the oldest entry along \<open>newer\<close>; the result are the entries it leaves
  allocated. Every step frees an entry, and a freed one is not walked over again.\<close>

fun free_entries :: "nat \<Rightarrow> nat option \<Rightarrow> centry option list \<Rightarrow> centry option list res" where
  "free_entries n None es = Inr es"
| "free_entries 0 (Some e) es = Inl Use_after_free"
| "free_entries (Suc n) (Some e) es =
     rbind (heap_get es e) (\<lambda>ce. free_entries n (newer ce) (heap_free e es))"

definition cache_free :: "cache \<Rightarrow> centry option list res" where
  "cache_free c = free_entries (length (ces c)) (oldest c) (ces c)"

section \<open>Lemmas: what a lookup sees\<close>

definition ce_obj :: "cache \<Rightarrow> nat \<Rightarrow> nat res" where
  "ce_obj c e = rbind (heap_get (ces c) e) (\<lambda>ce. Inr (ce_object ce))"

text \<open>The abstraction of the cache: the lobject that is found under an id.\<close>

definition cache_peek :: "cache \<Rightarrow> oheap \<Rightarrow> object_id \<Rightarrow> nat option res" where
  "cache_peek c h i =
     rbind (bucket c i) (\<lambda>b. rbind (chain_find c h i (table c ! b)) (\<lambda>r.
       case r of None \<Rightarrow> Inr None | Some e \<Rightarrow> rbind (ce_obj c e) (\<lambda>lo. Inr (Some lo))))"

lemma chain_find_ce_obj:
  "chain_find c h i (e # es) =
     rbind (ce_obj c e) (\<lambda>lo. rbind (lobj_id lo h) (\<lambda>j. if j = i then Inr (Some e) else chain_find c h i es))"
  by (simp add: ce_obj_def rbind_assoc)

lemma chain_find_cong:
  "(\<And>e. e \<in> set es \<Longrightarrow> ce_obj c' e = ce_obj c e) \<Longrightarrow> (\<And>a. lobj_id a h' = lobj_id a h) \<Longrightarrow>
     chain_find c' h' i es = chain_find c h i es"
  by (induction es) (auto simp: chain_find_ce_obj simp del: chain_find.simps(2) cong: if_cong)

lemma chain_find_mem: "chain_find c h i es = Inr (Some e) \<Longrightarrow> e \<in> set es"
  by (induction es) (auto simp: res_simps split: if_splits)

lemma cache_peek_cong:
  assumes "csize c' = csize c" "table c' = table c" "\<And>e. ce_obj c' e = ce_obj c e"
    and "\<And>a. lobj_id a h' = lobj_id a h"
  shows "cache_peek c' h' i = cache_peek c h i"
  using assms chain_find_cong [of _ c' c h' h] by (simp add: cache_peek_def bucket_def)

text \<open>Updates of the recently-used links only.\<close>

definition same_chains :: "cache \<Rightarrow> cache \<Rightarrow> bool" where
  "same_chains c c' \<longleftrightarrow> csize c' = csize c \<and> table c' = table c \<and> length (ces c') = length (ces c)
     \<and> entries c' = entries c \<and> slots_used c' = slots_used c \<and> (\<forall>e. ce_obj c' e = ce_obj c e)"

lemma same_chains_refl [simp]: "same_chains c c"
  by (simp add: same_chains_def)

lemma same_chains_trans: "same_chains a b \<Longrightarrow> same_chains b c \<Longrightarrow> same_chains a c"
  by (simp add: same_chains_def)

lemma same_chains_ends [simp]:
  "same_chains c (c'\<lparr>newest := x\<rparr>) \<longleftrightarrow> same_chains c c'"
  "same_chains c (c'\<lparr>oldest := x\<rparr>) \<longleftrightarrow> same_chains c c'"
  by (simp_all add: same_chains_def ce_obj_def)

lemma ce_upd_eq_Inr [res_simps]:
  "ce_upd e f c = Inr c' \<longleftrightarrow>
     (\<exists>x. e < length (ces c) \<and> ces c ! e = Some x \<and> c' = c\<lparr>ces := heap_put e (f x) (ces c)\<rparr>)"
  by (auto simp: ce_upd_def res_simps)

lemma ce_upd_same_chains:
  assumes upd: "ce_upd e f c = Inr c'" and f: "\<And>x. ce_object (f x) = ce_object x"
  shows "same_chains c c'"
proof -
  obtain x where x: "e < length (ces c)" "ces c ! e = Some x"
    and c': "c' = c\<lparr>ces := heap_put e (f x) (ces c)\<rparr>"
    using upd by (auto simp: res_simps)
  have "ce_obj c' a = ce_obj c a" for a
  proof (cases "a = e")
    case True
    have "heap_get (ces c) e = Inr x" using x by (simp add: heap_get_def)
    then show ?thesis using True x f by (simp add: c' ce_obj_def)
  qed (simp add: c' ce_obj_def)
  then show ?thesis by (simp add: same_chains_def c')
qed

lemma same_chains_peek:
  "same_chains c c' \<Longrightarrow> (\<And>a. lobj_id a h' = lobj_id a h) \<Longrightarrow> cache_peek c' h' i = cache_peek c h i"
  by (rule cache_peek_cong) (auto simp: same_chains_def)

lemma ce_upd_opt_same_chains:
  "ce_upd_opt p f c = Inr c' \<Longrightarrow> (\<And>x. ce_object (f x) = ce_object x) \<Longrightarrow> same_chains c c'"
  by (auto simp: ce_upd_opt_def dest: ce_upd_same_chains split: option.splits)

lemma lru_remove_same_chains: "lru_remove e c = Inr c' \<Longrightarrow> same_chains c c'"
proof -
  assume r: "lru_remove e c = Inr c'"
  obtain ce ce1 :: centry and c1 c2 where c1: "ce_upd_opt (older ce) (\<lambda>x. x\<lparr>newer := newer ce\<rparr>) (lru_ends e ce c) = Inr c1"
    and c2: "ce_upd_opt (newer ce1) (\<lambda>x. x\<lparr>older := older ce1\<rparr>) c1 = Inr c2"
    and c': "ce_upd e (\<lambda>x. x\<lparr>older := None, newer := None\<rparr>) c2 = Inr c'"
    using r unfolding lru_remove_def rbind_eq_Inr by blast
  have "same_chains c (lru_ends e ce c)" by (simp add: lru_ends_def Let_def)
  moreover have "same_chains (lru_ends e ce c) c1" by (rule ce_upd_opt_same_chains [OF c1]) simp
  moreover have "same_chains c1 c2" by (rule ce_upd_opt_same_chains [OF c2]) simp
  moreover have "same_chains c2 c'" by (rule ce_upd_same_chains [OF c']) simp
  ultimately show ?thesis by (blast intro: same_chains_trans)
qed

section \<open>Lemmas: the invariant\<close>

text \<open>As long as nothing is evicted, every entry is alive and every link leads to an entry.\<close>

definition link_ok :: "cache \<Rightarrow> nat option \<Rightarrow> bool" where
  "link_ok c p \<longleftrightarrow> (\<forall>a. p = Some a \<longrightarrow> a < length (ces c))"

definition cache_inv :: "cache \<Rightarrow> oheap \<Rightarrow> bool" where
  "cache_inv c h \<longleftrightarrow>
     0 < csize c \<and> length (table c) = csize c \<and>
     (\<forall>e < length (ces c). \<exists>ce i. ces c ! e = Some ce \<and> lobj_id (ce_object ce) h = Inr i \<and>
        link_ok c (newer ce) \<and> link_ok c (older ce)) \<and>
     (\<forall>es \<in> set (table c). set es \<subseteq> {..<length (ces c)}) \<and>
     link_ok c (newest c) \<and> link_ok c (oldest c)"

lemma cache_invD:
  assumes "cache_inv c h" and "e < length (ces c)"
  obtains ce i where "heap_get (ces c) e = Inr ce" "ce_obj c e = Inr (ce_object ce)"
    "lobj_id (ce_object ce) h = Inr i" "link_ok c (newer ce)" "link_ok c (older ce)"
  using assms unfolding cache_inv_def ce_obj_def heap_get_def by fastforce

lemma cache_inv_bucket:
  "cache_inv c h \<Longrightarrow> bucket c i = Inr (unat i mod csize c) \<and>
     set (table c ! (unat i mod csize c)) \<subseteq> {..<length (ces c)}"
  by (auto simp: cache_inv_def bucket_def subset_iff)

lemma chain_find_total:
  "cache_inv c h \<Longrightarrow> set es \<subseteq> {..<length (ces c)} \<Longrightarrow> \<exists>r. chain_find c h i es = Inr r"
proof (induction es)
  case (Cons e es)
  then obtain lo j where "ce_obj c e = Inr lo" "lobj_id lo h = Inr j"
    by (metis cache_invD lessThan_iff list.set_intros(1) subset_iff)
  then show ?case using Cons by (simp add: chain_find_ce_obj del: chain_find.simps)
qed simp

lemma cache_peek_total: "cache_inv c h \<Longrightarrow> \<exists>r. cache_peek c h i = Inr r"
proof -
  assume inv: "cache_inv c h"
  let ?es = "table c ! (unat i mod csize c)"
  obtain r where r: "chain_find c h i ?es = Inr r"
    using chain_find_total [OF inv] cache_inv_bucket [OF inv] by metis
  have "\<exists>lo. ce_obj c e = Inr lo" if "r = Some e" for e
  proof -
    have "e < length (ces c)"
      using chain_find_mem r that cache_inv_bucket [OF inv, of i] by (metis lessThan_iff subset_iff)
    then show ?thesis using cache_invD [OF inv] by metis
  qed
  then show ?thesis using r cache_inv_bucket [OF inv, of i]
    by (auto simp: cache_peek_def split: option.splits)
qed

definition put_state :: "cache \<Rightarrow> nat \<Rightarrow> nat \<Rightarrow> nat \<Rightarrow> cache" where
  "put_state c b lo n = c\<lparr>entries := entries c + 1,
     ces := ces c @ [Some \<lparr>ce_object = lo, newer = None, older = None\<rparr>],
     table := (table c)[b := length (ces c) # table c ! b], slots_used := n\<rparr>"

lemma cache_put_eq:
  assumes inv: "cache_inv c h" and i: "lobj_id lo h = Inr i"
  defines "b \<equiv> unat i mod csize c"
  defines "n \<equiv> (if table c ! b = [] then slots_used c + 1 else slots_used c)"
  shows "\<exists>h'. lobject_pin lo h = Inr h' \<and>
    cache_put_object lo (c, h) =
      (if load_exceeded n (csize c) then Inl Assert_failed
       else Inr (put_state c b lo n, h'))"
proof -
  obtain h' where h': "lobject_pin lo h = Inr h'" using lobject_pin_live [OF i] by blast
  show ?thesis
    using cache_inv_bucket [OF inv, of i] i h'
    by (auto simp: cache_put_object_def n_def b_def Let_def cache_resize_def put_state_def)
qed

text \<open>The load limit of a cache of 1024 slots, in the arithmetic of the code.\<close>

lemma load_exceeded_1024: "load_exceeded used 1024 \<longleftrightarrow> 716 < used"
proof -
  have "round53 (1024 * LOAD_FACTOR_mantissa) = 716 * 2 ^ 53 + 7205759403792384"
    by (simp add: round53_def Let_def bit_len.simps LOAD_FACTOR_mantissa_def)
  then show ?thesis unfolding load_exceeded_def by auto
qed

lemma link_ok_grow [simp]: "link_ok c p \<Longrightarrow> length (ces c) \<le> length (ces c') \<Longrightarrow> link_ok c' p"
  by (auto simp: link_ok_def)

lemma cache_put_peek:
  assumes inv: "cache_inv c h" and i: "lobj_id lo h = Inr i"
    and put: "cache_put_object lo (c, h) = Inr (c', h')"
  shows "cache_peek c' h' j = (if j = i then Inr (Some lo) else cache_peek c h j)" and "cache_inv c' h'"
proof -
  let ?b = "unat i mod csize c"
  let ?ne = "length (ces c)"
  obtain n where h': "lobject_pin lo h = Inr h'"
    and "c' = put_state c ?b lo n"
    using put cache_put_eq [OF inv i] by (auto split: if_splits)
  then have c': "c' = c\<lparr>entries := entries c + 1,
     ces := ces c @ [Some \<lparr>ce_object = lo, newer = None, older = None\<rparr>],
     table := (table c)[?b := ?ne # table c ! ?b], slots_used := n\<rparr>"
    by (simp add: put_state_def)
  have id: "lobj_id a h' = lobj_id a h" for a using h' by simp
  have old: "ce_obj c' e = ce_obj c e" if "e < ?ne" for e
    using that by (simp add: c' ce_obj_def)
  have new: "ce_obj c' ?ne = Inr lo" by (simp add: c' ce_obj_def)
  have pos: "0 < csize c" "length (table c) = csize c" using inv by (auto simp: cache_inv_def)
  have tb: "table c' ! (unat j mod csize c) =
      (if unat j mod csize c = ?b then ?ne # table c ! ?b else table c ! (unat j mod csize c))" for j
    using pos by (simp add: c' nth_list_update)
  have cf: "chain_find c' h' j (table c ! b) = chain_find c h j (table c ! b)" if "b < csize c" for b j
  proof (rule chain_find_cong)
    fix e assume "e \<in> set (table c ! b)"
    then have "e < ?ne" using inv that pos unfolding cache_inv_def by (metis lessThan_iff nth_mem subset_iff)
    then show "ce_obj c' e = ce_obj c e" by (rule old)
  qed (rule id)
  have bk: "bucket c' j = Inr (unat j mod csize c)" using pos by (simp add: c' bucket_def)
  have bk0: "bucket c j = Inr (unat j mod csize c)" using pos by (simp add: bucket_def)
  have same: "rbind (chain_find c h j (table c ! (unat j mod csize c)))
       (\<lambda>r. case r of None \<Rightarrow> Inr None | Some e \<Rightarrow> rbind (ce_obj c' e) (\<lambda>lo. Inr (Some lo)))
     = cache_peek c h j"
  proof -
    have "e < ?ne" if "chain_find c h j (table c ! (unat j mod csize c)) = Inr (Some e)" for e
      using chain_find_mem [OF that] cache_inv_bucket [OF inv, of j] by auto
    then show ?thesis
      unfolding cache_peek_def bk0
      by (cases "chain_find c h j (table c ! (unat j mod csize c))") (auto simp: old split: option.splits)
  qed
  show "cache_peek c' h' j = (if j = i then Inr (Some lo) else cache_peek c h j)"
  proof (cases "unat j mod csize c = ?b")
    case False
    then have "j \<noteq> i" by auto
    then show ?thesis using False same pos
      by (simp add: cache_peek_def [of c'] bk tb cf)
  next
    case True
    show ?thesis
    proof (cases "j = i")
      case True
      then show ?thesis using new i id bk tb [of i]
        by (simp add: cache_peek_def [of c'] chain_find_ce_obj del: chain_find.simps)
    next
      case False
      have "chain_find c' h' j (?ne # table c ! ?b) = chain_find c h j (table c ! (unat j mod csize c))"
        using new i id False True pos cf [of ?b j]
        by (simp add: chain_find_ce_obj del: chain_find.simps)
      then show ?thesis using False True same by (simp add: cache_peek_def [of c'] bk tb)
    qed
  qed
  show "cache_inv c' h'"
  proof -
    have "\<exists>ce k. ces c' ! e = Some ce \<and> lobj_id (ce_object ce) h' = Inr k \<and>
        link_ok c' (newer ce) \<and> link_ok c' (older ce)" if "e < length (ces c')" for e
    proof (cases "e = ?ne")
      case True
      then show ?thesis using i id by (simp add: c' link_ok_def)
    next
      case False
      then have e: "e < ?ne" "ces c' ! e = ces c ! e" using that by (auto simp: c' nth_append)
      obtain ce k where "ces c ! e = Some ce" "lobj_id (ce_object ce) h = Inr k"
        "link_ok c (newer ce)" "link_ok c (older ce)"
        using inv e(1) unfolding cache_inv_def by blast
      then show ?thesis using e(2) id by (auto simp: c' link_ok_def)
    qed
    moreover have "set es \<subseteq> {..<length (ces c')}" if "es \<in> set (table c')" for es
    proof -
      have "es = ?ne # table c ! ?b \<or> es \<in> set (table c)"
        using that set_update_subset_insert [of "table c" ?b "?ne # table c ! ?b"]
        by (auto simp: c')
      moreover have "set x \<subseteq> {..<?ne}" if "x \<in> set (table c)" for x
        using that inv by (auto simp: cache_inv_def)
      moreover have "table c ! ?b \<in> set (table c)" using pos by simp
      ultimately show ?thesis by (fastforce simp: c')
    qed
    ultimately show ?thesis
      using inv unfolding cache_inv_def by (auto simp: c' link_ok_def)
  qed
qed

section \<open>Lemmas: lookup and release keep the invariant\<close>

lemma ce_upd_inv:
  assumes inv: "cache_inv c h" and e: "e < length (ces c)"
    and f: "\<And>x. ce_object (f x) = ce_object x"
    and l: "\<And>x. link_ok c (newer x) \<Longrightarrow> link_ok c (older x) \<Longrightarrow>
      link_ok c (newer (f x)) \<and> link_ok c (older (f x))"
  obtains c' where "ce_upd e f c = Inr c'" "cache_inv c' h" "length (ces c') = length (ces c)"
proof -
  obtain x where x: "heap_get (ces c) e = Inr x" using cache_invD [OF inv e] by metis
  let ?c' = "c\<lparr>ces := heap_put e (f x) (ces c)\<rparr>"
  have ln: "link_ok ?c' p \<longleftrightarrow> link_ok c p" for p by (simp add: link_ok_def)
  have "\<exists>ce i. ces ?c' ! a = Some ce \<and> lobj_id (ce_object ce) h = Inr i \<and>
      link_ok ?c' (newer ce) \<and> link_ok ?c' (older ce)" if "a < length (ces ?c')" for a
  proof -
    have a: "a < length (ces c)" using that by simp
    obtain ce i where ce: "ces c ! a = Some ce" "lobj_id (ce_object ce) h = Inr i"
      "link_ok c (newer ce)" "link_ok c (older ce)"
      using inv a unfolding cache_inv_def by blast
    show ?thesis
    proof (cases "a = e")
      case True
      then have "x = ce" using x ce by (simp add: res_simps)
      then have "ces ?c' ! a = Some (f ce)" using True a by (simp add: heap_put_def)
      then show ?thesis using ce f l [of ce] ln by metis
    next
      case False
      then have "ces ?c' ! a = Some ce" using ce by (simp add: heap_put_def)
      then show ?thesis using ce ln by metis
    qed
  qed
  then have "cache_inv ?c' h" using inv by (simp add: cache_inv_def link_ok_def)
  then show ?thesis using that [of ?c'] x by (simp add: ce_upd_def)
qed

lemma ce_upd_opt_inv:
  assumes inv: "cache_inv c h" and p: "link_ok c p"
    and f: "\<And>x. ce_object (f x) = ce_object x"
    and l: "\<And>x. link_ok c (newer x) \<Longrightarrow> link_ok c (older x) \<Longrightarrow>
      link_ok c (newer (f x)) \<and> link_ok c (older (f x))"
  obtains c' where "ce_upd_opt p f c = Inr c'" "cache_inv c' h" "length (ces c') = length (ces c)"
proof (cases p)
  case (Some a)
  then have "a < length (ces c)" using p by (simp add: link_ok_def)
  then show ?thesis using ce_upd_inv [OF inv _ f l] that Some by (simp add: ce_upd_opt_def) metis
qed (use inv that in \<open>simp add: ce_upd_opt_def\<close>)

lemma lru_ends_inv:
  assumes "cache_inv c h" and "link_ok c (newer ce)" "link_ok c (older ce)"
  shows "cache_inv (lru_ends e ce c) h" and "length (ces (lru_ends e ce c)) = length (ces c)"
  using assms by (auto simp: lru_ends_def Let_def cache_inv_def link_ok_def)

lemma lru_remove_inv:
  assumes inv: "cache_inv c h" and e: "e < length (ces c)"
  obtains c' where "lru_remove e c = Inr c'" "cache_inv c' h" "length (ces c') = length (ces c)"
proof -
  obtain ce where ce: "heap_get (ces c) e = Inr ce" "link_ok c (newer ce)" "link_ok c (older ce)"
    using cache_invD [OF inv e] by metis
  let ?c0 = "lru_ends e ce c"
  have inv0: "cache_inv ?c0 h" and len0: "length (ces ?c0) = length (ces c)"
    using lru_ends_inv [OF inv ce(2,3)] by auto
  have l0: "link_ok ?c0 = link_ok c" by (simp add: link_ok_def len0 fun_eq_iff)
  obtain c1 where c1: "ce_upd_opt (older ce) (\<lambda>x. x\<lparr>newer := newer ce\<rparr>) ?c0 = Inr c1" "cache_inv c1 h"
    "length (ces c1) = length (ces ?c0)"
    by (rule ce_upd_opt_inv [OF inv0, of "older ce" "\<lambda>x. x\<lparr>newer := newer ce\<rparr>"])
      (use ce l0 in auto)
  obtain ce1 where ce1: "heap_get (ces c1) e = Inr ce1" "link_ok c1 (newer ce1)" "link_ok c1 (older ce1)"
    using cache_invD [OF c1(2), of e] e c1(3) len0 by metis
  obtain c2 where c2: "ce_upd_opt (newer ce1) (\<lambda>x. x\<lparr>older := older ce1\<rparr>) c1 = Inr c2" "cache_inv c2 h"
    "length (ces c2) = length (ces c1)"
    by (rule ce_upd_opt_inv [OF c1(2), of "newer ce1" "\<lambda>x. x\<lparr>older := older ce1\<rparr>"])
      (use ce1 in auto)
  have e2: "e < length (ces c2)" using e c1(3) c2(3) len0 by simp
  obtain c3 where c3: "ce_upd e (\<lambda>x. x\<lparr>older := None, newer := None\<rparr>) c2 = Inr c3" "cache_inv c3 h"
    "length (ces c3) = length (ces c2)"
    by (rule ce_upd_inv [OF c2(2) e2, of "\<lambda>x. x\<lparr>older := None, newer := None\<rparr>"])
      (auto simp: link_ok_def)
  show ?thesis
  proof (rule that)
    show "lru_remove e c = Inr c3" using ce c1 ce1 c2 c3 by (simp add: lru_remove_def)
  qed (use c1 c2 c3 len0 in auto)
qed

lemma cache_inv_heap_cong:
  "(\<And>a. lobj_id a h' = lobj_id a h) \<Longrightarrow> cache_inv c h' = cache_inv c h"
  by (simp add: cache_inv_def)

lemma cache_find_cases:
  assumes inv: "cache_inv c h"
  obtains (absent) "chain_find c h i (table c ! (unat i mod csize c)) = Inr None" "cache_peek c h i = Inr None"
    | (present) e ce where "chain_find c h i (table c ! (unat i mod csize c)) = Inr (Some e)"
      "e < length (ces c)" "heap_get (ces c) e = Inr ce" "cache_peek c h i = Inr (Some (ce_object ce))"
proof -
  let ?es = "table c ! (unat i mod csize c)"
  obtain r where r: "chain_find c h i ?es = Inr r"
    using chain_find_total [OF inv] cache_inv_bucket [OF inv] by metis
  show ?thesis
  proof (cases r)
    case None
    then show ?thesis using absent r cache_inv_bucket [OF inv, of i] by (simp add: cache_peek_def)
  next
    case (Some e)
    have e: "e < length (ces c)" using chain_find_mem r Some cache_inv_bucket [OF inv, of i] by blast
    obtain ce where ce: "heap_get (ces c) e = Inr ce" "ce_obj c e = Inr (ce_object ce)"
      using cache_invD [OF inv e] by metis
    then show ?thesis using present [of e ce] e r Some cache_inv_bucket [OF inv, of i]
      by (simp add: cache_peek_def)
  qed
qed

lemma cache_get_ok:
  assumes inv: "cache_inv c h"
  obtains r c' h' where "cache_get_object i (c, h) = Inr (r, c', h')" "cache_peek c h i = Inr r"
    "cache_inv c' h'" "\<And>j. cache_peek c' h' j = cache_peek c h j" "\<And>a. lobj_id a h' = lobj_id a h"
    "csize c' = csize c" "slots_used c' = slots_used c" "entries c' = entries c" "table c' = table c"
    "objs h' = objs h" "length (lobjs h') = length (lobjs h)"
  using inv
proof (cases rule: cache_find_cases [of c h i])
  case absent
  then show ?thesis
    using inv that [of None c h] cache_inv_bucket [OF inv, of i] by (simp add: cache_get_object_def)
next
  case (present e ce)
  obtain c' where c': "lru_remove e c = Inr c'" "cache_inv c' h" "length (ces c') = length (ces c)"
    using lru_remove_inv [OF inv present(2)] by blast
  have sc: "same_chains c c'" using c'(1) by (rule lru_remove_same_chains)
  obtain j where "lobj_id (ce_object ce) h = Inr j" using cache_invD [OF inv present(2)] present(3) by (metis sum.inject(2))
  then obtain h' where h': "lobject_pin (ce_object ce) h = Inr h'" using lobject_pin_live by blast
  have ids: "lobj_id a h' = lobj_id a h" for a using h' by simp
  obtain ce' where ce': "heap_get (ces c') e = Inr ce'"
    using cache_invD [OF c'(2), of e] present(2) c'(3) by metis
  have "ce_obj c' e = ce_obj c e" using sc by (simp add: same_chains_def)
  then have o: "ce_object ce' = ce_object ce" using ce' present(3) by (simp add: ce_obj_def)
  show ?thesis
  proof (rule that [of "Some (ce_object ce)" c' h'])
    show "cache_get_object i (c, h) = Inr (Some (ce_object ce), c', h')"
      using present c' h' ce' o cache_inv_bucket [OF inv, of i] by (simp add: cache_get_object_def)
    show "cache_inv c' h'" using c' ids cache_inv_heap_cong by metis
    show "cache_peek c' h' j = cache_peek c h j" for j using sc ids by (rule same_chains_peek)
  qed (use present sc ids lobject_pin_frame [OF h'] in \<open>auto simp: same_chains_def\<close>)
qed

lemma evict_id: "\<not> csize c * CHAIN_FACTOR < entries c \<Longrightarrow> evict c = Inr c"
  by (simp add: evict.simps)

lemma cache_release_ok:
  assumes inv: "cache_inv c h" and i: "lobj_id lo h = Inr i" and p: "cache_peek c h i = Inr (Some lo')"
    and room: "entries c \<le> csize c * CHAIN_FACTOR"
  obtains c' h' where "cache_release_object lo (c, h) = Inr (c', h')" "cache_inv c' h'"
    "\<And>j. cache_peek c' h' j = cache_peek c h j" "\<And>a. lobj_id a h' = lobj_id a h"
    "csize c' = csize c" "slots_used c' = slots_used c" "entries c' = entries c" "table c' = table c"
proof -
  obtain h' where h': "lobject_unpin lo h = Inr h'" using lobject_unpin_live [OF i] by blast
  have ids: "lobj_id a h' = lobj_id a h" for a using h' by simp
  have inv': "cache_inv c h'" using inv cache_inv_heap_cong ids by metis
  obtain e where e: "chain_find c h' i (table c ! (unat i mod csize c)) = Inr (Some e)" "e < length (ces c)"
  proof (rule cache_find_cases [OF inv', of i])
    assume "cache_peek c h' i = Inr None"
    then show thesis using p cache_peek_cong [of c c h' h i] ids by simp
  qed (use that in blast)
  obtain c1 where c1: "ce_upd e (\<lambda>x. x\<lparr>newer := None, older := newest c\<rparr>) c = Inr c1" "cache_inv c1 h'"
    "length (ces c1) = length (ces c)"
    by (rule ce_upd_inv [OF inv' e(2), of "\<lambda>x. x\<lparr>newer := None, older := newest c\<rparr>"])
      (use inv in \<open>auto simp: link_ok_def cache_inv_def\<close>)
  have sc: "same_chains c c1" by (rule ce_upd_same_chains [OF c1(1)]) simp
  let ?c2 = "c1\<lparr>newest := Some e\<rparr>"
  let ?c3 = "if oldest ?c2 = None then ?c2\<lparr>oldest := Some e\<rparr> else ?c2"
  have sc3: "same_chains c ?c3" using sc by simp
  have inv3: "cache_inv ?c3 h'"
    using c1(2,3) e(2) unfolding cache_inv_def by (auto simp: link_ok_def)
  have ev: "evict ?c3 = Inr ?c3"
    by (rule evict_id) (use sc3 room in \<open>simp add: same_chains_def\<close>)
  show ?thesis
  proof (rule that [of ?c3 h'])
    show "cache_release_object lo (c, h) = Inr (?c3, h')"
      using h' e i ids c1 ev cache_inv_bucket [OF inv, of i]
      by (simp add: cache_release_object_def Let_def)
    show "cache_peek ?c3 h' j = cache_peek c h j" for j using sc3 ids by (rule same_chains_peek)
  qed (use inv3 ids sc3 in \<open>auto simp: same_chains_def\<close>)
qed

section \<open>Lemmas: the recently-used list and eviction\<close>

text \<open>No operation ever stores a pointer in \<open>newer\<close>, so the list cannot be walked from the oldest
  entry on, and a call of \<open>cache_release_object\<close> evicts at most one entry.\<close>

definition newer_null :: "cache \<Rightarrow> bool" where
  "newer_null c \<longleftrightarrow> (\<forall>ce. Some ce \<in> set (ces c) \<longrightarrow> newer ce = None)"

lemma newer_null_get: "newer_null c \<Longrightarrow> heap_get (ces c) e = Inr ce \<Longrightarrow> newer ce = None"
  unfolding newer_null_def heap_get_eq_Inr by (metis nth_mem)

lemma newer_null_ce_upd:
  assumes n: "newer_null c" and u: "ce_upd e f c = Inr c'"
    and f: "\<And>x. newer x = None \<Longrightarrow> newer (f x) = None"
  shows "newer_null c'"
proof -
  obtain x where x: "heap_get (ces c) e = Inr x" "c' = c\<lparr>ces := heap_put e (f x) (ces c)\<rparr>"
    using u by (auto simp: ce_upd_def rbind_eq_Inr)
  have "newer (f x) = None" using newer_null_get [OF n x(1)] by (rule f)
  then show ?thesis
    using n set_update_subset_insert [of "ces c" e "Some (f x)"] unfolding x(2)
    by (auto simp: newer_null_def heap_put_def)
qed

lemma newer_null_ce_upd_opt:
  "newer_null c \<Longrightarrow> ce_upd_opt p f c = Inr c' \<Longrightarrow> (\<And>x. newer x = None \<Longrightarrow> newer (f x) = None) \<Longrightarrow> newer_null c'"
  by (auto simp: ce_upd_opt_def split: option.splits intro: newer_null_ce_upd)

lemma newer_null_simps [simp]:
  "newer_null (c\<lparr>newest := x\<rparr>) = newer_null c" "newer_null (c\<lparr>oldest := x\<rparr>) = newer_null c"
  "newer_null (c\<lparr>entries := n\<rparr>) = newer_null c" "newer_null (c\<lparr>slots_used := n\<rparr>) = newer_null c"
  "newer_null (c\<lparr>table := t\<rparr>) = newer_null c" "newer_null (cache_new n)"
  by (simp_all add: newer_null_def cache_new_def)

lemma newer_null_free: "newer_null c \<Longrightarrow> newer_null (c\<lparr>ces := heap_free e (ces c)\<rparr>)"
  using set_update_subset_insert [of "ces c" e None] by (auto simp: newer_null_def heap_free_def)

lemma evict_at_most_one:
  assumes "newer_null c" and "evict c = Inr c'"
  shows "newer_null c' \<and> entries c \<le> entries c' + 1"
proof (cases "csize c * CHAIN_FACTOR < entries c \<and> oldest c \<noteq> None")
  case False
  then show ?thesis using assms by (auto simp: evict.simps split: option.splits)
next
  case True
  then obtain e where e: "oldest c = Some e" by auto
  then obtain ce where ce: "heap_get (ces c) e = Inr ce"
    using assms(2) True by (auto simp: evict.simps [of c] res_simps)
  then have "newer ce = None" using assms(1) by (rule newer_null_get [rotated])
  moreover define d where "d = c\<lparr>oldest := None, newest := None, ces := heap_free e (ces c), entries := entries c - 1\<rparr>"
  ultimately have "evict d = Inr c'" using assms(2) True e ce by (simp add: evict.simps [of c])
  moreover have "oldest d = None" by (simp add: d_def)
  then have "evict d = Inr d" by (simp add: evict.simps [of d])
  ultimately have "c' = d" by simp
  moreover have "newer_null (c\<lparr>oldest := None, newest := None\<rparr>)" using assms(1) by simp
  from newer_null_free [OF this, of e] have "newer_null d" by (simp add: d_def newer_null_def)
  ultimately show ?thesis by (simp add: d_def)
qed

end
