(* ===== verification/Cmoo_Opcodes.thy ===== *)
theory Cmoo_Opcodes
  imports Cmoo_Base
begin

text \<open>
  The instruction set: the opcode numbers of \<^verbatim>\<open>src/src/eval.h\<close>, in the order of the dispatch
  table of \<^verbatim>\<open>eval_exec\<close>, and how each handler reads its operands behind the opcode. Every handler
  reads all of them before it changes anything, so reading (\<open>fetch\<close>) is separated from executing
  (theory \<^verbatim>\<open>Cmoo_Eval\<close>). \<open>encode\<close> is the assembler that the hand written arrays follow.
\<close>

section \<open>Opcodes\<close>

definition OP_NOOP :: opcode where "OP_NOOP = 0x00"
definition OP_HALT :: opcode where "OP_HALT = 0x01"
definition OP_DEBUGI :: opcode where "OP_DEBUGI = 0x02"
definition OP_DEBUGR :: opcode where "OP_DEBUGR = 0x03"
definition OP_MOV :: opcode where "OP_MOV = 0x04"
definition OP_PUSH :: opcode where "OP_PUSH = 0x05"
definition OP_POP :: opcode where "OP_POP = 0x06"
definition OP_CALL :: opcode where "OP_CALL = 0x07"
definition OP_RETURN :: opcode where "OP_RETURN = 0x08"
definition OP_ARGS_LOCALS :: opcode where "OP_ARGS_LOCALS = 0x09"
definition OP_CLEAR :: opcode where "OP_CLEAR = 0x0A"
definition OP_TRUE :: opcode where "OP_TRUE = 0x0B"
definition OP_LOAD_INT :: opcode where "OP_LOAD_INT = 0x0C"
definition OP_LOAD_FLOAT :: opcode where "OP_LOAD_FLOAT = 0x0D"
definition OP_LOAD_STRING :: opcode where "OP_LOAD_STRING = 0x0E"
definition OP_TYPE :: opcode where "OP_TYPE = 0x0F"
definition OP_LOGICAL_AND :: opcode where "OP_LOGICAL_AND = 0x10"
definition OP_LOGICAL_OR :: opcode where "OP_LOGICAL_OR = 0x11"
definition OP_LOGICAL_NOT :: opcode where "OP_LOGICAL_NOT = 0x12"
definition OP_EQ :: opcode where "OP_EQ = 0x13"
definition OP_LE :: opcode where "OP_LE = 0x14"
definition OP_LT :: opcode where "OP_LT = 0x15"
definition OP_ADD :: opcode where "OP_ADD = 0x16"
definition OP_SUB :: opcode where "OP_SUB = 0x17"
definition OP_MUL :: opcode where "OP_MUL = 0x18"
definition OP_DIV :: opcode where "OP_DIV = 0x19"
definition OP_MOD :: opcode where "OP_MOD = 0x1A"
definition OP_JUMP :: opcode where "OP_JUMP = 0x1B"
definition OP_JUMP_IF :: opcode where "OP_JUMP_IF = 0x1C"
definition OP_JUMP_EQ :: opcode where "OP_JUMP_EQ = 0x1D"
definition OP_JUMP_NE :: opcode where "OP_JUMP_NE = 0x1E"
definition OP_JUMP_LE :: opcode where "OP_JUMP_LE = 0x1F"
definition OP_JUMP_LT :: opcode where "OP_JUMP_LT = 0x20"
definition OP_SYSCALL :: opcode where "OP_SYSCALL = 0x21"
definition OP_LENGTH :: opcode where "OP_LENGTH = 0x22"
definition OP_CONCAT :: opcode where "OP_CONCAT = 0x23"
definition OP_GETGLOBAL :: opcode where "OP_GETGLOBAL = 0x24"
definition OP_SETGLOBAL :: opcode where "OP_SETGLOBAL = 0x25"
definition OP_MAKE_OBJ :: opcode where "OP_MAKE_OBJ = 0x26"
definition OP_SELF :: opcode where "OP_SELF = 0x27"
definition OP_PARENT :: opcode where "OP_PARENT = 0x28"
definition OP_USLEEP :: opcode where "OP_USLEEP = 0x29"

named_theorems op_defs

declare OP_NOOP_def [op_defs] OP_HALT_def [op_defs] OP_DEBUGI_def [op_defs] OP_DEBUGR_def [op_defs]
  OP_MOV_def [op_defs] OP_PUSH_def [op_defs] OP_POP_def [op_defs] OP_CALL_def [op_defs]
  OP_RETURN_def [op_defs] OP_ARGS_LOCALS_def [op_defs] OP_CLEAR_def [op_defs] OP_TRUE_def [op_defs]
  OP_LOAD_INT_def [op_defs] OP_LOAD_FLOAT_def [op_defs] OP_LOAD_STRING_def [op_defs]
  OP_TYPE_def [op_defs] OP_LOGICAL_AND_def [op_defs] OP_LOGICAL_OR_def [op_defs]
  OP_LOGICAL_NOT_def [op_defs] OP_EQ_def [op_defs] OP_LE_def [op_defs] OP_LT_def [op_defs]
  OP_ADD_def [op_defs] OP_SUB_def [op_defs] OP_MUL_def [op_defs] OP_DIV_def [op_defs]
  OP_MOD_def [op_defs] OP_JUMP_def [op_defs] OP_JUMP_IF_def [op_defs] OP_JUMP_EQ_def [op_defs]
  OP_JUMP_NE_def [op_defs] OP_JUMP_LE_def [op_defs] OP_JUMP_LT_def [op_defs] OP_SYSCALL_def [op_defs]
  OP_LENGTH_def [op_defs] OP_CONCAT_def [op_defs] OP_GETGLOBAL_def [op_defs]
  OP_SETGLOBAL_def [op_defs] OP_MAKE_OBJ_def [op_defs] OP_SELF_def [op_defs] OP_PARENT_def [op_defs]
  OP_USLEEP_def [op_defs]

section \<open>Reading instructions\<close>

type_synonym reg = byte

datatype instr =
    NOOP
  | HALT
  | DEBUGI "32 word"
  | DEBUGR reg
  | MOV reg reg
  | PUSH reg
  | POP reg
  | CALL byte
  | RETURN reg
  | ARGS_LOCALS byte byte
  | CLEAR reg
  | TRUE reg
  | LOAD_INT reg "32 word"
  | LOAD_FLOAT reg "32 word"
  | LOAD_STRING reg "byte list"
  | TYPE_OF reg reg
  | LOGICAL_AND reg reg reg
  | LOGICAL_OR reg reg reg
  | LOGICAL_NOT reg reg
  | EQ reg reg reg
  | LE reg reg reg
  | LT reg reg reg
  | ADD reg reg reg
  | SUB reg reg reg
  | MUL reg reg reg
  | DIV
  | MOD
  | JUMP "32 word"
  | JUMP_IF reg "32 word"
  | JUMP_EQ
  | JUMP_NE
  | JUMP_LE
  | JUMP_LT
  | SYSCALL byte
  | LENGTH_OF reg reg
  | CONCAT reg reg reg
  | GETGLOBAL reg reg
  | SETGLOBAL reg reg
  | MAKE_OBJ reg reg
  | SELF reg
  | PARENT reg
  | USLEEP "32 word"

text \<open>A code pointer is a buffer and an offset in it. The readers take what is left of the buffer and
  return the operand with the rest; reading behind its end is out of bounds.\<close>

type_synonym codeptr = "opcode list \<times> int"

fun take8 :: "byte list \<Rightarrow> (byte \<times> byte list) res" where
  "take8 (b # bs) = Inr (b, bs)"
| "take8 [] = Inl Out_of_bounds"

definition take_n :: "nat \<Rightarrow> byte list \<Rightarrow> (byte list \<times> byte list) res" where
  "take_n n bs = (if n \<le> length bs then Inr (take n bs, drop n bs) else Inl Out_of_bounds)"

definition take16 :: "byte list \<Rightarrow> (nat \<times> byte list) res" where
  "take16 bs = rbind (take_n 2 bs) (\<lambda>(w, bs). Inr (le_value w, bs))"

definition take32 :: "byte list \<Rightarrow> (32 word \<times> byte list) res" where
  "take32 bs = rbind (take_n 4 bs) (\<lambda>(w, bs). Inr (of_nat (le_value w), bs))"

definition get0 :: "instr \<Rightarrow> byte list \<Rightarrow> (instr \<times> byte list) res" where
  "get0 i bs = Inr (i, bs)"

definition get1 :: "(byte \<Rightarrow> instr) \<Rightarrow> byte list \<Rightarrow> (instr \<times> byte list) res" where
  "get1 f bs = rbind (take8 bs) (\<lambda>(a, bs). Inr (f a, bs))"

definition get2 :: "(byte \<Rightarrow> byte \<Rightarrow> instr) \<Rightarrow> byte list \<Rightarrow> (instr \<times> byte list) res" where
  "get2 f bs = rbind (take8 bs) (\<lambda>(a, bs). rbind (take8 bs) (\<lambda>(b, bs). Inr (f a b, bs)))"

definition get3 :: "(byte \<Rightarrow> byte \<Rightarrow> byte \<Rightarrow> instr) \<Rightarrow> byte list \<Rightarrow> (instr \<times> byte list) res" where
  "get3 f bs = rbind (take8 bs) (\<lambda>(a, bs). rbind (take8 bs) (\<lambda>(b, bs).
     rbind (take8 bs) (\<lambda>(c, bs). Inr (f a b c, bs))))"

definition get32 :: "(32 word \<Rightarrow> instr) \<Rightarrow> byte list \<Rightarrow> (instr \<times> byte list) res" where
  "get32 f bs = rbind (take32 bs) (\<lambda>(n, bs). Inr (f n, bs))"

definition get1_32 :: "(byte \<Rightarrow> 32 word \<Rightarrow> instr) \<Rightarrow> byte list \<Rightarrow> (instr \<times> byte list) res" where
  "get1_32 f bs = rbind (take8 bs) (\<lambda>(a, bs). rbind (take32 bs) (\<lambda>(n, bs). Inr (f a n, bs)))"

definition get_string :: "byte list \<Rightarrow> (instr \<times> byte list) res" where
  "get_string bs = rbind (take8 bs) (\<lambda>(a, bs). rbind (take16 bs) (\<lambda>(len, bs).
     rbind (take_n len bs) (\<lambda>(s, bs). Inr (LOAD_STRING a s, bs))))"

text \<open>The operand readers, by the index into the dispatch table.\<close>

definition dispatch_table :: "(byte list \<Rightarrow> (instr \<times> byte list) res) list" where
  "dispatch_table =
     [get0 NOOP, get0 HALT, get32 DEBUGI, get1 DEBUGR, get2 MOV, get1 PUSH, get1 POP, get1 CALL,
      get1 RETURN, get2 ARGS_LOCALS, get1 CLEAR, get1 TRUE, get1_32 LOAD_INT, get1_32 LOAD_FLOAT,
      get_string, get2 TYPE_OF, get3 LOGICAL_AND, get3 LOGICAL_OR, get2 LOGICAL_NOT, get3 EQ, get3 LE,
      get3 LT, get3 ADD, get3 SUB, get3 MUL, get0 DIV, get0 MOD, get32 JUMP, get1_32 JUMP_IF,
      get0 JUMP_EQ, get0 JUMP_NE, get0 JUMP_LE, get0 JUMP_LT, get1 SYSCALL, get2 LENGTH_OF, get3 CONCAT,
      get2 GETGLOBAL, get2 SETGLOBAL, get2 MAKE_OBJ, get1 SELF, get1 PARENT, get32 USLEEP]"

fun decode :: "byte list \<Rightarrow> (instr \<times> byte list) res" where
  "decode [] = Inl Out_of_bounds"
| "decode (b # bs) =
     (if unat b < length dispatch_table then (dispatch_table ! unat b) bs else Inl Out_of_bounds)"

definition fetch :: "codeptr \<Rightarrow> (instr \<times> codeptr) res" where
  "fetch = (\<lambda>(buf, off).
     if off < 0 then Inl Out_of_bounds
     else rbind (decode (drop (nat off) buf)) (\<lambda>(i, rest). Inr (i, buf, int (length buf) - int (length rest))))"

section \<open>The assembler\<close>

definition put32 :: "32 word \<Rightarrow> byte list" where "put32 n = le_bytes 4 (unat n)"

fun encode :: "instr \<Rightarrow> opcode list" where
  "encode NOOP = [OP_NOOP]"
| "encode HALT = [OP_HALT]"
| "encode (DEBUGI n) = OP_DEBUGI # put32 n"
| "encode (DEBUGR a) = [OP_DEBUGR, a]"
| "encode (MOV a b) = [OP_MOV, a, b]"
| "encode (PUSH a) = [OP_PUSH, a]"
| "encode (POP a) = [OP_POP, a]"
| "encode (CALL a) = [OP_CALL, a]"
| "encode (RETURN a) = [OP_RETURN, a]"
| "encode (ARGS_LOCALS a b) = [OP_ARGS_LOCALS, a, b]"
| "encode (CLEAR a) = [OP_CLEAR, a]"
| "encode (TRUE a) = [OP_TRUE, a]"
| "encode (LOAD_INT a n) = OP_LOAD_INT # a # put32 n"
| "encode (LOAD_FLOAT a n) = OP_LOAD_FLOAT # a # put32 n"
| "encode (LOAD_STRING a s) = OP_LOAD_STRING # a # le_bytes 2 (length s) @ s"
| "encode (TYPE_OF a b) = [OP_TYPE, a, b]"
| "encode (LOGICAL_AND a b c) = [OP_LOGICAL_AND, a, b, c]"
| "encode (LOGICAL_OR a b c) = [OP_LOGICAL_OR, a, b, c]"
| "encode (LOGICAL_NOT a b) = [OP_LOGICAL_NOT, a, b]"
| "encode (EQ a b c) = [OP_EQ, a, b, c]"
| "encode (LE a b c) = [OP_LE, a, b, c]"
| "encode (LT a b c) = [OP_LT, a, b, c]"
| "encode (ADD a b c) = [OP_ADD, a, b, c]"
| "encode (SUB a b c) = [OP_SUB, a, b, c]"
| "encode (MUL a b c) = [OP_MUL, a, b, c]"
| "encode DIV = [OP_DIV]"
| "encode MOD = [OP_MOD]"
| "encode (JUMP n) = OP_JUMP # put32 n"
| "encode (JUMP_IF a n) = OP_JUMP_IF # a # put32 n"
| "encode JUMP_EQ = [OP_JUMP_EQ]"
| "encode JUMP_NE = [OP_JUMP_NE]"
| "encode JUMP_LE = [OP_JUMP_LE]"
| "encode JUMP_LT = [OP_JUMP_LT]"
| "encode (SYSCALL a) = [OP_SYSCALL, a]"
| "encode (LENGTH_OF a b) = [OP_LENGTH, a, b]"
| "encode (CONCAT a b c) = [OP_CONCAT, a, b, c]"
| "encode (GETGLOBAL a b) = [OP_GETGLOBAL, a, b]"
| "encode (SETGLOBAL a b) = [OP_SETGLOBAL, a, b]"
| "encode (MAKE_OBJ a b) = [OP_MAKE_OBJ, a, b]"
| "encode (SELF a) = [OP_SELF, a]"
| "encode (PARENT a) = [OP_PARENT, a]"
| "encode (USLEEP n) = OP_USLEEP # put32 n"

fun instr_ok :: "instr \<Rightarrow> bool" where
  "instr_ok (LOAD_STRING a s) \<longleftrightarrow> length s < 2 ^ 16"
| "instr_ok i \<longleftrightarrow> True"

text \<open>The instructions of a buffer, read one after the other.\<close>

function disassemble :: "byte list \<Rightarrow> instr list res" where
  "disassemble bs =
     (if bs = [] then Inr []
      else rbind (decode bs) (\<lambda>(i, rest).
        if length rest < length bs then rbind (disassemble rest) (\<lambda>is. Inr (i # is)) else Inl Out_of_bounds))"
  by pat_completeness auto
termination by (relation "measure length") auto

declare disassemble.simps [simp del]

section \<open>Lemmas\<close>

lemma take_n_append: "n = length xs \<Longrightarrow> take_n n (xs @ ys) = Inr (xs, ys)"
  by (simp add: take_n_def)

lemma take32_put32 [simp]: "take32 (put32 n @ bs) = Inr (n, bs)"
proof -
  have n: "unat n < 256 ^ 4" using unsigned_less [where ?'b = 32 and w = n] by simp
  have "le_value (put32 n) = unat n" using n by (simp only: put32_def le_value_le_bytes mod_less)
  then show ?thesis by (simp add: take32_def take_n_append put32_def)
qed

lemma take16_le_bytes: "n < 2 ^ 16 \<Longrightarrow> take16 (le_bytes 2 n @ bs) = Inr (n, bs)"
  by (simp add: take16_def take_n_append le_value_le_bytes del: le_bytes.simps)

lemma length_dispatch_table [simp]: "length dispatch_table = 42"
  by (simp add: dispatch_table_def)

named_theorems decode_simps

declare decode.simps [decode_simps] get0_def [decode_simps] get1_def [decode_simps]
  get2_def [decode_simps] get3_def [decode_simps] get32_def [decode_simps] get1_32_def [decode_simps]
  get_string_def [decode_simps]

lemma decode_encode: "instr_ok i \<Longrightarrow> decode (encode i @ bs) = Inr (i, bs)"
  by (cases i) (simp_all add: op_defs decode_simps take_n_append take16_le_bytes dispatch_table_def
      del: le_bytes.simps)

lemma fetch_encode:
  assumes "instr_ok i"
  shows "fetch (pre @ encode i @ post, int (length pre)) =
    Inr (i, pre @ encode i @ post, int (length pre) + int (length (encode i)))"
  using decode_encode [OF assms, of post] by (simp add: fetch_def)

lemma length_encode_pos: "encode i \<noteq> []"
  by (cases i) auto

lemma disassemble_assemble:
  "list_all instr_ok is \<Longrightarrow> disassemble (concat (map encode is)) = Inr is"
proof (induction "is")
  case (Cons i js)
  then have "decode (concat (map encode (i # js))) = Inr (i, concat (map encode js))"
    by (simp add: decode_encode)
  moreover have "concat (map encode (i # js)) \<noteq> []" using length_encode_pos by simp
  ultimately show ?case using Cons
    by (simp add: disassemble.simps [of "encode i @ concat (map encode js)"] length_encode_pos)
qed (simp add: disassemble.simps)

end
