(* ===== verification/Cmoo_Persist.thy ===== *)
theory Cmoo_Persist
  imports Cmoo_Lobject Cmoo_Opcodes
begin

text \<open>
  The persistence layer of \<^verbatim>\<open>src/src/persist.c\<close>: a linked list of pointers to objects, searched
  from the front, and the objects and hand assembled methods \<^verbatim>\<open>persist_new\<close> starts with. Objects
  live in the heap \<open>objs\<close> of \<open>oheap\<close>, the strings their globals may refer to in the string heap.
\<close>

section \<open>The bootstrap methods\<close>

definition init_code :: "opcode list" where
  "init_code =
     [OP_ARGS_LOCALS, 0x01, 0x02,
      OP_LOAD_STRING, 0x01, 0x11, 0x00]
     @ lit ''net_make_listener''
     @ [OP_LOAD_INT, 0x02, 0x39, 0x30, 0x00, 0x00,
      OP_PUSH, 0x01,
      OP_PUSH, 0x02,
      OP_LOAD_STRING, 0x00, 0x0D, 0x00]
     @ lit ''base-listener''
     @ [OP_GETGLOBAL, 0x00, 0x00,
      OP_MAKE_OBJ, 0x00, 0x00,
      OP_PUSH, 0x00,
      OP_SYSCALL, 0x02,
      OP_LOAD_STRING, 0x01, 0x13, 0x00]
     @ lit ''base-socket-handler''
     @ [OP_GETGLOBAL, 0x01, 0x01,
      OP_LOAD_STRING, 0x02, 0x17, 0x00]
     @ lit ''set-base-socket-handler''
     @ [OP_DEBUGR, 0x02,
      OP_DEBUGR, 0x01,
      OP_DEBUGR, 0x00,
      OP_PUSH, 0x00,
      OP_PUSH, 0x02,
      OP_PUSH, 0x01,
      OP_PUSH, 0x01,
      OP_CALL, 0x01,
      OP_POP, 0x00,
      OP_DEBUGR, 0x00,
      OP_HALT]"

definition shutdown_code :: "opcode list" where
  "shutdown_code =
     [OP_ARGS_LOCALS, 0x00, 0x03,
      OP_LOAD_STRING, 0x00, 0x15, 0x00]
     @ lit ''net_shutdown_listener''
     @ [OP_LOAD_INT, 0x01, 0x39, 0x30, 0x00, 0x00,
      OP_PUSH, 0x00,
      OP_PUSH, 0x01,
      OP_SYSCALL, 0x01,
      OP_HALT]"

definition accept_code :: "opcode list" where
  "accept_code =
     [OP_ARGS_LOCALS, 0x01, 0x03,
      OP_LOAD_STRING, 0x02, 0x13, 0x00]
     @ lit ''base-socket-handler''
     @ [OP_GETGLOBAL, 0x02, 0x02,
      OP_DEBUGR, 0x02,
      OP_MAKE_OBJ, 0x02, 0x02,
      OP_PUSH, 0x02,
      OP_LOAD_STRING, 0x03, 0x0A, 0x00]
     @ lit ''set_socket''
     @ [OP_PUSH, 0x03,
      OP_CLEAR, 0x03,
      OP_PUSH, 0x03,
      OP_PUSH, 0x00,
      OP_CALL, 0x01,
      OP_POP, 0x03,
      OP_LOAD_STRING, 0x01, 0x11, 0x00]
     @ lit ''net_accept_socket''
     @ [OP_PUSH, 0x01,
      OP_PUSH, 0x00,
      OP_PUSH, 0x02,
      OP_SYSCALL, 0x02,
      OP_HALT]"

definition set_base_socket_handler_code :: "opcode list" where
  "set_base_socket_handler_code =
     [OP_ARGS_LOCALS, 0x01, 0x01,
      OP_LOAD_STRING, 0x01, 0x13, 0x00]
     @ lit ''base-socket-handler''
     @ [OP_SETGLOBAL, 0x01, 0x00,
      OP_CLEAR, 0x01,
      OP_RETURN, 0x01]"

definition set_socket_code :: "opcode list" where
  "set_socket_code =
     [OP_ARGS_LOCALS, 0x01, 0x01,
      OP_LOAD_STRING, 0x01, 0x06, 0x00]
     @ lit ''socket''
     @ [OP_SETGLOBAL, 0x01, 0x00,
      OP_CLEAR, 0x01,
      OP_RETURN, 0x01]"

definition closed_code :: "opcode list" where
  "closed_code =
     [OP_ARGS_LOCALS, 0x01, 0x01,
      OP_LOAD_STRING, 0x01, 0x0F, 0x00]
     @ lit ''net_socket_free''
     @ [OP_PUSH, 0x01,
      OP_PUSH, 0x00,
      OP_SYSCALL, 0x01,
      OP_HALT]"

definition read_code :: "opcode list" where
  "read_code =
     [OP_ARGS_LOCALS, 0x02, 0x07,
      OP_DEBUGR, 0x00,
      OP_DEBUGR, 0x01,
      OP_LOAD_INT, 0x06, 0x05, 0x00, 0x00, 0x00,
      OP_USLEEP, 0x40, 0x42, 0x1F, 0x00,
      OP_LENGTH, 0x07, 0x01,
      OP_LT, 0x08, 0x07, 0x06,
      OP_JUMP_IF, 0x08, 0x1B, 0x00, 0x00, 0x00,
      OP_PARENT, 0x02,
      OP_DEBUGR, 0x02,
      OP_PUSH, 0x02,
      OP_LOAD_STRING, 0x02, 0x09, 0x00]
     @ lit ''inc_count''
     @ [OP_PUSH, 0x02,
      OP_CLEAR, 0x02,
      OP_PUSH, 0x02,
      OP_CALL, 0x00,
      OP_LOAD_STRING, 0x02, 0x10, 0x00]
     @ lit ''net_socket_write''
     @ [OP_LOAD_STRING, 0x03, 0x02, 0x00]
     @ lit ''> ''
     @ [OP_LOAD_STRING, 0x04, 0x06, 0x00]
     @ lit ''socket''
     @ [OP_GETGLOBAL, 0x04, 0x04,
      OP_DEBUGR, 0x04,
      OP_PUSH, 0x02,
      OP_PUSH, 0x04,
      OP_PUSH, 0x00,
      OP_CONCAT, 0x05, 0x03, 0x01,
      OP_PUSH, 0x05,
      OP_SYSCALL, 0x03,
      OP_HALT]"

definition inc_count_code :: "opcode list" where
  "inc_count_code =
     [OP_ARGS_LOCALS, 0x00, 0x03,
      OP_LOAD_STRING, 0x00, 0x05, 0x00]
     @ lit ''count''
     @ [OP_LOAD_INT, 0x01, 0x01, 0x00, 0x00, 0x00,
      OP_GETGLOBAL, 0x02, 0x00,
      OP_ADD, 0x02, 0x02, 0x01,
      OP_SETGLOBAL, 0x00, 0x02,
      OP_DEBUGR, 0x02,
      OP_RETURN, 0x02]"

section \<open>State and operations\<close>

record persist =
  objects :: "nat list"

definition obj_upd :: "nat \<Rightarrow> (object \<Rightarrow> object res) \<Rightarrow> oheap \<Rightarrow> oheap res" where
  "obj_upd a f h = rbind (heap_get (objs h) a) (\<lambda>ob. rbind (f ob) (\<lambda>ob.
     Inr (h\<lparr>objs := heap_put a ob (objs h)\<rparr>)))"

text \<open>Storing a global of the object at an address; the string heap is threaded through.\<close>

definition set_global_at :: "nat \<Rightarrow> byte list \<Rightarrow> val \<Rightarrow> oheap \<times> sheap \<Rightarrow> (oheap \<times> sheap) res" where
  "set_global_at a name v = (\<lambda>(h, sh). rbind (heap_get (objs h) a) (\<lambda>ob.
     rbind (obj_set_global name v (ob, sh)) (\<lambda>(ob, sh). Inr (h\<lparr>objs := heap_put a ob (objs h)\<rparr>, sh))))"

definition set_code_at :: "nat \<Rightarrow> byte list \<Rightarrow> opcode list \<Rightarrow> oheap \<Rightarrow> oheap res" where
  "set_code_at a name code h = obj_upd a (obj_set_code name (Some code) (length code)) h"

definition free_object_at :: "nat \<Rightarrow> oheap \<times> sheap \<Rightarrow> (oheap \<times> sheap) res" where
  "free_object_at a = (\<lambda>(h, sh). rbind (heap_get (objs h) a) (\<lambda>ob. rbind (obj_free ob sh) (\<lambda>sh.
     Inr (h\<lparr>objs := heap_free a (objs h)\<rparr>, sh))))"

definition mk_duff_object :: "object_id \<Rightarrow> persist \<times> oheap \<Rightarrow> nat \<times> persist \<times> oheap" where
  "mk_duff_object oid = (\<lambda>(p, h).
     let a = length (objs h) in
     (a, p\<lparr>objects := a # objects p\<rparr>, h\<lparr>objs := objs h @ [Some (obj_set_id oid obj_new)]\<rparr>))"

definition persist_new :: "oheap \<times> sheap \<Rightarrow> (persist \<times> oheap \<times> sheap) res" where
  "persist_new = (\<lambda>(h, sh).
     let (o0, p, h) = mk_duff_object 0 (\<lparr>objects = []\<rparr>, h) in
     rbind (set_code_at o0 (lit ''init'') init_code h) (\<lambda>h.
     rbind (set_code_at o0 (lit ''shutdown'') shutdown_code h) (\<lambda>h.
     rbind (val_make_objref 1) (\<lambda>v.
     rbind (set_global_at o0 (lit ''base-listener'') v (h, sh)) (\<lambda>(h, sh).
     rbind (val_make_objref 2) (\<lambda>v.
     rbind (set_global_at o0 (lit ''base-socket-handler'') v (h, sh)) (\<lambda>(h, sh).
     let (o1, p, h) = mk_duff_object 1 (p, h) in
     rbind (set_code_at o1 (lit ''accept'') accept_code h) (\<lambda>h.
     rbind (set_code_at o1 (lit ''set-base-socket-handler'') set_base_socket_handler_code h) (\<lambda>h.
     let (o2, p, h) = mk_duff_object 2 (p, h) in
     rbind (set_code_at o2 (lit ''set_socket'') set_socket_code h) (\<lambda>h.
     rbind (set_code_at o2 (lit ''closed'') closed_code h) (\<lambda>h.
     rbind (set_code_at o2 (lit ''read'') read_code h) (\<lambda>h.
     rbind (set_code_at o2 (lit ''inc_count'') inc_count_code h) (\<lambda>h.
     rbind (set_global_at o2 (lit ''count'') (val_make_int 0) (h, sh)) (\<lambda>(h, sh).
       Inr (p, h, sh)))))))))))))))"

fun free_objects :: "nat list \<Rightarrow> oheap \<times> sheap \<Rightarrow> (oheap \<times> sheap) res" where
  "free_objects [] s = Inr s"
| "free_objects (a # as) s = rbind (free_object_at a s) (free_objects as)"

definition persist_free :: "persist \<Rightarrow> oheap \<times> sheap \<Rightarrow> (oheap \<times> sheap) res" where
  "persist_free p s = free_objects (objects p) s"

fun find_object :: "oheap \<Rightarrow> object_id \<Rightarrow> nat list \<Rightarrow> nat option res" where
  "find_object h oid [] = Inr None"
| "find_object h oid (a # as) =
     rbind (heap_get (objs h) a) (\<lambda>ob. if obj_get_id ob = oid then Inr (Some a) else find_object h oid as)"

definition persist_get :: "persist \<Rightarrow> object_id \<Rightarrow> oheap \<Rightarrow> nat option res" where
  "persist_get p oid h = find_object h oid (objects p)"

text \<open>The loop of \<^verbatim>\<open>persist_put\<close>: the list with the first object of that id replaced, and the
  object that was replaced.\<close>

fun replace_object :: "oheap \<Rightarrow> object_id \<Rightarrow> nat \<Rightarrow> nat list \<Rightarrow> (nat list \<times> nat) option res" where
  "replace_object h oid new [] = Inr None"
| "replace_object h oid new (a # as) =
     rbind (heap_get (objs h) a) (\<lambda>ob.
       if obj_get_id ob = oid then Inr (Some (new # as, a))
       else rbind (replace_object h oid new as) (\<lambda>r.
         Inr (map_option (\<lambda>(as, old). (a # as, old)) r)))"

definition persist_put :: "nat \<Rightarrow> persist \<times> oheap \<times> sheap \<Rightarrow> (persist \<times> oheap \<times> sheap) res" where
  "persist_put a = (\<lambda>(p, h, sh).
     rbind (heap_get (objs h) a) (\<lambda>ob.
     rbind (replace_object h (obj_get_id ob) a (objects p)) (\<lambda>r.
       case r of
         Some (as, old) \<Rightarrow> rbind (free_object_at old (h, sh)) (\<lambda>(h, sh). Inr (p\<lparr>objects := as\<rparr>, h, sh))
       | None \<Rightarrow> Inr (p\<lparr>objects := a # objects p\<rparr>, h, sh))))"

section \<open>Lemmas: the object list\<close>

text \<open>A list is in order when its objects are alive and have different ids.\<close>

definition ids_at :: "oheap \<Rightarrow> nat list \<Rightarrow> object_id list" where
  "ids_at h as = map (\<lambda>a. case heap_get (objs h) a of Inr ob \<Rightarrow> obj_id ob | Inl _ \<Rightarrow> 0) as"

definition live_at :: "oheap \<Rightarrow> nat \<Rightarrow> bool" where
  "live_at h a \<longleftrightarrow> a < length (objs h) \<and> objs h ! a \<noteq> None"

definition persist_ok :: "persist \<Rightarrow> oheap \<Rightarrow> bool" where
  "persist_ok p h \<longleftrightarrow> list_all (live_at h) (objects p) \<and> distinct (objects p) \<and> distinct (ids_at h (objects p))"

lemma live_at_get: "live_at h a \<longleftrightarrow> (\<exists>ob. heap_get (objs h) a = Inr ob)"
  by (auto simp: live_at_def heap_get_eq_Inr)

lemma ids_at_simps [simp]:
  "ids_at h [] = []"
  "heap_get (objs h) a = Inr ob \<Longrightarrow> ids_at h (a # as) = obj_id ob # ids_at h as"
  "ids_at h (as @ bs) = ids_at h as @ ids_at h bs"
  "length (ids_at h as) = length as"
  by (simp_all add: ids_at_def)

lemma find_object_eq:
  "list_all (live_at h) as \<Longrightarrow>
     find_object h oid as = Inr (map_of (zip (ids_at h as) as) oid)"
  by (induction as) (auto simp: live_at_get obj_get_id_def)

lemma replace_object_eq:
  "list_all (live_at h) as \<Longrightarrow>
     (replace_object h oid new as = Inr None \<and> oid \<notin> set (ids_at h as)) \<or>
     (\<exists>xs old ys. as = xs @ old # ys \<and> oid \<notin> set (ids_at h xs) \<and> ids_at h [old] = [oid] \<and>
        replace_object h oid new as = Inr (Some (xs @ new # ys, old)))"
proof (induction as)
  case (Cons a as)
  obtain ob where a: "heap_get (objs h) a = Inr ob" using Cons.prems live_at_get by auto
  show ?case
  proof (cases "obj_id ob = oid")
    case True
    have "a # as = [] @ a # as \<and> oid \<notin> set (ids_at h []) \<and> ids_at h [a] = [oid] \<and>
        replace_object h oid new (a # as) = Inr (Some ([] @ new # as, a))"
      using a True by (simp add: obj_get_id_def)
    then show ?thesis by blast
  next
    case False
    consider "replace_object h oid new as = Inr None" "oid \<notin> set (ids_at h as)"
      | xs old ys where "as = xs @ old # ys" "oid \<notin> set (ids_at h xs)" "ids_at h [old] = [oid]"
        "replace_object h oid new as = Inr (Some (xs @ new # ys, old))"
      using Cons by auto
    then show ?thesis
    proof cases
      case 1
      then show ?thesis using a False by (simp add: obj_get_id_def)
    next
      case 2
      then have "a # as = (a # xs) @ old # ys \<and> oid \<notin> set (ids_at h (a # xs)) \<and> ids_at h [old] = [oid] \<and>
          replace_object h oid new (a # as) = Inr (Some ((a # xs) @ new # ys, old))"
        using a False by (simp add: obj_get_id_def)
      then show ?thesis by blast
    qed
  qed
qed simp

lemma ids_at_free: "b \<notin> set as \<Longrightarrow> ids_at (h\<lparr>objs := heap_free b (objs h)\<rparr>) as = ids_at h as"
proof -
  assume "b \<notin> set as"
  then have "heap_get (heap_free b (objs h)) x = heap_get (objs h) x" if "x \<in> set as" for x
    using that heap_get_free_other [of b x] by blast
  then show ?thesis by (simp add: ids_at_def)
qed

lemma live_at_free: "b \<noteq> a \<Longrightarrow> live_at (h\<lparr>objs := heap_free b (objs h)\<rparr>) a = live_at h a"
  by (auto simp: live_at_def heap_free_def)

lemma free_object_at_frame:
  "free_object_at b (h, sh) = Inr (h', sh') \<Longrightarrow> h' = h\<lparr>objs := heap_free b (objs h)\<rparr>"
  by (auto simp: free_object_at_def res_simps)

lemma map_of_zip_mid:
  assumes "length xs = length is" "i \<notin> set is"
  shows "map_of (zip (is @ i # js) (xs @ new # ys)) j =
    (if j = i then Some new else map_of (zip (is @ i # js) (xs @ old # ys)) j)"
proof -
  have "map_of (zip is xs) i = None" using assms by simp
  then show ?thesis using assms(1)
    by (cases "j = i") (simp_all add: map_add_def del: map_of_zip_is_None split: option.split)
qed

theorem persist_put_effect:
  assumes ok: "persist_ok p h" and a: "heap_get (objs h) a = Inr ob" "a \<notin> set (objects p)"
    and put: "persist_put a (p, h, sh) = Inr (p', h', sh')"
  shows "persist_ok p' h' \<and> (\<forall>i. persist_get p' i h' =
    (if i = obj_id ob then Inr (Some a) else persist_get p i h))"
proof -
  have live: "list_all (live_at h) (objects p)" using ok by (simp add: persist_ok_def)
  consider (new) "replace_object h (obj_id ob) a (objects p) = Inr None" "obj_id ob \<notin> set (ids_at h (objects p))"
    | (old) xs old ys where "objects p = xs @ old # ys" "obj_id ob \<notin> set (ids_at h xs)"
      "ids_at h [old] = [obj_id ob]"
      "replace_object h (obj_id ob) a (objects p) = Inr (Some (xs @ a # ys, old))"
    using replace_object_eq [OF live, of "obj_id ob" a] by metis
  then show ?thesis
  proof cases
    case new
    then have "p' = p\<lparr>objects := a # objects p\<rparr>" "h' = h"
      using put a by (auto simp: persist_put_def obj_get_id_def)
    then show ?thesis using ok new a live
      by (simp add: persist_ok_def persist_get_def find_object_eq) (auto simp: live_at_get obj_get_id_def find_object_eq)
  next
    case (old xs b ys)
    then have p': "p' = p\<lparr>objects := xs @ a # ys\<rparr>" and h': "h' = h\<lparr>objs := heap_free b (objs h)\<rparr>"
      using put a by (auto simp: persist_put_def obj_get_id_def rbind_eq_Inr dest: free_object_at_frame)
    have b: "b \<notin> set xs" "b \<notin> set ys" "b \<noteq> a" using ok a old by (auto simp: persist_ok_def)
    have ida: "ids_at h' [a] = [obj_id ob]" using a b h' ids_at_free [of b "[a]" h] by simp
    have ids: "ids_at h' (xs @ a # ys) = ids_at h xs @ obj_id ob # ids_at h ys"
      using ida b ids_at_free [of b xs h] ids_at_free [of b ys h] ids_at_free [of b "a # ys" h] a h' by simp
    have ids0: "ids_at h (objects p) = ids_at h xs @ obj_id ob # ids_at h ys"
      using old by (metis append_Cons append_Nil ids_at_simps(3))
    have live': "list_all (live_at h') (xs @ a # ys)"
    proof -
      have "live_at h a" using a live_at_get by blast
      then show ?thesis using live old b unfolding list_all_iff h' by (metis UnE UnI1 UnI2 live_at_free
          in_set_conv_decomp set_ConsD set_append list.set_intros(2))
    qed
    have "persist_ok p' h'"
      using ok live' ids ids0 a old unfolding persist_ok_def p' by simp
    moreover have "persist_get p' i h' = (if i = obj_id ob then Inr (Some a) else persist_get p i h)" for i
      unfolding persist_get_def p' find_object_eq [OF live] 
      using find_object_eq [OF live', of i] ids ids0 old
        map_of_zip_mid [of xs "ids_at h xs" "obj_id ob" "ids_at h ys" a ys i b]
      by simp
    ultimately show ?thesis by blast
  qed
qed

section \<open>Lemmas: the bootstrap state\<close>

text \<open>\<open>persist_new\<close> on a fresh system; no string is allocated.\<close>

definition boot0 :: object where
  "boot0 = \<lparr>obj_id = 0, parent_count = 0, parents = [],
     methods = [(lit ''shutdown'', shutdown_code), (lit ''init'', init_code)],
     globals = [(lit ''base-socket-handler'', 37), (lit ''base-listener'', 21)]\<rparr>"

definition boot1 :: object where
  "boot1 = \<lparr>obj_id = 1, parent_count = 0, parents = [],
     methods = [(lit ''set-base-socket-handler'', set_base_socket_handler_code), (lit ''accept'', accept_code)],
     globals = []\<rparr>"

definition boot2 :: object where
  "boot2 = \<lparr>obj_id = 2, parent_count = 0, parents = [],
     methods = [(lit ''inc_count'', inc_count_code), (lit ''read'', read_code),
       (lit ''closed'', closed_code), (lit ''set_socket'', set_socket_code)],
     globals = [(lit ''count'', 2)]\<rparr>"

lemma cstr_lit_names:
  "cstr (lit ''init'') = lit ''init''" "cstr (lit ''shutdown'') = lit ''shutdown''"
  "cstr (lit ''base-listener'') = lit ''base-listener''"
  "cstr (lit ''base-socket-handler'') = lit ''base-socket-handler''"
  "cstr (lit ''accept'') = lit ''accept''"
  "cstr (lit ''set-base-socket-handler'') = lit ''set-base-socket-handler''"
  "cstr (lit ''set_socket'') = lit ''set_socket''" "cstr (lit ''closed'') = lit ''closed''"
  "cstr (lit ''read'') = lit ''read''" "cstr (lit ''inc_count'') = lit ''inc_count''"
  "cstr (lit ''count'') = lit ''count''"
  by (code_simp)+

lemma lit_names_distinct:
  "lit ''init'' \<noteq> lit ''shutdown''" "lit ''base-listener'' \<noteq> lit ''base-socket-handler''"
  "lit ''accept'' \<noteq> lit ''set-base-socket-handler''"
  "lit ''set_socket'' \<noteq> lit ''closed''" "lit ''set_socket'' \<noteq> lit ''read''"
  "lit ''set_socket'' \<noteq> lit ''inc_count''" "lit ''closed'' \<noteq> lit ''read''"
  "lit ''closed'' \<noteq> lit ''inc_count''" "lit ''read'' \<noteq> lit ''inc_count''"
  by (code_simp)+

lemma boot_vals:
  "val_make_objref 1 = Inr 21" "val_make_objref 2 = Inr 37" "val_make_int 0 = 2"
  "val_type 21 = 5" "val_type 37 = 5" "val_type 2 = 2"
  by (code_simp)+

lemma persist_new_eq:
  "persist_new (\<lparr>objs = [], lobjs = ls\<rparr>, sh) =
     Inr (\<lparr>objects = [2, 1, 0]\<rparr>, \<lparr>objs = [Some boot0, Some boot1, Some boot2], lobjs = ls\<rparr>, sh)"
  by (simp add: persist_new_def mk_duff_object_def Let_def set_code_at_def obj_upd_def heap_get_def
      heap_put_def obj_set_code_def slot_store_def cstr_lit_names lit_names_distinct boot_vals
      set_global_at_def obj_set_global_def val_inc_ref_def obj_new_def obj_set_id_def
      boot0_def boot1_def boot2_def lit_names_distinct [symmetric])

end
