(* ===== verification/Cmoo_Boot.thy ===== *)
theory Cmoo_Boot
  imports Cmoo_Persist
begin

text \<open>The bootstrap methods of \<^verbatim>\<open>persist.c\<close> as instructions: the listings the hand written arrays
  stand for, and that assembling them gives the arrays byte for byte.\<close>

section \<open>Listings\<close>

definition init_asm :: "instr list" where
  "init_asm =
     [ARGS_LOCALS 1 2, LOAD_STRING 1 (lit ''net_make_listener''), LOAD_INT 2 12345, PUSH 1,
      PUSH 2, LOAD_STRING 0 (lit ''base-listener''), GETGLOBAL 0 0, MAKE_OBJ 0 0, PUSH 0,
      SYSCALL 2, LOAD_STRING 1 (lit ''base-socket-handler''), GETGLOBAL 1 1,
      LOAD_STRING 2 (lit ''set-base-socket-handler''), DEBUGR 2, DEBUGR 1, DEBUGR 0, PUSH 0,
      PUSH 2, PUSH 1, PUSH 1, CALL 1, POP 0, DEBUGR 0, HALT]"

definition shutdown_asm :: "instr list" where
  "shutdown_asm =
     [ARGS_LOCALS 0 3, LOAD_STRING 0 (lit ''net_shutdown_listener''), LOAD_INT 1 12345,
      PUSH 0, PUSH 1, SYSCALL 1, HALT]"

definition accept_asm :: "instr list" where
  "accept_asm =
     [ARGS_LOCALS 1 3, LOAD_STRING 2 (lit ''base-socket-handler''), GETGLOBAL 2 2, DEBUGR 2,
      MAKE_OBJ 2 2, PUSH 2, LOAD_STRING 3 (lit ''set_socket''), PUSH 3, CLEAR 3, PUSH 3,
      PUSH 0, CALL 1, POP 3, LOAD_STRING 1 (lit ''net_accept_socket''), PUSH 1, PUSH 0,
      PUSH 2, SYSCALL 2, HALT]"

definition set_base_socket_handler_asm :: "instr list" where
  "set_base_socket_handler_asm =
     [ARGS_LOCALS 1 1, LOAD_STRING 1 (lit ''base-socket-handler''), SETGLOBAL 1 0, CLEAR 1,
      RETURN 1]"

definition set_socket_asm :: "instr list" where
  "set_socket_asm =
     [ARGS_LOCALS 1 1, LOAD_STRING 1 (lit ''socket''), SETGLOBAL 1 0, CLEAR 1, RETURN 1]"

definition closed_asm :: "instr list" where
  "closed_asm =
     [ARGS_LOCALS 1 1, LOAD_STRING 1 (lit ''net_socket_free''), PUSH 1, PUSH 0, SYSCALL 1,
      HALT]"

definition read_asm :: "instr list" where
  "read_asm =
     [ARGS_LOCALS 2 7, DEBUGR 0, DEBUGR 1, LOAD_INT 6 5, USLEEP 2048576, LENGTH_OF 7 1,
      LT 8 7 6, JUMP_IF 8 27, PARENT 2, DEBUGR 2, PUSH 2, LOAD_STRING 2 (lit ''inc_count''),
      PUSH 2, CLEAR 2, PUSH 2, CALL 0, LOAD_STRING 2 (lit ''net_socket_write''),
      LOAD_STRING 3 (lit ''> ''), LOAD_STRING 4 (lit ''socket''), GETGLOBAL 4 4, DEBUGR 4,
      PUSH 2, PUSH 4, PUSH 0, CONCAT 5 3 1, PUSH 5, SYSCALL 3, HALT]"

definition inc_count_asm :: "instr list" where
  "inc_count_asm =
     [ARGS_LOCALS 0 3, LOAD_STRING 0 (lit ''count''), LOAD_INT 1 1, GETGLOBAL 2 0,
      ADD 2 2 1, SETGLOBAL 0 2, DEBUGR 2, RETURN 2]"


section \<open>The arrays are these listings\<close>

lemma init_assembled: "init_code = concat (map encode init_asm)"
  by (simp add: init_code_def init_asm_def op_defs lit_def put32_def le_bytes_numeral)

lemma shutdown_assembled: "shutdown_code = concat (map encode shutdown_asm)"
  by (simp add: shutdown_code_def shutdown_asm_def op_defs lit_def put32_def le_bytes_numeral)

lemma accept_assembled: "accept_code = concat (map encode accept_asm)"
  by (simp add: accept_code_def accept_asm_def op_defs lit_def put32_def le_bytes_numeral)

lemma set_base_socket_handler_assembled: "set_base_socket_handler_code = concat (map encode set_base_socket_handler_asm)"
  by (simp add: set_base_socket_handler_code_def set_base_socket_handler_asm_def op_defs lit_def put32_def le_bytes_numeral)

lemma set_socket_assembled: "set_socket_code = concat (map encode set_socket_asm)"
  by (simp add: set_socket_code_def set_socket_asm_def op_defs lit_def put32_def le_bytes_numeral)

lemma closed_assembled: "closed_code = concat (map encode closed_asm)"
  by (simp add: closed_code_def closed_asm_def op_defs lit_def put32_def le_bytes_numeral)

lemma read_assembled: "read_code = concat (map encode read_asm)"
  by (simp add: read_code_def read_asm_def op_defs lit_def put32_def le_bytes_numeral)

lemma inc_count_assembled: "inc_count_code = concat (map encode inc_count_asm)"
  by (simp add: inc_count_code_def inc_count_asm_def op_defs lit_def put32_def le_bytes_numeral)

lemmas boot_assembled = init_assembled shutdown_assembled accept_assembled set_base_socket_handler_assembled set_socket_assembled closed_assembled read_assembled inc_count_assembled

end
