(* ===== verification/Cmoo_Data_Props.thy ===== *)
theory Cmoo_Data_Props
  imports Cmoo_Cache Cmoo_Boot
begin

text \<open>The properties of values, objects, the object cache, the persistence layer and the bytecode
  format.\<close>

section \<open>Values\<close>

text \<open>C13: the tagged representation loses nothing: whatever value is built by one of the
  \<^verbatim>\<open>val_make_*\<close> functions (a string of less than 2^16 bytes included), its type and the accessor of
  that type give it back.\<close>

theorem value_roundtrip:
  assumes "avail_ok h" and "\<And>s. d = DString s \<Longrightarrow> length s < 2 ^ 16" and "val_encode d h = Inr (v, h')"
  shows "val_decode v h' = Inr d"
  using assms by (rule val_decode_encode)

definition demo_heap :: sheap where
  "demo_heap = \<lparr>cells = Map.empty, avail = [16, 32, 48, 64]\<rparr>"

lemma demo_heap_ok: "avail_ok demo_heap"
  by (simp add: avail_ok_def demo_heap_def)

lemma demo_refs_ok: "refs_ok demo_heap {#}"
  using demo_heap_ok by (simp add: refs_ok_def demo_heap_def)

theorem value_roundtrip_witness:
  "\<exists>v h'. val_encode (DString (lit ''abc'')) demo_heap = Inr (v, h') \<and> val_decode v h' = Inr (DString (lit ''abc''))"
proof -
  have "\<exists>v h'. val_encode (DString (lit ''abc'')) demo_heap = Inr (v, h')"
    by (simp add: val_make_string_def string_malloc_def demo_heap_def lit_def)
  then obtain v h' where e: "val_encode (DString (lit ''abc'')) demo_heap = Inr (v, h')" by blast
  have "val_decode v h' = Inr (DString (lit ''abc''))"
    by (rule value_roundtrip [OF demo_heap_ok _ e]) (auto simp: lit_def)
  then show ?thesis using e by blast
qed

text \<open>C14: reference counting. If every string's count is the number of the references to it, then
  after \<^verbatim>\<open>val_dec_ref\<close> of one of them it still is, for the remaining references; in particular
  the string is freed exactly when the last reference goes, and no other string is touched.\<close>

theorem dec_ref_discipline:
  assumes "refs_ok h (add_mset v M)"
  shows "\<exists>h'. val_dec_ref v h = Inr h' \<and> refs_ok h' M \<and> same_strings h h' \<and>
    (val_type v = TYPE_STRING \<longrightarrow> (cells h' (string_addr v) = None \<longleftrightarrow> v \<notin># M))"
proof -
  obtain h' where h': "val_dec_ref v h = Inr h'" "refs_ok h' M" "same_strings h h'"
    using dec_ref_ok [OF assms] by metis
  have c: "cells h' (string_addr v) = None \<longleftrightarrow> v \<notin># M" if t: "val_type v = TYPE_STRING"
  proof
    assume "cells h' (string_addr v) = None"
    then show "v \<notin># M" using h'(2) t unfolding refs_ok_def by blast
  next
    assume "v \<notin># M"
    then have n: "\<not> entry_ok M (string_addr v) hs" for hs
      using string_val_eq(1) [OF t] by (simp add: entry_ok_def not_in_iff)
    have "\<forall>a hs. cells h' a = Some hs \<longrightarrow> entry_ok M a hs"
      using h'(2) unfolding refs_ok_def by (rule conjunct1)
    then show "cells h' (string_addr v) = None" using n by (cases "cells h' (string_addr v)") auto
  qed
  show ?thesis by (rule exI [of _ h']) (intro conjI impI h' c)
qed

lemma demo_string:
  obtains v h where "val_make_string 3 (lit ''abc'') demo_heap = Inr (v, h)" "refs_ok h {#v#}" "val_type v = TYPE_STRING"
proof -
  have "\<exists>v h. val_make_string 3 (lit ''abc'') demo_heap = Inr (v, h)"
    by (simp add: val_make_string_def string_malloc_def demo_heap_def lit_def)
  then obtain v h where "val_make_string 3 (lit ''abc'') demo_heap = Inr (v, h)" by blast
  then show ?thesis using that make_string_ok [OF demo_refs_ok] by simp
qed

theorem dec_ref_discipline_witness:
  "\<exists>v h h'. val_make_string 3 (lit ''abc'') demo_heap = Inr (v, h) \<and> val_dec_ref v h = Inr h' \<and> cells h' (string_addr v) = None"
proof -
  obtain v h where v: "val_make_string 3 (lit ''abc'') demo_heap = Inr (v, h)" "refs_ok h {#v#}" "val_type v = TYPE_STRING"
    by (rule demo_string)
  from dec_ref_discipline [OF v(2)] v(1,3) show ?thesis by auto
qed

section \<open>Objects\<close>

text \<open>\<^verbatim>\<open>obj_set_code\<close> and \<^verbatim>\<open>obj_get_code\<close> are a store and a lookup by name (names are
  compared as C strings): the stored method is returned with its length, every other method and
  all globals and parents are as before.\<close>

lemma set_code_get_code:
  assumes "obj_set_code name (Some code) (length code) ob = Inr ob'"
  shows "obj_get_code ob' name' = (if cstr name' = cstr name then (length code, Some code) else obj_get_code ob name')
    \<and> globals ob' = globals ob \<and> parents ob' = parents ob"
proof -
  have ob': "ob' = obj_put_method ob name code" using assms obj_set_code_eq [of "length code" code name ob] by simp
  then show ?thesis by (simp add: obj_get_code_method meths.get_put) (simp add: obj_put_method_def)
qed







text \<open>C18: \<^verbatim>\<open>obj_copy\<close> loses every method and every global: its loops store the previous slot in the
  head of the copied list where they should store the new one. The references it took for the
  globals are never given back.\<close>

theorem obj_copy_loses_slots:
  assumes "refs_ok h (global_refs ob + M)" and "\<And>v. count (global_refs ob + global_refs ob + M) v < 65536"
  shows "\<exists>ob' h'. obj_copy ob h = Inr (ob', h') \<and> obj_id ob' = obj_id ob \<and> methods ob' = [] \<and> globals ob' = [] \<and>
    refs_ok h' (global_refs ob + global_refs ob + M)"
  using globals_inc_ok [of h "globals ob" M] assms
  by (auto simp: obj_copy_def linked_copy_empty global_refs_def)

theorem obj_copy_loses_slots_witness:
  "\<exists>ob' h'. obj_copy boot0 demo_heap = Inr (ob', h') \<and> methods ob' = [] \<and> globals ob' = []"
proof -
  have "refs_ok demo_heap (global_refs boot0 + {#})"
    using demo_refs_ok by (simp add: global_refs_def boot0_def refs_ok_nonstring boot_vals)
  moreover have "count (global_refs boot0 + global_refs boot0 + {#}) v < 65536" for v
    by (simp add: global_refs_def boot0_def)
  ultimately show ?thesis using obj_copy_loses_slots [of demo_heap boot0 "{#}"] by blast
qed

section \<open>The cache\<close>

text \<open>C19: the cache is a map from ids to objects: a successful \<^verbatim>\<open>cache_put_object\<close> makes exactly
  the new object visible under its id, and a \<^verbatim>\<open>cache_get_object\<close> afterwards returns, for every id,
  the object the cache holds, pins it and changes no entry.\<close>

theorem cache_is_a_map:
  assumes "cache_inv c h" and "lobj_id lo h = Inr i" and "cache_put_object lo (c, h) = Inr (c', h')"
  shows "\<exists>r c'' h''. cache_get_object j (c', h') = Inr (r, c'', h'') \<and>
    Inr r = (if j = i then Inr (Some lo) else cache_peek c h j) \<and> cache_inv c'' h'' \<and>
    (\<forall>k. cache_peek c'' h'' k = cache_peek c' h' k)"
proof -
  note put = cache_put_peek [OF assms]
  obtain r c'' h'' where "cache_get_object j (c', h') = Inr (r, c'', h'')" "cache_peek c' h' j = Inr r"
    "cache_inv c'' h''" "\<And>k. cache_peek c'' h'' k = cache_peek c' h' k"
    using cache_get_ok [OF put(2)] by metis
  then show ?thesis using put(1) by metis
qed

definition demo_oheap :: oheap where
  "demo_oheap = \<lparr>objs = [Some boot0], lobjs = [Some \<lparr>lo_obj = Some 0, lo_lock = None, lo_pin = 0\<rparr>]\<rparr>"

theorem cache_is_a_map_witness:
  "\<exists>c' h' r c'' h''. cache_put_object 0 (cache_new 8, demo_oheap) = Inr (c', h') \<and>
     cache_get_object 0 (c', h') = Inr (r, c'', h'') \<and> r = Some 0"
proof -
  have inv: "cache_inv (cache_new 8) demo_oheap" by (simp add: cache_inv_def cache_new_def link_ok_def)
  have id: "lobj_id 0 demo_oheap = Inr 0"
    by (simp add: lobj_id_def lobj_object_def lobject_get_object_def heap_get_def demo_oheap_def deref_def
        obj_get_id_def boot0_def)
  have "\<not> load_exceeded 1 8"
    by (simp add: load_exceeded_def round53_def Let_def bit_len.simps LOAD_FACTOR_mantissa_def)
  then obtain c' h' where "cache_put_object 0 (cache_new 8, demo_oheap) = Inr (c', h')"
    using cache_put_eq [OF inv id] by (auto simp: cache_new_def)
  with cache_is_a_map [OF inv id this, of 0] show ?thesis by auto
qed

text \<open>The cache cannot grow. With the 1024 buckets of the driver, putting an object into an
  empty bucket aborts at the assertion of \<^verbatim>\<open>cache_resize\<close> exactly from the 717th bucket on.\<close>

lemma cache_aborts_at_717_buckets:
  assumes "cache_inv c h" and "csize c = 1024" and "lobj_id lo h = Inr i" and "table c ! (unat i mod 1024) = []"
  shows "cache_put_object lo (c, h) = Inl Assert_failed \<longleftrightarrow> 716 \<le> slots_used c"
  using cache_put_eq [OF assms(1,3)] assms(2,4) by (auto simp: load_exceeded_1024 split: if_splits)

lemma cache_aborts_at_717_buckets_example:
  "cache_put_object 0 ((cache_new 1024)\<lparr>slots_used := 716\<rparr>, demo_oheap) = Inl Assert_failed"
proof -
  have inv: "cache_inv ((cache_new 1024)\<lparr>slots_used := 716\<rparr>) demo_oheap"
    by (simp add: cache_inv_def cache_new_def link_ok_def)
  have id: "lobj_id 0 demo_oheap = Inr 0"
    by (simp add: lobj_id_def lobj_object_def lobject_get_object_def heap_get_def demo_oheap_def deref_def
        obj_get_id_def boot0_def)
  show ?thesis using cache_aborts_at_717_buckets [OF inv _ id] by (simp add: cache_new_def)
qed

text \<open>C20: an evicted entry stays in its hash chain. After an eviction every lookup in that bucket
  that is not answered by an entry in front of the evicted one reads freed memory.\<close>

lemma chain_find_append:
  "chain_find c h i xs = Inr None \<Longrightarrow> chain_find c h i (xs @ ys) = chain_find c h i ys"
  by (induction xs) (auto simp: rbind_eq_Inr split: if_splits)

theorem evicted_entry_is_read_again:
  assumes "csize c * CHAIN_FACTOR < entries c" and "oldest c = Some e" and "newer_null c"
    and "evict c = Inr c'" and "0 < csize c"
    and "table c ! (unat i mod csize c) = xs @ e # ys" and "chain_find c' h i xs = Inr None"
  shows "cache_get_object i (c', h) = Inl Use_after_free"
proof -
  obtain ce where ce: "heap_get (ces c) e = Inr ce"
    using assms(1,2,4) by (auto simp: evict.simps [of c] rbind_eq_Inr)
  have n: "newer ce = None" using newer_null_get [OF assms(3) ce] .
  let ?d = "c\<lparr>oldest := None, newest := None, ces := heap_free e (ces c), entries := entries c - 1\<rparr>"
  have "evict c = evict ?d" using assms(1,2) ce n by (simp add: evict.simps [of c])
  moreover have "evict ?d = Inr ?d" by (subst evict.simps) simp
  ultimately have c': "c' = ?d" using assms(4) by simp
  have "heap_get (ces c') e = Inl Use_after_free"
    using ce by (simp add: c' heap_get_def heap_free_def split: if_splits)
  then have "chain_find c' h i (xs @ e # ys) = Inl Use_after_free"
    using chain_find_append [OF assms(7)] by simp
  moreover have "bucket c' i = Inr (unat i mod csize c)" "table c' = table c"
    using assms(5) by (simp_all add: c' bucket_def)
  ultimately show ?thesis using assms(6) by (simp add: cache_get_object_def)
qed

definition evict_demo :: cache where
  "evict_demo = \<lparr>table = [[0]], ces = [Some \<lparr>ce_object = 0, newer = None, older = None\<rparr>],
     newest = Some 0, oldest = Some 0, csize = 1, slots_used = 1, entries = 3\<rparr>"

theorem evicted_entry_is_read_again_witness:
  "\<exists>c'. evict evict_demo = Inr c' \<and> cache_get_object 5 (c', demo_oheap) = Inl Use_after_free"
proof -
  have "\<exists>c'. evict evict_demo = Inr c'"
    by (subst evict.simps, subst evict.simps) (simp add: evict_demo_def heap_get_def CHAIN_FACTOR_def)
  then obtain c' where e: "evict evict_demo = Inr c'" by blast
  have "newer_null evict_demo" by (simp add: newer_null_def evict_demo_def)
  from evicted_entry_is_read_again [OF _ _ this e, of 0 5 "[]" "[]" demo_oheap] e show ?thesis
    by (auto simp: evict_demo_def CHAIN_FACTOR_def)
qed

section \<open>The persistence layer\<close>

text \<open>\<^verbatim>\<open>persist_put\<close> stores an object under its id and frees the one that was there; looking up
  any other id gives what it gave before, and no id is stored twice.\<close>

lemma persist_put_get:
  assumes "persist_ok p h" and "heap_get (objs h) a = Inr ob" and "a \<notin> set (objects p)"
    and "persist_put a (p, h, sh) = Inr (p', h', sh')"
  shows "persist_ok p' h' \<and> (\<forall>i. persist_get p' i h' = (if i = obj_id ob then Inr (Some a) else persist_get p i h))"
  using persist_put_effect [OF assms] .

lemma persist_put_get_example:
  "\<exists>p' h' sh'. persist_put 0 (\<lparr>objects = []\<rparr>, demo_oheap, demo_heap) = Inr (p', h', sh') \<and>
     persist_get p' 0 h' = Inr (Some 0)"
proof -
  have g: "heap_get (objs demo_oheap) 0 = Inr boot0" by (simp add: demo_oheap_def heap_get_def)
  then have "\<exists>p' h' sh'. persist_put 0 (\<lparr>objects = []\<rparr>, demo_oheap, demo_heap) = Inr (p', h', sh')"
    by (simp add: persist_put_def)
  then obtain p' h' sh' where e: "persist_put 0 (\<lparr>objects = []\<rparr>, demo_oheap, demo_heap) = Inr (p', h', sh')" by blast
  have "persist_ok \<lparr>objects = []\<rparr> demo_oheap" by (simp add: persist_ok_def)
  from persist_put_get [OF this g _ e] e show ?thesis by (auto simp: boot0_def)
qed

text \<open>C21: the hand assembled methods of the bootstrap objects are well formed: each reads to its
  end as whole instructions, string lengths included, which are those of its listing and of which
  the last is \<^verbatim>\<open>HALT\<close> or \<^verbatim>\<open>RETURN\<close>; and the one relative jump, in \<^verbatim>\<open>read\<close>, spans eight whole
  instructions.\<close>

definition ends_well :: "instr list \<Rightarrow> bool" where
  "ends_well is = (is \<noteq> [] \<and> (case last is of HALT \<Rightarrow> True | RETURN r \<Rightarrow> True | _ \<Rightarrow> False))"

definition boot_methods :: "(opcode list \<times> instr list) list" where
  "boot_methods = [(init_code, init_asm), (shutdown_code, shutdown_asm), (accept_code, accept_asm),
     (set_base_socket_handler_code, set_base_socket_handler_asm), (set_socket_code, set_socket_asm),
     (closed_code, closed_asm), (read_code, read_asm), (inc_count_code, inc_count_asm)]"

lemmas asm_defs = init_asm_def shutdown_asm_def accept_asm_def set_base_socket_handler_asm_def
  set_socket_asm_def closed_asm_def read_asm_def inc_count_asm_def

lemma boot_asm_ok:
  "(code, is) \<in> set boot_methods \<Longrightarrow> code = concat (map encode is) \<and> list_all instr_ok is \<and> ends_well is"
  by (auto simp: boot_methods_def boot_assembled ends_well_def) (simp_all add: asm_defs lit_def)

theorem bootstrap_methods_wellformed:
  "list_all (\<lambda>(code, is). disassemble code = Inr is \<and> ends_well is) boot_methods \<and>
   read_asm ! 7 = JUMP_IF 8 27 \<and> 16 < length read_asm \<and> length (concat (map encode (take 8 (drop 8 read_asm)))) = 27"
proof (intro conjI)
  show "list_all (\<lambda>(code, is). disassemble code = Inr is \<and> ends_well is) boot_methods"
    unfolding list_all_iff using boot_asm_ok disassemble_assemble by blast
qed (simp_all add: read_asm_def lit_def put32_def le_bytes_numeral)

end
