(* ===== verification/Cmoo_Store.thy ===== *)
theory Cmoo_Store
  imports Cmoo_Cache Cmoo_Persist Cmoo_Lock_Refine
begin

text \<open>
  The transactional store of \<^verbatim>\<open>src/src/store.c\<close>. The state \<open>store\<close> holds the two heaps (strings,
  and objects with their lockable wrappers), the locks and transactions, the object cache and the
  persistence layer. Other threads run while a call waits for a lock: \<open>env\<close> is what they do, from
  the state in which the wait begins to the one in which it ends; \<open>None\<close> when it never does.
  The record is extended by the theories above with the state of the network.
\<close>

section \<open>State\<close>

record store =
  strs :: sheap
  heap :: oheap
  lks :: lsys
  s_cache :: cache
  s_persist :: persist
  alloc_id :: int
  sid_seq :: "64 word"
  cid_used :: "bool list"

definition CACHE_SIZE :: nat where "CACHE_SIZE = 1024"

definition store_new :: "persist \<Rightarrow> nat \<Rightarrow> nat \<Rightarrow> oheap \<Rightarrow> sheap \<Rightarrow> store" where
  "store_new p n frames h sh =
     \<lparr>strs = sh, heap = h, lks = locks_new_ctx n frames, s_cache = cache_new CACHE_SIZE, s_persist = p,
      alloc_id = 1000, sid_seq = 0, cid_used = replicate n False\<rparr>"

definition store_free :: "'a store_scheme \<Rightarrow> unit res" where
  "store_free w = rbind (cache_free (s_cache w)) (\<lambda>_. locks_free_ctx (lks w))"

section \<open>Locks, seen from the store\<close>

text \<open>The whole of \<^verbatim>\<open>lock_lock\<close>: enter, let the others run when it has to wait, leave.\<close>

definition lock_lock ::
  "('a store_scheme \<Rightarrow> 'a store_scheme option) \<Rightarrow> nat \<Rightarrow> lock_mode \<Rightarrow> nat \<Rightarrow> 'a store_scheme \<Rightarrow>
     (lock_code \<times> 'a store_scheme) res" where
  "lock_lock env l m tx w =
     rbind (lock_enter l m tx (lks w)) (\<lambda>(r, s).
     let w = w\<lparr>lks := s\<rparr> in
     case r of
       Returned c \<Rightarrow> Inr (c, w)
     | Waiting g \<Rightarrow>
         (case env w of
            None \<Rightarrow> Inl Blocked
          | Some w \<Rightarrow> rbind (lock_wait l g tx (lks w)) (\<lambda>(r, s).
              case r of Returned c \<Rightarrow> Inr (c, w\<lparr>lks := s\<rparr>) | _ \<Rightarrow> Inl Blocked))
     | Joined g \<Rightarrow>
         (case env w of
            None \<Rightarrow> Inl Blocked
          | Some w \<Rightarrow> rbind (join_wait l g (lks w)) (\<lambda>(r, s).
              case r of Returned c \<Rightarrow> Inr (c, w\<lparr>lks := s\<rparr>) | _ \<Rightarrow> Inl Blocked)))"

definition lobj_lock :: "nat \<Rightarrow> oheap \<Rightarrow> nat res" where
  "lobj_lock lo h = rbind (lobject_get_lock lo h) (\<lambda>l. case l of None \<Rightarrow> Inl Null_deref | Some l \<Rightarrow> Inr l)"

section \<open>Transactions\<close>

fun first_free :: "bool list \<Rightarrow> nat option" where
  "first_free [] = None"
| "first_free (u # us) = (if u then map_option Suc (first_free us) else Some 0)"

text \<open>When no cid is free, \<^verbatim>\<open>ret->cid\<close> is read by the assertion without having been written.\<close>

definition store_start_tx :: "'a store_scheme \<Rightarrow> (nat \<times> 'a store_scheme) res" where
  "store_start_tx w =
     (let s = lks w; tx = length (txs s); sid = sid_seq w; cid = first_free (cid_used w) in
      rbind (case cid of None \<Rightarrow> Inl Uninit_read | Some c \<Rightarrow> c_assert (c < max_tasks s)) (\<lambda>_.
        Inr (tx, w\<lparr>lks := s\<lparr>txs := txs s @ [Some \<lparr>tx_sid = sid, tx_cid = cid, tx_locked = []\<rparr>]\<rparr>,
                   sid_seq := sid + 1,
                   cid_used := (case cid of None \<Rightarrow> cid_used w | Some c \<Rightarrow> (cid_used w)[c := True])\<rparr>)))"

text \<open>The loop of \<^verbatim>\<open>store_finish_tx\<close> over the list of locked objects.\<close>

fun release_all :: "nat \<Rightarrow> nat list \<Rightarrow> 'a store_scheme \<Rightarrow> 'a store_scheme res" where
  "release_all tx [] w = Inr w"
| "release_all tx (lo # los) w =
     rbind (lobj_id lo (heap w)) (\<lambda>_.
     rbind (lobj_lock lo (heap w)) (\<lambda>l.
     rbind (lock_unlock l tx (lks w)) (\<lambda>s.
     rbind (cache_release_object lo (s_cache w, heap w)) (\<lambda>(c, h).
       release_all tx los (w\<lparr>lks := s, s_cache := c, heap := h\<rparr>)))))"

definition store_finish_tx :: "nat \<Rightarrow> 'a store_scheme \<Rightarrow> 'a store_scheme res" where
  "store_finish_tx tx w =
     rbind (heap_get (txs (lks w)) tx) (\<lambda>t.
     rbind (release_all tx (tx_locked t) w) (\<lambda>w.
     rbind (case tx_cid t of None \<Rightarrow> Inl Uninit_read | Some c \<Rightarrow>
              if c < length (cid_used w) then Inr c else Inl Out_of_bounds) (\<lambda>c.
     rbind (c_assert (cid_used w ! c)) (\<lambda>_.
       Inr (w\<lparr>cid_used := (cid_used w)[c := False],
              lks := (lks w)\<lparr>txs := heap_free tx (txs (lks w))\<rparr>\<rparr>)))))"

text \<open>Putting a locked object in front of the list of the transaction.\<close>

definition tx_note_locked :: "nat \<Rightarrow> nat \<Rightarrow> 'a store_scheme \<Rightarrow> 'a store_scheme res" where
  "tx_note_locked tx lo w =
     rbind (heap_get (txs (lks w)) tx) (\<lambda>t.
       Inr (w\<lparr>lks := (lks w)\<lparr>txs := heap_put tx (t\<lparr>tx_locked := lo # tx_locked t\<rparr>) (txs (lks w))\<rparr>\<rparr>))"

section \<open>Objects\<close>

text \<open>A new lockable wrapper of the object at an address, with a lock of its own, in the cache.\<close>

definition wrap_object :: "nat \<Rightarrow> 'a store_scheme \<Rightarrow> (nat \<times> 'a store_scheme) res" where
  "wrap_object a w =
     (let (l, s) = lock_new (lks w); (lo, h) = lobject_new (heap w) in
      rbind (lobject_set_object lo (Some a) h) (\<lambda>h.
      rbind (lobject_set_lock lo (Some l) h) (\<lambda>h.
      rbind (cache_put_object lo (s_cache w, h)) (\<lambda>(c, h).
        Inr (lo, w\<lparr>lks := s, heap := h, s_cache := c\<rparr>)))))"

text \<open>The part of \<^verbatim>\<open>store_get_object\<close> under the cache latch.\<close>

definition find_cached :: "object_id \<Rightarrow> 'a store_scheme \<Rightarrow> (nat \<times> 'a store_scheme) res" where
  "find_cached oid w =
     rbind (cache_get_object oid (s_cache w, heap w)) (\<lambda>(r, c, h).
     let w = w\<lparr>s_cache := c, heap := h\<rparr> in
     case r of
       Some lo \<Rightarrow> Inr (lo, w)
     | None \<Rightarrow>
         rbind (persist_get (s_persist w) oid (heap w)) (\<lambda>po.
           case po of None \<Rightarrow> Inl Assert_failed | Some a \<Rightarrow> wrap_object a w))"

definition store_get_object ::
  "('a store_scheme \<Rightarrow> 'a store_scheme option) \<Rightarrow> nat \<Rightarrow> object_id \<Rightarrow> 'a store_scheme \<Rightarrow>
     (nat option \<times> 'a store_scheme) res" where
  "store_get_object env tx oid w =
     rbind (find_cached oid w) (\<lambda>(lo, w).
     rbind (lobj_id lo (heap w)) (\<lambda>_.
     rbind (lobj_lock lo (heap w)) (\<lambda>l.
     rbind (lock_lock env l LOCK_SHARED tx w) (\<lambda>(c, w).
       if c \<noteq> LOCK_TAKEN then Inr (None, w)
       else rbind (tx_note_locked tx lo w) (\<lambda>w. Inr (Some lo, w))))))"

definition store_make_object ::
  "('a store_scheme \<Rightarrow> 'a store_scheme option) \<Rightarrow> nat \<Rightarrow> object_id \<Rightarrow> 'a store_scheme \<Rightarrow>
     (nat \<times> 'a store_scheme) res" where
  "store_make_object env tx parent_id w =
     (if alloc_id w = 2 ^ 31 - 1 then Inl Signed_overflow
      else
        let obj = obj_add_parent parent_id (obj_set_id (of_int (alloc_id w)) obj_new);
            a = length (objs (heap w));
            w = w\<lparr>alloc_id := alloc_id w + 1, heap := (heap w)\<lparr>objs := objs (heap w) @ [Some obj]\<rparr>\<rparr> in
        rbind (wrap_object a w) (\<lambda>(lo, w).
        rbind (lobj_id lo (heap w)) (\<lambda>_.
        rbind (lobj_lock lo (heap w)) (\<lambda>l.
        rbind (lock_lock env l LOCK_EXCLUSIVE tx w) (\<lambda>(_, w).
        rbind (tx_note_locked tx lo w) (\<lambda>w. Inr (lo, w)))))))"

end
