(* ===== verification/Cmoo_Eval.thy ===== *)
theory Cmoo_Eval
  imports Cmoo_Store Cmoo_Opcodes
begin

unbundle bit_operations_syntax

text \<open>
  The virtual machine of \<^verbatim>\<open>src/src/eval.c\<close>. The stack is an array of cells; a cell is a C union,
  and \<open>cell\<close> records which member was written last. \<open>fp\<close> and \<open>sp\<close> are indices into it. There is
  one definition per instruction, with every check, print and assignment of its handler that can
  be observed, in its order: an access outside of the frame is only reported by the code, so it
  is an access to the array here. \<open>eval_step\<close> reads and executes one instruction, \<open>eval_run\<close>
  repeats it.
\<close>

section \<open>State\<close>

datatype cell =
    Uninit
  | CVal val
  | CFp int
  | CCode codeptr
  | CObj "nat option"

text \<open>A system call gets the context of the table and its arguments, from the lowest on.\<close>

record 'w syscall_entry =
  se_arity :: nat
  se_name :: cstring
  se_func :: "nat option \<Rightarrow> val list \<Rightarrow> 'w \<Rightarrow> (val \<times> 'w) res"

record 'w syscall_table =
  syscalls :: "'w syscall_entry list"
  st_ctx :: "nat option"

text \<open>\<open>callback\<close> is whether a debug handler is set, \<open>dbg_trace\<close> the values it was called with.\<close>

record 'w eval_ctx =
  fp :: int
  sp :: int
  stack :: "cell list"
  callback :: bool
  dbg_trace :: "val list"
  ev_syscalls :: "'w syscall_table option"
  task_id :: "64 word"
  stx :: nat
  cur_obj :: "nat option"

text \<open>What the machine uses of its environment: the other threads (\<open>h_env\<close>, see \<open>lock_lock\<close>), the
  single precision operations of the hardware, the format \<^verbatim>\<open>%f\<close> of the C library, and the depth of
  the C stack.\<close>

record 'w host =
  h_env :: "'w \<Rightarrow> 'w option"
  h_add :: "32 word \<Rightarrow> 32 word \<Rightarrow> 32 word"
  h_sub :: "32 word \<Rightarrow> 32 word \<Rightarrow> 32 word"
  h_mul :: "32 word \<Rightarrow> 32 word \<Rightarrow> 32 word"
  h_fmt :: "32 word \<Rightarrow> cstring"
  h_frames :: nat

type_synonym 'w st = "'w eval_ctx \<times> 'w"

definition INITIAL_STACK_SIZE :: nat where "INITIAL_STACK_SIZE = 1024"

definition eval_new_ctx :: "64 word \<Rightarrow> nat \<Rightarrow> 'w eval_ctx" where
  "eval_new_ctx t x =
     \<lparr>fp = 1, sp = 0, stack = replicate INITIAL_STACK_SIZE Uninit, callback = False, dbg_trace = [],
      ev_syscalls = None, task_id = t, stx = x, cur_obj = None\<rparr>"

definition eval_set_dbg_handler :: "'w eval_ctx \<Rightarrow> 'w eval_ctx" where
  "eval_set_dbg_handler c = c\<lparr>callback := True\<rparr>"

section \<open>Cells\<close>

definition cell_get :: "'w eval_ctx \<Rightarrow> int \<Rightarrow> cell res" where
  "cell_get c i = (if 0 \<le> i \<and> i < int (length (stack c)) then Inr (stack c ! nat i) else Inl Out_of_bounds)"

definition cell_put :: "int \<Rightarrow> cell \<Rightarrow> 'w eval_ctx \<Rightarrow> 'w eval_ctx res" where
  "cell_put i x c =
     (if 0 \<le> i \<and> i < int (length (stack c)) then Inr (c\<lparr>stack := (stack c)[nat i := x]\<rparr>) else Inl Out_of_bounds)"

definition val_at :: "'w eval_ctx \<Rightarrow> int \<Rightarrow> val res" where
  "val_at c i = rbind (cell_get c i) (\<lambda>x. case x of CVal v \<Rightarrow> Inr v | Uninit \<Rightarrow> Inl Uninit_read | _ \<Rightarrow> Inl Wrong_member)"

text \<open>\<^verbatim>\<open>val_clear\<close> on a cell. Pointers to cells and to objects are aligned: their tag reads as nil,
  and clearing them has no effect but the assignment. A code pointer has arbitrary low bits.\<close>

definition cell_clear :: "int \<Rightarrow> 'a store_scheme st \<Rightarrow> 'a store_scheme st res" where
  "cell_clear i = (\<lambda>(c, w).
     rbind (cell_get c i) (\<lambda>x.
     rbind (case x of
              CVal v \<Rightarrow> rbind (val_clear v (strs w)) (\<lambda>(v, h). Inr (v, w\<lparr>strs := h\<rparr>))
            | CFp _ \<Rightarrow> Inr (0, w)
            | CObj _ \<Rightarrow> Inr (0, w)
            | CCode _ \<Rightarrow> Inl Wrong_member
            | Uninit \<Rightarrow> Inl Uninit_read) (\<lambda>(v, w).
     rbind (cell_put i (CVal v) c) (\<lambda>c. Inr (c, w)))))"

definition cell_set :: "int \<Rightarrow> val \<Rightarrow> 'w st \<Rightarrow> 'w st res" where
  "cell_set i v = (\<lambda>(c, w). rbind (cell_put i (CVal v) c) (\<lambda>c. Inr (c, w)))"

definition inc_val :: "val \<Rightarrow> 'a store_scheme st \<Rightarrow> 'a store_scheme st res" where
  "inc_val v = (\<lambda>(c, w). rbind (val_inc_ref v (strs w)) (\<lambda>h. Inr (c, w\<lparr>strs := h\<rparr>)))"

text \<open>\<^verbatim>\<open>ctx->fp[r]\<close>.\<close>

definition reg_ix :: "'w eval_ctx \<Rightarrow> reg \<Rightarrow> int" where
  "reg_ix c r = fp c + int (unat r)"

definition reg_val :: "'w st \<Rightarrow> reg \<Rightarrow> val res" where
  "reg_val s r = val_at (fst s) (reg_ix (fst s) r)"

definition reg_clear :: "reg \<Rightarrow> 'a store_scheme st \<Rightarrow> 'a store_scheme st res" where
  "reg_clear r s = cell_clear (reg_ix (fst s) r) s"

definition reg_set :: "reg \<Rightarrow> val \<Rightarrow> 'w st \<Rightarrow> 'w st res" where
  "reg_set r v s = cell_set (reg_ix (fst s) r) v s"

definition reg_assign :: "reg \<Rightarrow> val \<Rightarrow> 'a store_scheme st \<Rightarrow> 'a store_scheme st res" where
  "reg_assign r v s = rbind (reg_clear r s) (reg_set r v)"

definition call_back :: "val \<Rightarrow> 'w st \<Rightarrow> 'w st" where
  "call_back v = (\<lambda>(c, w). (if callback c then c\<lparr>dbg_trace := dbg_trace c @ [v]\<rparr> else c, w))"

section \<open>Method lookup\<close>

text \<open>The loop over the parents; \<open>search\<close> is the recursive call. \<open>idxs\<close> are the indices left.\<close>

type_synonym found = "nat \<times> opcode list option"

fun parent_loop ::
  "'a store_scheme host \<Rightarrow> (nat \<Rightarrow> 'a store_scheme \<Rightarrow> (found \<times> 'a store_scheme) res) \<Rightarrow> nat \<Rightarrow> nat \<Rightarrow> nat list \<Rightarrow>
     found \<Rightarrow> 'a store_scheme \<Rightarrow> (found \<times> 'a store_scheme) res" where
  "parent_loop H search tx lo [] r w = Inr (r, w)"
| "parent_loop H search tx lo (idx # idxs) r w =
     (if fst r \<noteq> 0 then Inr (r, w)
      else rbind (lobj_object lo (heap w)) (\<lambda>ob.
           rbind (obj_get_parent ob idx) (\<lambda>parent_id.
           rbind (store_get_object (h_env H) tx parent_id w) (\<lambda>(parent, w).
             case parent of
               None \<Rightarrow> Inl Assert_failed
             | Some p \<Rightarrow> rbind (search p w) (\<lambda>(r, w). parent_loop H search tx lo idxs r w)))))"

primrec get_code_frames ::
  "nat \<Rightarrow> 'a store_scheme host \<Rightarrow> nat \<Rightarrow> byte list \<Rightarrow> nat \<Rightarrow> 'a store_scheme \<Rightarrow> (found \<times> 'a store_scheme) res" where
  "get_code_frames 0 H lo name tx w = Inl Stack_overflow"
| "get_code_frames (Suc n) H lo name tx w =
     rbind (lobj_object lo (heap w)) (\<lambda>ob.
       parent_loop H (\<lambda>p w. get_code_frames n H p name tx w) tx lo [0..<obj_get_parent_count ob]
         (obj_get_code ob name) w)"

definition eval_get_code_recursive ::
  "'a store_scheme host \<Rightarrow> nat \<Rightarrow> byte list \<Rightarrow> nat \<Rightarrow> 'a store_scheme \<Rightarrow> (found \<times> 'a store_scheme) res" where
  "eval_get_code_recursive H lo name tx w = get_code_frames (h_frames H) H lo name tx w"

section \<open>Debugging, moving, the stack\<close>

text \<open>\<^verbatim>\<open>HALT\<close> clears down to the bottom of the stack; a stack pointer below that is never
  equal to it.\<close>

function halt_loop :: "'a store_scheme st \<Rightarrow> 'a store_scheme st res" where
  "halt_loop (c, w) =
     (if sp c = 0 then Inr (c, w)
      else if sp c < 0 then Inl Out_of_bounds
      else rbind (cell_clear (sp c) (c, w)) (\<lambda>(c', w). halt_loop (c'\<lparr>sp := sp c - 1\<rparr>, w)))"
  by pat_completeness auto
termination by (relation "measure (\<lambda>(c, w). nat (sp c))") auto

declare halt_loop.simps [simp del]

definition op_halt :: "'a store_scheme st \<Rightarrow> 'a store_scheme st res" where
  "op_halt s = halt_loop s"

definition op_debugi :: "32 word \<Rightarrow> 'w st \<Rightarrow> 'w st res" where
  "op_debugi msg s = Inr (call_back (val_make_int msg) s)"

definition print_reg :: "'a store_scheme host \<Rightarrow> reg \<Rightarrow> 'a store_scheme st \<Rightarrow> val res" where
  "print_reg H r s = rbind (reg_val s r) (\<lambda>v. rbind (val_print (h_fmt H) v (strs (snd s))) (\<lambda>_. Inr v))"

definition op_debugr :: "'a store_scheme host \<Rightarrow> reg \<Rightarrow> 'a store_scheme st \<Rightarrow> 'a store_scheme st res" where
  "op_debugr H r s = rbind (print_reg H r s) (\<lambda>v. Inr (call_back v s))"

definition op_mov :: "reg \<Rightarrow> reg \<Rightarrow> 'a store_scheme st \<Rightarrow> 'a store_scheme st res" where
  "op_mov dst src s =
     rbind (reg_clear dst s) (\<lambda>s.
     rbind (reg_val s src) (\<lambda>v.
     rbind (reg_set dst v s) (inc_val v)))"

definition op_push :: "'a store_scheme host \<Rightarrow> reg \<Rightarrow> 'a store_scheme st \<Rightarrow> 'a store_scheme st res" where
  "op_push H src s =
     rbind (print_reg H src s) (\<lambda>v. let (c, w) = s in
     rbind (cell_set (sp c + 1) v (c\<lparr>sp := sp c + 1\<rparr>, w)) (inc_val v))"

definition op_pop :: "reg \<Rightarrow> 'a store_scheme st \<Rightarrow> 'a store_scheme st res" where
  "op_pop dst s =
     rbind (reg_clear dst s) (\<lambda>s.
     rbind (val_at (fst s) (sp (fst s))) (\<lambda>v.
     rbind (reg_set dst v s) (\<lambda>(c, w). Inr (c\<lparr>sp := sp c - 1\<rparr>, w))))"

definition op_clear :: "reg \<Rightarrow> 'a store_scheme st \<Rightarrow> 'a store_scheme st res" where
  "op_clear r s = reg_clear r s"

definition op_true :: "reg \<Rightarrow> 'a store_scheme st \<Rightarrow> 'a store_scheme st res" where
  "op_true r s = reg_assign r (val_make_bool True) s"

definition op_load_int :: "reg \<Rightarrow> 32 word \<Rightarrow> 'a store_scheme st \<Rightarrow> 'a store_scheme st res" where
  "op_load_int r n s = reg_assign r (val_make_int n) s"

definition op_load_float :: "reg \<Rightarrow> 32 word \<Rightarrow> 'a store_scheme st \<Rightarrow> 'a store_scheme st res" where
  "op_load_float r f s = reg_assign r (val_make_float f) s"

definition op_load_string :: "'a store_scheme host \<Rightarrow> reg \<Rightarrow> byte list \<Rightarrow> 'a store_scheme st \<Rightarrow> 'a store_scheme st res" where
  "op_load_string H r str = (\<lambda>(c, w).
     rbind (val_make_string (of_nat (length str)) str (strs w)) (\<lambda>(v, h).
     rbind (val_print (h_fmt H) v h) (\<lambda>_. reg_assign r v (c, w\<lparr>strs := h\<rparr>))))"

definition op_type :: "reg \<Rightarrow> reg \<Rightarrow> 'a store_scheme st \<Rightarrow> 'a store_scheme st res" where
  "op_type dst src s =
     rbind (reg_clear dst s) (\<lambda>s.
     rbind (reg_val s src) (\<lambda>v. reg_set dst (val_make_int (of_nat (val_type v))) s))"

section \<open>Calls\<close>

definition drop_cell :: "int \<Rightarrow> cell \<Rightarrow> 'a store_scheme st \<Rightarrow> 'a store_scheme st res" where
  "drop_cell i x = (\<lambda>(c, w).
     rbind (val_at c i) (\<lambda>v.
     rbind (val_dec_ref v (strs w)) (\<lambda>h.
     rbind (cell_put i x c) (\<lambda>c. Inr (c, w\<lparr>strs := h\<rparr>)))))"

definition op_call :: "'a store_scheme host \<Rightarrow> byte \<Rightarrow> codeptr \<Rightarrow> 'a store_scheme st \<Rightarrow> (codeptr \<times> 'a store_scheme st) res" where
  "op_call H nargs ip = (\<lambda>(c, w).
     let base = sp c - int (unat nargs) in
     rbind (val_at c (base - 1)) (\<lambda>method_name.
     rbind (val_at c (base - 2)) (\<lambda>obj_ref.
     rbind (val_get_objref obj_ref) (\<lambda>oid.
     rbind (store_get_object (h_env H) (stx c) oid w) (\<lambda>(obj, w).
     case obj of
       None \<Rightarrow> Inl Assert_failed
     | Some lo \<Rightarrow>
         rbind (val_get_string_data method_name (strs w)) (\<lambda>name.
         rbind (eval_get_code_recursive H lo name (stx c) w) (\<lambda>((_, ccode), w).
         rbind (drop_cell (base - 2) (CFp (fp c)) (c, w)) (\<lambda>s.
         rbind (drop_cell (base - 1) (CCode ip) s) (\<lambda>s.
         rbind (drop_cell base (CObj (cur_obj c)) s) (\<lambda>(c, w).
           case ccode of
             None \<Rightarrow> Inl Null_deref
           | Some code \<Rightarrow> Inr ((code, 0), c\<lparr>cur_obj := Some lo, fp := base + 1\<rparr>, w)))))))))))"

text \<open>The loop of \<^verbatim>\<open>RETURN\<close> clears down to, and without, the cell at \<open>bottom\<close>.\<close>

function return_loop :: "int \<Rightarrow> 'a store_scheme st \<Rightarrow> 'a store_scheme st res" where
  "return_loop bottom (c, w) =
     (if sp c \<le> bottom then Inr (c, w)
      else rbind (cell_clear (sp c) (c, w)) (\<lambda>(c', w). return_loop bottom (c'\<lparr>sp := sp c - 1\<rparr>, w)))"
  by pat_completeness auto
termination by (relation "measure (\<lambda>(b, c, w). nat (sp c - b))") auto

declare return_loop.simps [simp del]

definition obj_at :: "'w eval_ctx \<Rightarrow> int \<Rightarrow> nat option res" where
  "obj_at c i = rbind (cell_get c i) (\<lambda>x. case x of CObj ob \<Rightarrow> Inr ob | Uninit \<Rightarrow> Inl Uninit_read | _ \<Rightarrow> Inl Wrong_member)"

definition code_at :: "'w eval_ctx \<Rightarrow> int \<Rightarrow> codeptr res" where
  "code_at c i = rbind (cell_get c i) (\<lambda>x. case x of CCode p \<Rightarrow> Inr p | Uninit \<Rightarrow> Inl Uninit_read | _ \<Rightarrow> Inl Wrong_member)"

definition se_at :: "'w eval_ctx \<Rightarrow> int \<Rightarrow> int res" where
  "se_at c i = rbind (cell_get c i) (\<lambda>x. case x of CFp f \<Rightarrow> Inr f | Uninit \<Rightarrow> Inl Uninit_read | _ \<Rightarrow> Inl Wrong_member)"

definition op_return :: "reg \<Rightarrow> 'a store_scheme st \<Rightarrow> (codeptr \<times> 'a store_scheme st) res" where
  "op_return r s =
     rbind (reg_val s r) (\<lambda>ret. let (c, w) = s; old_fp = fp c in
     rbind (obj_at c (old_fp - 1)) (\<lambda>ob.
     rbind (code_at c (old_fp - 2)) (\<lambda>ip.
     rbind (se_at c (old_fp - 3)) (\<lambda>f.
     rbind (cell_set (old_fp - 3) ret (c\<lparr>cur_obj := ob, fp := f\<rparr>, w)) (\<lambda>s.
     rbind (inc_val ret s) (\<lambda>s.
     rbind (return_loop (old_fp - 2) s) (\<lambda>s.
     rbind (cell_set (old_fp - 2) val_make_nil s) (\<lambda>s. Inr (ip, s)))))))))"

fun init_locals :: "nat \<Rightarrow> nat \<Rightarrow> 'w st \<Rightarrow> 'w st res" where
  "init_locals i 0 s = Inr s"
| "init_locals i (Suc n) s = rbind (cell_set (sp (fst s) + int i + 1) val_init s) (init_locals (Suc i) n)"

definition op_args_locals :: "byte \<Rightarrow> byte \<Rightarrow> 'w st \<Rightarrow> 'w st res" where
  "op_args_locals nargs nlocals s =
     rbind (init_locals 0 (unat nlocals) s) (\<lambda>(c, w). Inr (c\<lparr>sp := sp c + int (unat nlocals)\<rparr>, w))"

section \<open>Logic and comparison\<close>

text \<open>The handlers look at the types of their operands first, only to report a mismatch.\<close>

definition types_of :: "reg list \<Rightarrow> 'w st \<Rightarrow> unit res" where
  "types_of rs s = foldr (\<lambda>r k. rbind (reg_val s r) (\<lambda>_. k)) rs (Inr ())"

definition op_logical_and :: "reg \<Rightarrow> reg \<Rightarrow> reg \<Rightarrow> 'a store_scheme st \<Rightarrow> 'a store_scheme st res" where
  "op_logical_and dst a b s =
     rbind (types_of [a, b] s) (\<lambda>_.
     rbind (reg_clear dst s) (\<lambda>s.
     rbind (reg_val s a) (\<lambda>va. rbind (val_get_bool va) (\<lambda>x.
     rbind (if x then rbind (reg_val s b) val_get_bool else Inr False) (\<lambda>y.
       reg_set dst (val_make_bool y) s)))))"

definition op_logical_or :: "reg \<Rightarrow> reg \<Rightarrow> reg \<Rightarrow> 'a store_scheme st \<Rightarrow> 'a store_scheme st res" where
  "op_logical_or dst a b s =
     rbind (types_of [a, b] s) (\<lambda>_.
     rbind (reg_clear dst s) (\<lambda>s.
     rbind (reg_val s a) (\<lambda>va. rbind (val_get_bool va) (\<lambda>x.
     rbind (if x then Inr True else rbind (reg_val s b) val_get_bool) (\<lambda>y.
       reg_set dst (val_make_bool y) s)))))"

definition op_logical_not :: "reg \<Rightarrow> reg \<Rightarrow> 'a store_scheme st \<Rightarrow> 'a store_scheme st res" where
  "op_logical_not dst src s =
     rbind (types_of [src] s) (\<lambda>_.
     rbind (reg_clear dst s) (\<lambda>s.
     rbind (reg_val s src) (\<lambda>v. rbind (val_get_bool v) (\<lambda>x. reg_set dst (val_make_bool (\<not> x)) s))))"

text \<open>\<^verbatim>\<open>strncmp\<close> of the C library: the sign of the first difference within \<open>n\<close> bytes, up to a common
  zero byte.\<close>

fun strncmp :: "byte list \<Rightarrow> byte list \<Rightarrow> nat \<Rightarrow> int res" where
  "strncmp xs ys 0 = Inr 0"
| "strncmp (x # xs) (y # ys) (Suc n) =
     (if x < y then Inr (- 1) else if y < x then Inr 1 else if x = 0 then Inr 0 else strncmp xs ys n)"
| "strncmp _ _ (Suc n) = Inl Out_of_bounds"

definition string_of :: "val \<Rightarrow> 'a store_scheme st \<Rightarrow> (nat \<times> byte list) res" where
  "string_of v s =
     rbind (val_get_string_len v (strs (snd s))) (\<lambda>n.
     rbind (val_get_string_data v (strs (snd s))) (\<lambda>d. Inr (unat n, d)))"

definition eq_result :: "val \<Rightarrow> val \<Rightarrow> 'a store_scheme st \<Rightarrow> bool res" where
  "eq_result a b s =
     (if val_type a \<noteq> val_type b then Inr False
      else if val_type a = TYPE_NIL then Inr False
      else if val_type a = TYPE_INT then
        rbind (val_get_int a) (\<lambda>x. rbind (val_get_int b) (\<lambda>y. Inr (x = y)))
      else if val_type a = TYPE_BOOL then
        rbind (val_get_bool a) (\<lambda>x. rbind (val_get_bool b) (\<lambda>y. Inr (x = y)))
      else if val_type a = TYPE_STRING then
        rbind (string_of a s) (\<lambda>(n, x). rbind (string_of b s) (\<lambda>(m, y).
          if n = m then rbind (strncmp x y n) (\<lambda>r. Inr (r = 0)) else Inr False))
      else Inr False)"

text \<open>\<^verbatim>\<open>LE\<close> and \<^verbatim>\<open>LT\<close>: for strings, the result from the lengths is overwritten.\<close>

definition le_result :: "val \<Rightarrow> val \<Rightarrow> 'a store_scheme st \<Rightarrow> bool res" where
  "le_result a b s =
     (if val_type a = TYPE_INT then
        rbind (val_get_int a) (\<lambda>x. rbind (val_get_int b) (\<lambda>y. Inr (sint x \<le> sint y)))
      else if val_type a = TYPE_STRING then
        rbind (string_of a s) (\<lambda>(n, x). rbind (string_of b s) (\<lambda>(m, y).
          rbind (strncmp x y (if n < m then n else m)) (\<lambda>cmp.
            let result = (if cmp = 0 then n \<le> m else False); result = (cmp \<le> 0) in Inr result)))
      else Inr False)"

definition lt_result :: "val \<Rightarrow> val \<Rightarrow> 'a store_scheme st \<Rightarrow> bool res" where
  "lt_result a b s =
     (if val_type a = TYPE_INT then
        rbind (val_get_int a) (\<lambda>x. rbind (val_get_int b) (\<lambda>y. Inr (sint x < sint y)))
      else if val_type a = TYPE_STRING then
        rbind (string_of a s) (\<lambda>(n, x). rbind (string_of b s) (\<lambda>(m, y).
          rbind (strncmp x y (if n < m then n else m)) (\<lambda>cmp.
            let result = (if cmp = 0 then n < m else False); result = (cmp < 0) in Inr result)))
      else Inr False)"

text \<open>The common shape of the three: the target is cleared before the operands are compared.\<close>

definition compare_op ::
  "(val \<Rightarrow> val \<Rightarrow> 'a store_scheme st \<Rightarrow> bool res) \<Rightarrow> reg \<Rightarrow> reg \<Rightarrow> reg \<Rightarrow> 'a store_scheme st \<Rightarrow> 'a store_scheme st res" where
  "compare_op f dst a b s =
     rbind (reg_clear dst s) (\<lambda>s.
     rbind (reg_val s a) (\<lambda>x. rbind (reg_val s b) (\<lambda>y.
     rbind (f x y s) (\<lambda>r. reg_set dst (val_make_bool r) s))))"

definition op_eq :: "reg \<Rightarrow> reg \<Rightarrow> reg \<Rightarrow> 'a store_scheme st \<Rightarrow> 'a store_scheme st res" where
  "op_eq dst a b s = compare_op eq_result dst a b s"

definition op_le :: "reg \<Rightarrow> reg \<Rightarrow> reg \<Rightarrow> 'a store_scheme st \<Rightarrow> 'a store_scheme st res" where
  "op_le dst a b s = rbind (types_of [a, b] s) (\<lambda>_. compare_op le_result dst a b s)"

definition op_lt :: "reg \<Rightarrow> reg \<Rightarrow> reg \<Rightarrow> 'a store_scheme st \<Rightarrow> 'a store_scheme st res" where
  "op_lt dst a b s = rbind (types_of [a, b] s) (\<lambda>_. compare_op lt_result dst a b s)"

section \<open>Arithmetic\<close>

text \<open>An operation on \<^verbatim>\<open>int\<close>: a result that does not fit is undefined.\<close>

definition int_op :: "(int \<Rightarrow> int \<Rightarrow> int) \<Rightarrow> 32 word \<Rightarrow> 32 word \<Rightarrow> 32 word res" where
  "int_op f a b =
     (let r = f (sint a) (sint b) in
      if - (2 ^ 31) \<le> r \<and> r < 2 ^ 31 then Inr (word_of_int r) else Inl Signed_overflow)"

definition arith_op ::
  "(int \<Rightarrow> int \<Rightarrow> int) \<Rightarrow> (32 word \<Rightarrow> 32 word \<Rightarrow> 32 word) \<Rightarrow> reg \<Rightarrow> reg \<Rightarrow> reg \<Rightarrow> 'a store_scheme st \<Rightarrow> 'a store_scheme st res" where
  "arith_op f g dst a b s =
     rbind (reg_val s a) (\<lambda>va. rbind (reg_val s b) (\<lambda>vb.
       if val_type va = TYPE_INT then
         rbind (val_get_int va) (\<lambda>x. rbind (val_get_int vb) (\<lambda>y.
         rbind (int_op f x y) (\<lambda>r. reg_assign dst (val_make_int r) s)))
       else if val_type va = TYPE_FLOAT then
         rbind (val_get_float va) (\<lambda>x. rbind (val_get_float vb) (\<lambda>y. reg_assign dst (val_make_float (g x y)) s))
       else Inr s))"

definition op_add :: "'a store_scheme host \<Rightarrow> reg \<Rightarrow> reg \<Rightarrow> reg \<Rightarrow> 'a store_scheme st \<Rightarrow> 'a store_scheme st res" where
  "op_add H dst a b s = arith_op (+) (h_add H) dst a b s"

definition op_sub :: "'a store_scheme host \<Rightarrow> reg \<Rightarrow> reg \<Rightarrow> reg \<Rightarrow> 'a store_scheme st \<Rightarrow> 'a store_scheme st res" where
  "op_sub H dst a b s = arith_op (-) (h_sub H) dst a b s"

definition op_mul :: "'a store_scheme host \<Rightarrow> reg \<Rightarrow> reg \<Rightarrow> reg \<Rightarrow> 'a store_scheme st \<Rightarrow> 'a store_scheme st res" where
  "op_mul H dst a b s = arith_op (*) (h_mul H) dst a b s"

section \<open>Jumps\<close>

definition jump_to :: "32 word \<Rightarrow> codeptr \<Rightarrow> codeptr" where
  "jump_to rel ip = (fst ip, snd ip + sint rel)"

definition jump_cond :: "reg \<Rightarrow> 'w st \<Rightarrow> bool res" where
  "jump_cond r s = rbind (reg_val s r) (\<lambda>v. if val_type v = TYPE_BOOL then val_get_bool v else Inr False)"

section \<open>Strings\<close>

definition op_length :: "reg \<Rightarrow> reg \<Rightarrow> 'a store_scheme st \<Rightarrow> 'a store_scheme st res" where
  "op_length dst src s =
     rbind (reg_val s src) (\<lambda>v.
       if val_type v = TYPE_STRING then
         rbind (reg_clear dst s) (\<lambda>s.
         rbind (reg_val s src) (\<lambda>v.
         rbind (val_get_string_len v (strs (snd s))) (\<lambda>n. reg_set dst (val_make_int (ucast n)) s)))
       else Inr s)"

text \<open>The sum of the two lengths is passed as a 16 bit length.\<close>

definition op_concat :: "reg \<Rightarrow> reg \<Rightarrow> reg \<Rightarrow> 'a store_scheme st \<Rightarrow> 'a store_scheme st res" where
  "op_concat dst a b s =
     rbind (reg_val s a) (\<lambda>va. rbind (if val_type va = TYPE_STRING then
         rbind (reg_val s b) (\<lambda>vb. Inr (val_type vb = TYPE_STRING)) else Inr False) (\<lambda>ok.
       if ok then
         rbind (reg_clear dst s) (\<lambda>s.
         rbind (reg_val s a) (\<lambda>va. rbind (string_of va s) (\<lambda>(n, x).
         rbind (reg_val s b) (\<lambda>vb. rbind (string_of vb s) (\<lambda>(m, y).
         rbind (val_make_string (of_nat (n + m)) (take n x @ take m y) (strs (snd s))) (\<lambda>(v, h).
           reg_set dst v (fst s, (snd s)\<lparr>strs := h\<rparr>)))))))
       else Inr s))"

section \<open>System calls\<close>

fun find_syscall :: "nat \<Rightarrow> cstring \<Rightarrow> 'w syscall_entry list \<Rightarrow> 'w syscall_entry option" where
  "find_syscall n name [] = None"
| "find_syscall n name (e # es) = (if se_arity e = n \<and> se_name e = name then Some e else find_syscall n name es)"

fun drop_args :: "nat \<Rightarrow> 'a store_scheme st \<Rightarrow> 'a store_scheme st res" where
  "drop_args 0 s = Inr s"
| "drop_args (Suc n) s =
     rbind (cell_clear (sp (fst s)) s) (\<lambda>(c, w). drop_args n (c\<lparr>sp := sp c - 1\<rparr>, w))"

text \<open>The arguments as the call evaluates them, and the call; other arities are only reported.\<close>

fun vals_at :: "'w eval_ctx \<Rightarrow> int list \<Rightarrow> val list res" where
  "vals_at c [] = Inr []"
| "vals_at c (i # is) = rbind (val_at c i) (\<lambda>v. rbind (vals_at c is) (\<lambda>vs. Inr (v # vs)))"

definition syscall_args :: "nat \<Rightarrow> int list" where
  "syscall_args n = (if n = 0 then [] else if n = 1 then [0] else if n = 2 then [- 1, 0]
     else if n = 3 then [- 2, - 1, 0] else [])"

definition invoke_syscall :: "'w syscall_table \<Rightarrow> 'w syscall_entry \<Rightarrow> nat \<Rightarrow> 'w st \<Rightarrow> 'w st res" where
  "invoke_syscall t e n = (\<lambda>(c, w).
     if n \<le> 3 then
       rbind (vals_at c (map (\<lambda>i. sp c + i) (syscall_args n))) (\<lambda>vs.
       rbind (se_func e (st_ctx t) vs w) (\<lambda>(_, w). Inr (c, w)))
     else Inr (c, w))"

definition op_syscall :: "byte \<Rightarrow> 'a store_scheme st \<Rightarrow> 'a store_scheme st res" where
  "op_syscall nargs s =
     (let n = unat nargs; (c, w) = s in
      rbind (val_at c (sp c - int n)) (\<lambda>name.
        if val_type name = TYPE_STRING then
          rbind (string_of name s) (\<lambda>(len, d).
          case ev_syscalls c of
            None \<Rightarrow> Inl Null_deref
          | Some t \<Rightarrow>
              rbind (case find_syscall n (cstr (take len d)) (syscalls t) of
                       Some e \<Rightarrow> invoke_syscall t e n s
                     | None \<Rightarrow> Inr s) (\<lambda>s. drop_args (n + 1) s))
        else Inr s))"

section \<open>Objects\<close>

definition cur_object :: "'a store_scheme st \<Rightarrow> (nat \<times> object) res" where
  "cur_object = (\<lambda>(c, w). case cur_obj c of
     None \<Rightarrow> Inl Null_deref
   | Some lo \<Rightarrow> rbind (lobject_get_object lo (heap w)) (\<lambda>p. case p of
       None \<Rightarrow> Inl Null_deref
     | Some a \<Rightarrow> rbind (heap_get (objs (heap w)) a) (\<lambda>ob. Inr (a, ob))))"

definition name_of :: "reg \<Rightarrow> 'a store_scheme st \<Rightarrow> byte list res" where
  "name_of r s = rbind (reg_val s r) (\<lambda>v. val_get_string_data v (strs (snd s)))"

definition op_getglobal :: "reg \<Rightarrow> reg \<Rightarrow> 'a store_scheme st \<Rightarrow> 'a store_scheme st res" where
  "op_getglobal dst name s =
     rbind (cur_object s) (\<lambda>(_, ob).
     rbind (name_of name s) (\<lambda>n.
     rbind (obj_get_global ob n (strs (snd s))) (\<lambda>(v, h).
       reg_assign dst v (fst s, (snd s)\<lparr>strs := h\<rparr>))))"

text \<open>The result is \<open>None\<close> when the lock could not be had and the task is to be retried.\<close>

definition op_setglobal :: "'a store_scheme host \<Rightarrow> reg \<Rightarrow> reg \<Rightarrow> 'a store_scheme st \<Rightarrow> (bool \<times> 'a store_scheme st) res" where
  "op_setglobal H name rval s =
     rbind (cur_object s) (\<lambda>_. let (c, w) = s in
     case cur_obj c of None \<Rightarrow> Inl Null_deref | Some lo \<Rightarrow>
     rbind (lobj_lock lo (heap w)) (\<lambda>l.
     rbind (lock_lock (h_env H) l LOCK_EXCLUSIVE (stx c) w) (\<lambda>(r, w).
       if r \<noteq> LOCK_TAKEN then Inr (False, c, w)
       else
         rbind (cur_object (c, w)) (\<lambda>(a, _).
         rbind (name_of name (c, w)) (\<lambda>n.
         rbind (reg_val (c, w) rval) (\<lambda>v.
         rbind (set_global_at a n v (heap w, strs w)) (\<lambda>(h, sh).
           Inr (True, c, w\<lparr>heap := h, strs := sh\<rparr>))))))))"

definition op_make_obj :: "'a store_scheme host \<Rightarrow> reg \<Rightarrow> reg \<Rightarrow> 'a store_scheme st \<Rightarrow> 'a store_scheme st res" where
  "op_make_obj H new_ref parent_ref s =
     rbind (reg_val s parent_ref) (\<lambda>v. rbind (val_get_objref v) (\<lambda>pid. let (c, w) = s in
     rbind (store_make_object (h_env H) (stx c) pid w) (\<lambda>(lo, w).
     rbind (reg_clear new_ref (c, w)) (\<lambda>(c, w).
     rbind (lobj_id lo (heap w)) (\<lambda>i.
     rbind (val_make_objref i) (\<lambda>v. reg_set new_ref v (c, w)))))))"

definition op_self :: "reg \<Rightarrow> 'a store_scheme st \<Rightarrow> 'a store_scheme st res" where
  "op_self dst s =
     rbind (reg_clear dst s) (\<lambda>s.
     rbind (cur_object s) (\<lambda>(_, ob).
     rbind (val_make_objref (obj_get_id ob)) (\<lambda>v. reg_set dst v s)))"

definition op_parent :: "reg \<Rightarrow> 'a store_scheme st \<Rightarrow> 'a store_scheme st res" where
  "op_parent dst s =
     rbind (reg_clear dst s) (\<lambda>s.
     rbind (cur_object s) (\<lambda>(_, ob).
       if 0 < obj_get_parent_count ob then
         rbind (obj_get_parent ob 0) (\<lambda>pid. rbind (val_make_objref pid) (\<lambda>v. reg_set dst v s))
       else Inr s))"

section \<open>The machine\<close>

definition EVAL_OK :: nat where "EVAL_OK = 0"
definition EVAL_RETRY_TX :: nat where "EVAL_RETRY_TX = 1"

datatype transfer = Next codeptr | Stop nat

definition go :: "codeptr \<Rightarrow> 'w st res \<Rightarrow> (transfer \<times> 'w st) res" where
  "go ip m = rbind m (\<lambda>s. Inr (Next ip, s))"

definition go_to :: "(codeptr \<times> 'w st) res \<Rightarrow> (transfer \<times> 'w st) res" where
  "go_to m = rbind m (\<lambda>(ip, s). Inr (Next ip, s))"

text \<open>\<open>ip\<close> is the code pointer behind the instruction.\<close>

fun exec_instr :: "'a store_scheme host \<Rightarrow> instr \<Rightarrow> codeptr \<Rightarrow> 'a store_scheme st \<Rightarrow> (transfer \<times> 'a store_scheme st) res" where
  "exec_instr H NOOP ip s = Inr (Next ip, s)"
| "exec_instr H HALT ip s = rbind (op_halt s) (\<lambda>s. Inr (Stop EVAL_OK, s))"
| "exec_instr H (DEBUGI n) ip s = go ip (op_debugi n s)"
| "exec_instr H (DEBUGR r) ip s = go ip (op_debugr H r s)"
| "exec_instr H (MOV d r) ip s = go ip (op_mov d r s)"
| "exec_instr H (PUSH r) ip s = go ip (op_push H r s)"
| "exec_instr H (POP r) ip s = go ip (op_pop r s)"
| "exec_instr H (CALL n) ip s = go_to (op_call H n ip s)"
| "exec_instr H (RETURN r) ip s = go_to (op_return r s)"
| "exec_instr H (ARGS_LOCALS n m) ip s = go ip (op_args_locals n m s)"
| "exec_instr H (CLEAR r) ip s = go ip (op_clear r s)"
| "exec_instr H (TRUE r) ip s = go ip (op_true r s)"
| "exec_instr H (LOAD_INT r n) ip s = go ip (op_load_int r n s)"
| "exec_instr H (LOAD_FLOAT r f) ip s = go ip (op_load_float r f s)"
| "exec_instr H (LOAD_STRING r str) ip s = go ip (op_load_string H r str s)"
| "exec_instr H (TYPE_OF d r) ip s = go ip (op_type d r s)"
| "exec_instr H (LOGICAL_AND d a b) ip s = go ip (op_logical_and d a b s)"
| "exec_instr H (LOGICAL_OR d a b) ip s = go ip (op_logical_or d a b s)"
| "exec_instr H (LOGICAL_NOT d a) ip s = go ip (op_logical_not d a s)"
| "exec_instr H (EQ d a b) ip s = go ip (op_eq d a b s)"
| "exec_instr H (LE d a b) ip s = go ip (op_le d a b s)"
| "exec_instr H (LT d a b) ip s = go ip (op_lt d a b s)"
| "exec_instr H (ADD d a b) ip s = go ip (op_add H d a b s)"
| "exec_instr H (SUB d a b) ip s = go ip (op_sub H d a b s)"
| "exec_instr H (MUL d a b) ip s = go ip (op_mul H d a b s)"
| "exec_instr H DIV ip s = Inr (Next ip, s)"
| "exec_instr H MOD ip s = Inr (Next ip, s)"
| "exec_instr H (JUMP n) ip s = Inr (Next (jump_to n ip), s)"
| "exec_instr H (JUMP_IF r n) ip s =
     rbind (jump_cond r s) (\<lambda>b. Inr (Next (if b then jump_to n ip else ip), s))"
| "exec_instr H JUMP_EQ ip s = Inr (Next ip, s)"
| "exec_instr H JUMP_NE ip s = Inr (Next ip, s)"
| "exec_instr H JUMP_LE ip s = Inr (Next ip, s)"
| "exec_instr H JUMP_LT ip s = Inr (Next ip, s)"
| "exec_instr H (SYSCALL n) ip s = go ip (op_syscall n s)"
| "exec_instr H (LENGTH_OF d r) ip s = go ip (op_length d r s)"
| "exec_instr H (CONCAT d a b) ip s = go ip (op_concat d a b s)"
| "exec_instr H (GETGLOBAL d n) ip s = go ip (op_getglobal d n s)"
| "exec_instr H (SETGLOBAL n v) ip s =
     rbind (op_setglobal H n v s) (\<lambda>(ok, s). Inr (if ok then Next ip else Stop EVAL_RETRY_TX, s))"
| "exec_instr H (MAKE_OBJ d p) ip s = go ip (op_make_obj H d p s)"
| "exec_instr H (SELF r) ip s = go ip (op_self r s)"
| "exec_instr H (PARENT r) ip s = go ip (op_parent r s)"
| "exec_instr H (USLEEP n) ip s = Inr (Next ip, s)"

definition eval_step :: "'a store_scheme host \<Rightarrow> codeptr \<Rightarrow> 'a store_scheme st \<Rightarrow> (transfer \<times> 'a store_scheme st) res" where
  "eval_step H ip s = rbind (fetch ip) (\<lambda>(i, ip). exec_instr H i ip s)"

text \<open>A run of at most so many instructions; \<open>None\<close> when it has not ended by then.\<close>

fun eval_run :: "'a store_scheme host \<Rightarrow> nat \<Rightarrow> codeptr \<Rightarrow> 'a store_scheme st \<Rightarrow> (nat \<times> 'a store_scheme st) res option" where
  "eval_run H 0 ip s = None"
| "eval_run H (Suc n) ip s =
     (case eval_step H ip s of
        Inl f \<Rightarrow> Some (Inl f)
      | Inr (Stop r, s) \<Rightarrow> Some (Inr (r, s))
      | Inr (Next ip, s) \<Rightarrow> eval_run H n ip s)"

definition eval_exec :: "'a store_scheme host \<Rightarrow> nat \<Rightarrow> opcode list \<Rightarrow> 'a store_scheme st \<Rightarrow> (nat \<times> 'a store_scheme st) res option" where
  "eval_exec H n code s = eval_run H n (code, 0) s"

definition eval_push_arg :: "val \<Rightarrow> 'a store_scheme st \<Rightarrow> 'a store_scheme st res" where
  "eval_push_arg v s =
     rbind (inc_val v s) (\<lambda>(c, w). cell_set (sp c + 1) v (c\<lparr>sp := sp c + 1\<rparr>, w))"

fun push_args :: "val list \<Rightarrow> 'a store_scheme st \<Rightarrow> 'a store_scheme st res" where
  "push_args [] s = Inr s"
| "push_args (v # vs) s = rbind (eval_push_arg v s) (push_args vs)"

definition eval_exec_method ::
  "'a store_scheme host \<Rightarrow> nat \<Rightarrow> nat \<Rightarrow> val \<Rightarrow> val list \<Rightarrow> 'a store_scheme st \<Rightarrow> (nat \<times> 'a store_scheme st) res option" where
  "eval_exec_method H n obj method args s =
     (case rbind (push_args args s) (\<lambda>(c, w).
           rbind (val_get_string_data method (strs w)) (\<lambda>name.
           rbind (eval_get_code_recursive H obj name (stx c) w) (\<lambda>(found, w). Inr (found, c, w)))) of
        Inl f \<Rightarrow> Some (Inl f)
      | Inr ((ret, code), c, w) \<Rightarrow>
          if ret \<noteq> 0 then (case code of
             None \<Rightarrow> Some (Inl Null_deref)
           | Some code \<Rightarrow> eval_exec H n code (c\<lparr>cur_obj := Some obj\<rparr>, w))
          else (case lobj_id obj (heap w) of
             Inl f \<Rightarrow> Some (Inl f)
           | Inr _ \<Rightarrow> Some (Inr (2, c, w))))"

section \<open>The system call table\<close>

definition syscall_table_new :: "'w syscall_table" where
  "syscall_table_new = \<lparr>syscalls = [], st_ctx = None\<rparr>"

definition eval_get_syscall_table :: "'w eval_ctx \<Rightarrow> 'w syscall_table option" where
  "eval_get_syscall_table c = ev_syscalls c"

definition eval_set_syscall_table :: "'w syscall_table \<Rightarrow> 'w eval_ctx \<Rightarrow> 'w eval_ctx" where
  "eval_set_syscall_table t c = c\<lparr>ev_syscalls := Some t\<rparr>"

definition syscall_table_set_ctx :: "nat option \<Rightarrow> 'w syscall_table \<Rightarrow> 'w syscall_table" where
  "syscall_table_set_ctx p t = t\<lparr>st_ctx := p\<rparr>"

definition syscall_table_add :: "nat \<Rightarrow> byte list \<Rightarrow> (nat option \<Rightarrow> val list \<Rightarrow> 'w \<Rightarrow> (val \<times> 'w) res) \<Rightarrow>
    'w syscall_table \<Rightarrow> 'w syscall_table" where
  "syscall_table_add n name f t =
     t\<lparr>syscalls := \<lparr>se_arity = n, se_name = cstr name, se_func = f\<rparr> # syscalls t\<rparr>"

definition syscall_table_add_a0 :: "byte list \<Rightarrow> (nat option \<Rightarrow> 'w \<Rightarrow> (val \<times> 'w) res) \<Rightarrow> 'w syscall_table \<Rightarrow> 'w syscall_table" where
  "syscall_table_add_a0 name f = syscall_table_add 0 name (\<lambda>p vs. f p)"

definition syscall_table_add_a1 :: "byte list \<Rightarrow> (nat option \<Rightarrow> val \<Rightarrow> 'w \<Rightarrow> (val \<times> 'w) res) \<Rightarrow> 'w syscall_table \<Rightarrow> 'w syscall_table" where
  "syscall_table_add_a1 name f = syscall_table_add 1 name (\<lambda>p vs. f p (vs ! 0))"

definition syscall_table_add_a2 :: "byte list \<Rightarrow> (nat option \<Rightarrow> val \<Rightarrow> val \<Rightarrow> 'w \<Rightarrow> (val \<times> 'w) res) \<Rightarrow> 'w syscall_table \<Rightarrow> 'w syscall_table" where
  "syscall_table_add_a2 name f = syscall_table_add 2 name (\<lambda>p vs. f p (vs ! 0) (vs ! 1))"

definition syscall_table_add_a3 :: "byte list \<Rightarrow> (nat option \<Rightarrow> val \<Rightarrow> val \<Rightarrow> val \<Rightarrow> 'w \<Rightarrow> (val \<times> 'w) res) \<Rightarrow> 'w syscall_table \<Rightarrow> 'w syscall_table" where
  "syscall_table_add_a3 name f = syscall_table_add 3 name (\<lambda>p vs. f p (vs ! 0) (vs ! 1) (vs ! 2))"

end
