(* ===== verification/Cmoo_Store_Lemmas.thy ===== *)
theory Cmoo_Store_Lemmas
  imports Cmoo_Store
begin

text \<open>
  What the operations of the store leave alone, and what they need. \<open>quiet\<close> is the assumption about
  the other threads: while a call waits for its lock they leave the strings and the objects alone.
\<close>

section \<open>Strings and objects\<close>

definition same_data :: "'a store_scheme \<Rightarrow> 'a store_scheme \<Rightarrow> bool" where
  "same_data w w' \<longleftrightarrow> strs w' = strs w \<and> objs (heap w') = objs (heap w)"

definition quiet :: "('a store_scheme \<Rightarrow> 'a store_scheme option) \<Rightarrow> bool" where
  "quiet env \<longleftrightarrow> (\<forall>w w'. env w = Some w' \<longrightarrow> same_data w w')"

lemma quiet_alone [simp]: "quiet (\<lambda>_. None)"
  by (simp add: quiet_def)

lemma same_data_refl [simp]: "same_data w w"
  by (simp add: same_data_def)

lemma same_data_trans: "same_data w w1 \<Longrightarrow> same_data w1 w2 \<Longrightarrow> same_data w w2"
  by (simp add: same_data_def)

lemma same_data_upd [simp]:
  "same_data w (w\<lparr>lks := s\<rparr>)" "same_data w (w\<lparr>s_cache := c\<rparr>)"
  "same_data w (w\<lparr>s_cache := c, heap := h\<rparr>) \<longleftrightarrow> objs h = objs (heap w)"
  "same_data w (w\<lparr>lks := s, heap := h, s_cache := c\<rparr>) \<longleftrightarrow> objs h = objs (heap w)"
  "same_data w (w\<lparr>lks := s, s_cache := c, heap := h\<rparr>) \<longleftrightarrow> objs h = objs (heap w)"
  by (simp_all add: same_data_def)

lemma lobject_upd_objs: "lobject_upd lo f h = Inr h' \<Longrightarrow> objs h' = objs h"
  by (auto simp: res_simps)

lemma cache_get_objs: "cache_get_object i (c, h) = Inr (r, c', h') \<Longrightarrow> objs h' = objs h"
  by (auto simp: cache_get_object_def res_simps lobject_pin_def dest: lobject_upd_objs split: option.splits)

lemma cache_put_objs: "cache_put_object lo (c, h) = Inr (c', h') \<Longrightarrow> objs h' = objs h"
  by (auto simp: cache_put_object_def res_simps lobject_pin_def Let_def dest: lobject_upd_objs)

lemma cache_release_objs: "cache_release_object lo (c, h) = Inr (c', h') \<Longrightarrow> objs h' = objs h"
  by (auto simp: cache_release_object_def res_simps lobject_unpin_def Let_def
      dest: lobject_upd_objs split: option.splits)

lemma wrap_object_same: "wrap_object a w = Inr (lo, w') \<Longrightarrow> same_data w w'"
  by (auto simp: wrap_object_def res_simps lobject_new_def lobject_set_object_def lobject_set_lock_def
      dest!: lobject_upd_objs cache_put_objs split: prod.splits)

lemma find_cached_same: "find_cached oid w = Inr (lo, w') \<Longrightarrow> same_data w w'"
  by (auto simp: find_cached_def res_simps Let_def dest!: cache_get_objs wrap_object_same
      intro: same_data_trans [rotated] split: option.splits)

lemma tx_note_locked_same: "tx_note_locked tx lo w = Inr w' \<Longrightarrow> same_data w w'"
  by (auto simp: tx_note_locked_def res_simps)

lemma outcome_eq_Inr:
  "(case r of Returned c \<Rightarrow> Inr (f c) | Waiting g \<Rightarrow> Inl b | Joined g \<Rightarrow> Inl b) = (Inr x :: 'b res) \<longleftrightarrow>
     (\<exists>c. r = Returned c \<and> f c = x)"
  by (cases r) auto

lemma lock_lock_same:
  assumes "lock_lock env l m tx w = Inr (c, w')" "quiet env"
  shows "same_data w w'"
proof -
  obtain r s where e: "lock_enter l m tx (lks w) = Inr (r, s)"
    using assms(1) by (auto simp: lock_lock_def elim: rbind_InrE)
  have q: "same_data w (w1\<lparr>lks := s1\<rparr>)" if "env (w\<lparr>lks := s\<rparr>) = Some w1" for w1 s1
  proof -
    have "same_data (w\<lparr>lks := s\<rparr>) w1" using assms(2) that unfolding quiet_def by blast
    then show ?thesis by (simp add: same_data_def)
  qed
  show ?thesis
  proof (cases r)
    case (Returned c1)
    then show ?thesis using assms(1) e by (auto simp: lock_lock_def)
  qed (use assms(1) e q in \<open>auto simp: lock_lock_def res_simps outcome_eq_Inr split: option.splits\<close>)
qed

lemma store_get_object_same:
  assumes "store_get_object env tx oid w = Inr (r, w')" "quiet env"
  shows "same_data w w'"
proof -
  obtain lo w1 l c w2 where m: "find_cached oid w = Inr (lo, w1)" "lock_lock env l LOCK_SHARED tx w1 = Inr (c, w2)"
    and w': "w' = w2 \<or> tx_note_locked tx lo w2 = Inr w'"
    using assms(1) by (auto simp: store_get_object_def res_simps split: if_splits)
  have "same_data w w2" using find_cached_same [OF m(1)] lock_lock_same [OF m(2) assms(2)] by (rule same_data_trans)
  then show ?thesis using w' tx_note_locked_same same_data_trans by blast
qed

lemma store_make_object_same:
  assumes "store_make_object env tx pid w = Inr (lo, w')" "quiet env"
  obtains ob where "strs w' = strs w" "objs (heap w') = objs (heap w) @ [Some ob]" "globals ob = []"
proof -
  let ?ob = "obj_add_parent pid (obj_set_id (of_int (alloc_id w)) obj_new)"
  let ?w0 = "w\<lparr>alloc_id := alloc_id w + 1, heap := (heap w)\<lparr>objs := objs (heap w) @ [Some ?ob]\<rparr>\<rparr>"
  obtain w1 l c w2 where m: "wrap_object (length (objs (heap w))) ?w0 = Inr (lo, w1)"
      "lock_lock env l LOCK_EXCLUSIVE tx w1 = Inr (c, w2)" "tx_note_locked tx lo w2 = Inr w'"
    using assms(1) by (auto simp: store_make_object_def res_simps Let_def split: if_splits)
  have "same_data ?w0 w'"
    using wrap_object_same [OF m(1)] lock_lock_same [OF m(2) assms(2)] tx_note_locked_same [OF m(3)]
    by (blast intro: same_data_trans)
  then show ?thesis using that [of ?ob]
    by (simp add: same_data_def obj_add_parent_def obj_set_id_def obj_new_def)
qed

end
