(* ===== verification/Cmoo_Eval_Refs.thy ===== *)
theory Cmoo_Eval_Refs
  imports Cmoo_Eval Cmoo_Store_Lemmas
begin

text \<open>
  Reference counts in the virtual machine: the references of a state are the values in the used
  part of the stack, the globals of all objects, and those held elsewhere (\<open>M\<close>). The instructions
  that work on registers, executed with registers inside the used stack, keep all counts exact.
\<close>

section \<open>The references of a state\<close>

fun cell_refs :: "cell \<Rightarrow> val multiset" where
  "cell_refs (CVal v) = {#v#}"
| "cell_refs _ = {#}"

definition used :: "'w eval_ctx \<Rightarrow> cell list" where
  "used c = take (nat (sp c)) (tl (stack c))"

definition stack_refs :: "'w eval_ctx \<Rightarrow> val multiset" where
  "stack_refs c = sum_list (map cell_refs (used c))"

definition object_refs :: "oheap \<Rightarrow> val multiset" where
  "object_refs h = sum_list (map (\<lambda>p. case p of None \<Rightarrow> {#} | Some ob \<Rightarrow> global_refs ob) (objs h))"

definition all_refs :: "'a store_scheme st \<Rightarrow> val multiset" where
  "all_refs s = stack_refs (fst s) + object_refs (heap (snd s))"

definition counted :: "'a store_scheme st \<Rightarrow> val multiset \<Rightarrow> bool" where
  "counted s M \<longleftrightarrow> refs_ok (strs (snd s)) (all_refs s + M)"

text \<open>No value is referenced so often that the 16 bit count could wrap.\<close>

definition few_refs :: "'a store_scheme st \<Rightarrow> val multiset \<Rightarrow> bool" where
  "few_refs s M \<longleftrightarrow> (\<forall>v. val_type v = TYPE_STRING \<longrightarrow> count (all_refs s + M) v < 65535)"

definition ctx_ok :: "'w eval_ctx \<Rightarrow> bool" where
  "ctx_ok c \<longleftrightarrow> length (stack c) = INITIAL_STACK_SIZE \<and> 0 \<le> sp c \<and> sp c < int INITIAL_STACK_SIZE"

definition in_use :: "'w eval_ctx \<Rightarrow> int \<Rightarrow> bool" where
  "in_use c i \<longleftrightarrow> 1 \<le> i \<and> i \<le> sp c"

definition no_string :: "cell \<Rightarrow> bool" where
  "no_string x \<longleftrightarrow> (case x of CVal v \<Rightarrow> val_type v \<noteq> TYPE_STRING | _ \<Rightarrow> True)"

lemma refs_ok_no_string: "no_string x \<Longrightarrow> refs_ok h (M + cell_refs x) \<longleftrightarrow> refs_ok h M"
  by (cases x) (simp_all add: no_string_def refs_ok_nonstring)

section \<open>Changing one cell\<close>

lemma sum_list_cells_upd:
  "k < length xs \<Longrightarrow> sum_list (map cell_refs (xs[k := x])) + cell_refs (xs ! k) = sum_list (map cell_refs xs) + cell_refs x"
  by (induction xs arbitrary: k) (auto simp: nth_Cons' gr0_conv_Suc add.assoc add.left_commute split: nat.splits)

lemma used_upd:
  assumes "in_use c i" "ctx_ok c"
  shows "used (c\<lparr>stack := (stack c)[nat i := x]\<rparr>) = (used c)[nat i - 1 := x]"
    and "nat i - 1 < length (used c)" and "used c ! (nat i - 1) = stack c ! nat i"
proof -
  have i: "0 < nat i" "nat i \<le> nat (sp c)" "nat (sp c) < length (stack c)"
    using assms by (auto simp: in_use_def ctx_ok_def INITIAL_STACK_SIZE_def)
  obtain a as where st: "stack c = a # as" using i by (cases "stack c") auto
  obtain k where k: "nat i = Suc k" using i(1) gr0_conv_Suc by blast
  show "used (c\<lparr>stack := (stack c)[nat i := x]\<rparr>) = (used c)[nat i - 1 := x]"
    using i by (simp add: used_def st k take_update_swap)
  show "nat i - 1 < length (used c)" "used c ! (nat i - 1) = stack c ! nat i"
    using i by (simp_all add: used_def st k)
qed

lemma stack_refs_upd:
  assumes "in_use c i" "ctx_ok c"
  shows "stack_refs (c\<lparr>stack := (stack c)[nat i := x]\<rparr>) + cell_refs (stack c ! nat i) = stack_refs c + cell_refs x"
  using sum_list_cells_upd [OF used_upd(2) [OF assms], of x]
  unfolding stack_refs_def used_upd(1) [OF assms] used_upd(3) [OF assms] .

lemma cell_put_in_use:
  assumes "cell_put i x c = Inr c'" "in_use c i" "ctx_ok c"
  shows "c' = c\<lparr>stack := (stack c)[nat i := x]\<rparr>" "ctx_ok c'" "sp c' = sp c" "fp c' = fp c"
  using assms by (auto simp: cell_put_def ctx_ok_def split: if_splits)

lemma cell_get_upd:
  "ctx_ok c \<Longrightarrow> in_use c i \<Longrightarrow> cell_get (c\<lparr>stack := (stack c)[nat i := x]\<rparr>) j = (if j = i then Inr x else cell_get c j)"
  by (auto simp: cell_get_def ctx_ok_def in_use_def nth_list_update INITIAL_STACK_SIZE_def)

lemma cell_get_in_use:
  "ctx_ok c \<Longrightarrow> in_use c i \<Longrightarrow> cell_get c i = Inr (stack c ! nat i)"
  by (auto simp: cell_get_def ctx_ok_def in_use_def INITIAL_STACK_SIZE_def)

text \<open>The frame condition of the register operations.\<close>

definition same_frame :: "'a store_scheme st \<Rightarrow> 'a store_scheme st \<Rightarrow> bool" where
  "same_frame s s' \<longleftrightarrow> ctx_ok (fst s') \<and> sp (fst s') = sp (fst s) \<and> fp (fst s') = fp (fst s) \<and>
     heap (snd s') = heap (snd s) \<and> cur_obj (fst s') = cur_obj (fst s)"

lemma same_frame_trans: "same_frame s s' \<Longrightarrow> same_frame s' s'' \<Longrightarrow> same_frame s s''"
  by (simp add: same_frame_def)

lemma same_frame_in_use: "same_frame s s' \<Longrightarrow> in_use (fst s') i = in_use (fst s) i"
  by (simp add: same_frame_def in_use_def)

lemma val_at_in_use:
  assumes "val_at c i = Inr v" "in_use c i" "ctx_ok c"
  shows "stack c ! nat i = CVal v" "v \<in># stack_refs c"
proof -
  show s: "stack c ! nat i = CVal v"
    using assms cell_get_in_use [of c i] by (auto simp: val_at_def split: cell.splits)
  have "CVal v \<in> set (used c)" using used_upd(2,3) [OF assms(2,3)] s by (metis nth_mem)
  then show "v \<in># stack_refs c" unfolding stack_refs_def
    by (induction "used c" arbitrary: c) (auto simp: in_set_conv_decomp)
qed

lemma cell_clear_ok:
  assumes k: "counted s M" and c: "ctx_ok (fst s)" "in_use (fst s) i" and cl: "cell_clear i s = Inr s'"
  shows "counted s' M \<and> same_frame s s' \<and> stack (fst s') = (stack (fst s))[nat i := CVal 0]
    \<and> all_refs s' + cell_refs (stack (fst s) ! nat i) = all_refs s + {#0#} \<and> same_strings (strs (snd s)) (strs (snd s'))"
proof -
  obtain c w where s: "s = (c, w)" by (cases s)
  let ?x = "stack c ! nat i"
  have get: "cell_get c i = Inr ?x" using cell_get_in_use c s by auto
  have z: "val_type 0 \<noteq> TYPE_STRING" by simp
  let ?c' = "c\<lparr>stack := (stack c)[nat i := CVal 0]\<rparr>"
  have up: "stack_refs ?c' + cell_refs ?x = stack_refs c + {#0#}"
    using stack_refs_upd [of c i "CVal 0"] c s by simp
  have put: "cell_put i (CVal 0) c = Inr ?c'"
    using c s by (auto simp: cell_put_def ctx_ok_def in_use_def INITIAL_STACK_SIZE_def)
  have ok: "ctx_ok ?c'" using c s by (simp add: ctx_ok_def)
  obtain w' where w': "s' = (?c', w')" "heap w' = heap w"
    and r: "refs_ok (strs w') (stack_refs ?c' + object_refs (heap w) + M)" "same_strings (strs w) (strs w')"
  proof (cases ?x)
    case (CVal v)
    have e: "stack_refs c + object_refs (heap w) + M + {#0#} = add_mset v (stack_refs ?c' + object_refs (heap w) + M)"
      using up CVal by (simp add: ac_simps)
    have "refs_ok (strs w) (stack_refs c + object_refs (heap w) + M + {#0#})"
      using k z by (simp add: s counted_def all_refs_def refs_ok_nonstring)
    then obtain h where h: "val_dec_ref v (strs w) = Inr h" "refs_ok h (stack_refs ?c' + object_refs (heap w) + M)"
        "same_strings (strs w) h"
      unfolding e using dec_ref_ok by metis
    then have "s' = (?c', w\<lparr>strs := h\<rparr>)" using cl CVal get put by (simp add: s cell_clear_def val_clear_def)
    then show ?thesis using that [of "w\<lparr>strs := h\<rparr>"] h by simp
  next
    case (CFp f)
    then have "s' = (?c', w)" using cl get put by (simp add: s cell_clear_def)
    moreover have "stack_refs ?c' = add_mset 0 (stack_refs c)" using up CFp by simp
    ultimately show ?thesis using that [of w] k z by (simp add: s counted_def all_refs_def refs_ok_nonstring)
  next
    case (CObj f)
    then have "s' = (?c', w)" using cl get put by (simp add: s cell_clear_def)
    moreover have "stack_refs ?c' = add_mset 0 (stack_refs c)" using up CObj by simp
    ultimately show ?thesis using that [of w] k z by (simp add: s counted_def all_refs_def refs_ok_nonstring)
  qed (use cl get in \<open>simp_all add: s cell_clear_def\<close>)
  show ?thesis using w' r ok up by (simp add: s counted_def all_refs_def same_frame_def ac_simps)
qed


lemma cell_set_in_use:
  assumes "cell_set i v s = Inr s'" "in_use (fst s) i" "ctx_ok (fst s)"
  shows "snd s' = snd s" "fst s' = (fst s)\<lparr>stack := (stack (fst s))[nat i := CVal v]\<rparr>" "same_frame s s'"
proof -
  obtain c w where s: "s = (c, w)" by (cases s)
  obtain c' where p: "cell_put i (CVal v) c = Inr c'" and s': "s' = (c', w)"
    using assms(1) by (auto simp: s cell_set_def elim: rbind_InrE)
  note q = cell_put_in_use [OF p, of] 
  show "snd s' = snd s" "fst s' = (fst s)\<lparr>stack := (stack (fst s))[nat i := CVal v]\<rparr>" "same_frame s s'"
    using q assms(2,3) by (simp_all add: s s' same_frame_def)
qed

text \<open>Writing a reference of the environment into a cell that holds no string.\<close>

lemma cell_set_ok:
  assumes set: "cell_set i v s = Inr s'" and c: "in_use (fst s) i" "ctx_ok (fst s)"
    and k: "counted s (add_mset v M)" and x: "no_string (stack (fst s) ! nat i)"
  shows "counted s' M \<and> same_frame s s'"
proof -
  note s' = cell_set_in_use [OF set c]
  have up: "stack_refs (fst s') + cell_refs (stack (fst s) ! nat i) = add_mset v (stack_refs (fst s))"
    using stack_refs_upd [OF c, of "CVal v"] s'(2) by simp
  have "all_refs s + add_mset v M = all_refs s' + M + cell_refs (stack (fst s) ! nat i)"
    using up s'(1) by (simp add: all_refs_def ac_simps)
  then have "refs_ok (strs (snd s)) (all_refs s' + M + cell_refs (stack (fst s) ! nat i))"
    using k unfolding counted_def by (simp only:)
  then have "refs_ok (strs (snd s)) (all_refs s' + M)"
    unfolding refs_ok_no_string [OF x] .
  then show ?thesis using s'(1,3) by (simp add: counted_def)
qed

lemma reg_clear_ok:
  assumes "reg_clear r s = Inr s'" "counted s M" "ctx_ok (fst s)" "in_use (fst s) (reg_ix (fst s) r)"
  shows "counted s' M" "same_frame s s'" "ctx_ok (fst s')" "reg_ix (fst s') = reg_ix (fst s)"
    "no_string (stack (fst s') ! nat (reg_ix (fst s) r))" "few_refs s M \<Longrightarrow> few_refs s' M"
proof -
  let ?i = "reg_ix (fst s) r"
  have cl: "cell_clear ?i s = Inr s'" using assms(1) by (simp add: reg_clear_def)
  note k = cell_clear_ok [OF assms(2,3,4) cl]
  show "counted s' M" "same_frame s s'" using k by auto
  then show "ctx_ok (fst s')" "reg_ix (fst s') = reg_ix (fst s)" by (auto simp: same_frame_def reg_ix_def)
  have "nat ?i < length (stack (fst s))" using assms(3,4) by (auto simp: ctx_ok_def in_use_def)
  then show "no_string (stack (fst s') ! nat ?i)" using k by (simp add: no_string_def)
  have "all_refs s' + cell_refs (stack (fst s) ! nat ?i) = all_refs s + {#0#}" using k by blast
  then have e: "count (all_refs s') v + count (cell_refs (stack (fst s) ! nat ?i)) v = count (all_refs s + {#0#}) v" for v
    by (metis count_union)
  have le: "count (all_refs s') v \<le> count (all_refs s) v" if "val_type v = TYPE_STRING" for v
  proof -
    have "v \<noteq> 0" using that by auto
    then show ?thesis using e [of v] by simp
  qed
  show "few_refs s' M" if f: "few_refs s M"
    unfolding few_refs_def
  proof (intro allI impI)
    fix v assume v: "val_type v = TYPE_STRING"
    then have "count (all_refs s + M) v < 65535" using f unfolding few_refs_def by blast
    then show "count (all_refs s' + M) v < 65535" using le [OF v] by simp
  qed
qed

section \<open>Ready states\<close>

text \<open>A state in which an instruction with the registers \<open>rs\<close> is executed, and what it leaves.\<close>

definition ready :: "'a store_scheme st \<Rightarrow> val multiset \<Rightarrow> reg list \<Rightarrow> bool" where
  "ready s M rs \<longleftrightarrow> counted s M \<and> few_refs s M \<and> ctx_ok (fst s) \<and> (\<forall>r \<in> set rs. in_use (fst s) (reg_ix (fst s) r))"

definition kept :: "'a store_scheme st \<Rightarrow> val multiset \<Rightarrow> 'a store_scheme st \<Rightarrow> bool" where
  "kept s M s' \<longleftrightarrow> counted s' M \<and> same_frame s s'"

lemma ready_subset: "ready s M rs \<Longrightarrow> set qs \<subseteq> set rs \<Longrightarrow> ready s M qs"
  by (auto simp: ready_def)

lemma same_frame_reg_ix: "same_frame s s' \<Longrightarrow> reg_ix (fst s') = reg_ix (fst s)"
  by (rule ext) (simp add: same_frame_def reg_ix_def)

lemma kept_refl: "ready s M rs \<Longrightarrow> kept s M s"
  by (simp add: ready_def kept_def same_frame_def)

lemma kept_trans: "same_frame s s1 \<Longrightarrow> kept s1 M s' \<Longrightarrow> kept s M s'"
  using same_frame_trans [of s s1 s'] by (simp add: kept_def)

lemma clear_ready:
  assumes "reg_clear d s = Inr s'" "ready s M rs" "d \<in> set rs"
  shows "ready s' M rs" "same_frame s s'" "no_string (stack (fst s') ! nat (reg_ix (fst s') d))"
proof -
  have c: "counted s M" "ctx_ok (fst s)" "in_use (fst s) (reg_ix (fst s) d)"
    using assms(2,3) by (auto simp: ready_def)
  note k = reg_clear_ok [OF assms(1) c]
  show f: "same_frame s s'" by (rule k(2))
  show "no_string (stack (fst s') ! nat (reg_ix (fst s') d))" using k(4,5) by simp
  show "ready s' M rs" using assms(2) k same_frame_in_use [OF f] by (simp add: ready_def)
qed

lemma reg_val_refs:
  assumes "reg_val s r = Inr v" "ready s M rs" "r \<in> set rs"
  shows "v \<in># all_refs s"
  using assms val_at_in_use(2) [of "fst s" "reg_ix (fst s) r" v] by (auto simp: reg_val_def ready_def all_refs_def)

lemma set_owned:
  assumes "reg_set d v s = Inr s'" "counted s (add_mset v M)" "ctx_ok (fst s)" "in_use (fst s) (reg_ix (fst s) d)"
    "no_string (stack (fst s) ! nat (reg_ix (fst s) d))"
  shows "kept s M s'"
  using cell_set_ok [of "reg_ix (fst s) d" v s s' M] assms by (simp add: reg_set_def kept_def)

lemma counted_plain: "val_type v \<noteq> TYPE_STRING \<Longrightarrow> counted s (add_mset v M) \<longleftrightarrow> counted s M"
  by (simp add: counted_def refs_ok_nonstring)

lemma set_plain:
  assumes "reg_set d v s = Inr s'" "ready s M rs" "d \<in> set rs" "val_type v \<noteq> TYPE_STRING"
    "no_string (stack (fst s) ! nat (reg_ix (fst s) d))"
  shows "kept s M s'"
  using set_owned [OF assms(1), of M] assms(2-5) by (simp add: counted_plain ready_def)

lemma assign_owned:
  assumes a: "reg_assign d v s = Inr s'" and c: "counted s (add_mset v M)" "ctx_ok (fst s)" "in_use (fst s) (reg_ix (fst s) d)"
  shows "kept s M s'"
proof -
  obtain s1 where s1: "reg_clear d s = Inr s1" "reg_set d v s1 = Inr s'"
    using a by (auto simp: reg_assign_def elim: rbind_InrE)
  note k = reg_clear_ok [OF s1(1) c]
  have "in_use (fst s1) (reg_ix (fst s1) d)" using same_frame_in_use [OF k(2)] k(4) c(3) by simp
  then have "kept s1 M s'" using set_owned [OF s1(2) k(1) k(3)] k(4,5) by simp
  then show ?thesis by (rule kept_trans [OF k(2)])
qed

lemma assign_plain:
  assumes "reg_assign d v s = Inr s'" "ready s M rs" "d \<in> set rs" "val_type v \<noteq> TYPE_STRING"
  shows "kept s M s'"
  using assign_owned [OF assms(1), of M] assms(2-4) by (simp add: counted_plain ready_def)

lemma inc_val_one:
  assumes "inc_val v s = Inr s'" "counted s M" "v \<in># all_refs s + M"
    and small: "val_type v = TYPE_STRING \<Longrightarrow> count (all_refs s + M) v < 65535"
  shows "counted s' (add_mset v M)" "fst s' = fst s" "heap (snd s') = heap (snd s)"
proof -
  obtain c w where s: "s = (c, w)" by (cases s)
  obtain h where h: "val_inc_ref v (strs w) = Inr h" and s': "s' = (c, w\<lparr>strs := h\<rparr>)"
    using assms(1) by (auto simp: s inc_val_def elim: rbind_InrE)
  show f: "fst s' = fst s" "heap (snd s') = heap (snd s)" by (simp_all add: s s')
  have "refs_ok h (add_mset v (all_refs s + M))"
  proof (cases "val_type v = TYPE_STRING")
    case True
    then show ?thesis using inc_ref_ok [of "strs w" "all_refs s + M" v] assms(2,3) small h
      by (metis counted_def old.sum.inject(2) s snd_conv)
  next
    case False
    then show ?thesis using h assms(2) by (simp add: val_inc_ref_def s counted_def refs_ok_nonstring)
  qed
  then show "counted s' (add_mset v M)" by (simp add: counted_def s s' all_refs_def)
qed

lemma inc_val_ok:
  assumes "inc_val v s = Inr s'" "counted s M" "few_refs s M" "v \<in># all_refs s + M"
  shows "counted s' (add_mset v M)" "fst s' = fst s" "heap (snd s') = heap (snd s)"
  using inc_val_one [OF assms(1,2,4)] assms(3) by (simp_all add: few_refs_def)

text \<open>Assigning first and counting afterwards, the order in which the code does it.\<close>

lemma set_then_inc_one:
  assumes "cell_set i v s = Inr s1" "inc_val v s1 = Inr s'" "counted s M"
    "v \<in># all_refs s + M" "in_use (fst s) i" "ctx_ok (fst s)" "no_string (stack (fst s) ! nat i)"
    and small: "val_type v = TYPE_STRING \<Longrightarrow> count (all_refs s + M) v < 65535"
  shows "kept s M s'"
proof -
  obtain c w where s: "s = (c, w)" by (cases s)
  obtain c1 where c1: "cell_put i (CVal v) c = Inr c1" "s1 = (c1, w)"
    using assms(1) by (auto simp: s cell_set_def elim: rbind_InrE)
  obtain h where h: "val_inc_ref v (strs w) = Inr h" "s' = (c1, w\<lparr>strs := h\<rparr>)"
    using assms(2) by (auto simp: c1 inc_val_def elim: rbind_InrE)
  let ?s2 = "(c, w\<lparr>strs := h\<rparr>)"
  have i: "inc_val v s = Inr ?s2" by (simp add: s inc_val_def h)
  note k = inc_val_one [OF i assms(3,4) small]
  have "cell_set i v ?s2 = Inr s'" by (simp add: cell_set_def c1 h)
  then have "counted s' M \<and> same_frame ?s2 s'"
    by (rule cell_set_ok) (use assms(5-7) k(1) s in simp_all)
  then show ?thesis by (simp add: kept_def same_frame_def s)
qed

lemma set_then_inc:
  assumes "cell_set i v s = Inr s1" "inc_val v s1 = Inr s'" "counted s M" "few_refs s M"
    "v \<in># all_refs s + M" "in_use (fst s) i" "ctx_ok (fst s)" "no_string (stack (fst s) ! nat i)"
  shows "kept s M s'"
  using set_then_inc_one [OF assms(1-3,5-8)] assms(4) by (simp add: few_refs_def)

section \<open>The instructions on registers\<close>

lemma op_mov_kept:
  assumes "op_mov d r s = Inr s'" "ready s M [d, r]"
  shows "kept s M s'"
proof -
  obtain s1 v s2 where m: "reg_clear d s = Inr s1" "reg_val s1 r = Inr v" "reg_set d v s1 = Inr s2" "inc_val v s2 = Inr s'"
    using assms(1) unfolding op_mov_def by (elim rbind_InrE)
  note k = clear_ready [OF m(1) assms(2), simplified]
  have "v \<in># all_refs s1" by (rule reg_val_refs [OF m(2) k(1)]) simp
  then have "kept s1 M s'"
    using set_then_inc [OF m(3) [unfolded reg_set_def] m(4)] k(1,3) by (simp add: ready_def)
  then show ?thesis by (rule kept_trans [OF k(2)])
qed

lemma op_type_kept:
  assumes "op_type d r s = Inr s'" "ready s M [d, r]"
  shows "kept s M s'"
proof -
  obtain s1 v where m: "reg_clear d s = Inr s1" "reg_set d (val_make_int (of_nat (val_type v))) s1 = Inr s'"
    using assms(1) unfolding op_type_def by (elim rbind_InrE)
  note k = clear_ready [OF m(1) assms(2), simplified]
  have "kept s1 M s'" by (rule set_plain [OF m(2) k(1) _ _ k(3)]) simp_all
  then show ?thesis by (rule kept_trans [OF k(2)])
qed

text \<open>The instructions that compute a truth value.\<close>

lemma bool_result_kept:
  assumes "reg_clear d s = Inr s1" "reg_set d (val_make_bool b) s1 = Inr s'" "ready s M (d # rs)"
  shows "kept s M s'"
proof -
  note k = clear_ready [OF assms(1,3), simplified]
  have "kept s1 M s'" by (rule set_plain [OF assms(2) k(1) _ _ k(3)]) simp_all
  then show ?thesis by (rule kept_trans [OF k(2)])
qed

lemma logical_kept:
  "op_logical_and d a b s = Inr s' \<Longrightarrow> ready s M [d, a, b] \<Longrightarrow> kept s M s'"
  "op_logical_or d a b s = Inr s' \<Longrightarrow> ready s M [d, a, b] \<Longrightarrow> kept s M s'"
  "op_logical_not d a s = Inr s' \<Longrightarrow> ready s M [d, a] \<Longrightarrow> kept s M s'"
  unfolding op_logical_and_def op_logical_or_def op_logical_not_def
  by (elim rbind_InrE, rule bool_result_kept, assumption+)+

lemma compare_kept:
  "compare_op f d a b s = Inr s' \<Longrightarrow> ready s M [d, a, b] \<Longrightarrow> kept s M s'"
  unfolding compare_op_def by (elim rbind_InrE) (rule bool_result_kept)

lemma comparison_kept:
  "op_eq d a b s = Inr s' \<Longrightarrow> ready s M [d, a, b] \<Longrightarrow> kept s M s'"
  "op_le d a b s = Inr s' \<Longrightarrow> ready s M [d, a, b] \<Longrightarrow> kept s M s'"
  "op_lt d a b s = Inr s' \<Longrightarrow> ready s M [d, a, b] \<Longrightarrow> kept s M s'"
  by (auto simp: op_eq_def op_le_def op_lt_def res_simps intro: compare_kept)

lemma arith_kept:
  assumes "arith_op f g d a b s = Inr s'" "ready s M [d, a, b]"
  shows "kept s M s'"
proof -
  consider "s' = s" | v where "reg_assign d v s = Inr s'" "val_type v \<noteq> TYPE_STRING"
    using assms(1) by (auto simp: arith_op_def res_simps split: if_splits)
  then show ?thesis
    by cases (use kept_refl [OF assms(2)] assign_plain [OF _ assms(2)] in auto)
qed

lemma arithmetic_kept:
  "op_add H d a b s = Inr s' \<Longrightarrow> ready s M [d, a, b] \<Longrightarrow> kept s M s'"
  "op_sub H d a b s = Inr s' \<Longrightarrow> ready s M [d, a, b] \<Longrightarrow> kept s M s'"
  "op_mul H d a b s = Inr s' \<Longrightarrow> ready s M [d, a, b] \<Longrightarrow> kept s M s'"
  unfolding op_add_def op_sub_def op_mul_def by (rule arith_kept, assumption+)+

lemma op_length_kept:
  assumes "op_length d r s = Inr s'" "ready s M [d, r]"
  shows "kept s M s'"
proof -
  consider "s' = s" | s1 n where "reg_clear d s = Inr s1" "reg_set d (val_make_int n) s1 = Inr s'"
    using assms(1) by (auto simp: op_length_def res_simps split: if_splits)
  then show ?thesis
  proof cases
    case 2
    note k = clear_ready [OF 2(1) assms(2), simplified]
    have "kept s1 M s'" by (rule set_plain [OF 2(2) k(1) _ _ k(3)]) simp_all
    then show ?thesis by (rule kept_trans [OF k(2)])
  qed (use kept_refl [OF assms(2)] in simp)
qed

lemma strs_frame:
  assumes "refs_ok h (add_mset v (all_refs (c, w) + M))"
  shows "counted (c, w\<lparr>strs := h\<rparr>) (add_mset v M)"
  using assms by (simp add: counted_def all_refs_def)

lemma op_concat_kept:
  assumes "op_concat d a b s = Inr s'" "ready s M [d, a, b]"
  shows "kept s M s'"
proof -
  consider "s' = s" | s1 n x v h where "reg_clear d s = Inr s1"
      "val_make_string n x (strs (snd s1)) = Inr (v, h)" "reg_set d v (fst s1, (snd s1)\<lparr>strs := h\<rparr>) = Inr s'"
    using assms(1) by (auto simp: op_concat_def res_simps split: if_splits)
  then show ?thesis
  proof cases
    case 2
    note k = clear_ready [OF 2(1) assms(2), simplified]
    let ?s = "(fst s1, (snd s1)\<lparr>strs := h\<rparr>)"
    have "counted ?s (add_mset v M)"
      by (rule strs_frame) (use make_string_ok [OF _ 2(2), of "all_refs s1 + M"] k(1) in \<open>simp add: ready_def counted_def\<close>)
    then have "kept ?s M s'" using set_owned [OF 2(3), of M] k(1,3) by (simp add: ready_def)
    moreover have "same_frame s ?s" using k(2) by (simp add: same_frame_def)
    ultimately show ?thesis by (rule kept_trans [rotated])
  qed (use kept_refl [OF assms(2)] in simp)
qed

lemma op_load_string_kept:
  assumes "op_load_string H d str s = Inr s'" "ready s M [d]"
  shows "kept s M s'"
proof -
  obtain c w where s: "s = (c, w)" by (cases s)
  obtain n v h where m: "val_make_string n str (strs w) = Inr (v, h)" "reg_assign d v (c, w\<lparr>strs := h\<rparr>) = Inr s'"
    using assms(1) by (auto simp: s op_load_string_def res_simps)
  let ?s = "(c, w\<lparr>strs := h\<rparr>)"
  have "counted ?s (add_mset v M)"
    by (rule strs_frame) (use make_string_ok [OF _ m(1), of "all_refs s + M"] assms(2) in \<open>simp add: ready_def counted_def s\<close>)
  then have "kept ?s M s'" using assign_owned [OF m(2), of M] assms(2) by (simp add: ready_def s)
  moreover have "same_frame s ?s" using assms(2) by (simp add: same_frame_def s ready_def)
  ultimately show ?thesis by (rule kept_trans [rotated])
qed

lemma call_back_kept:
  assumes "ready s M rs"
  shows "kept s M (call_back v s)"
proof -
  obtain c w where "s = (c, w)" by (cases s)
  then show ?thesis using assms
    by (simp add: call_back_def kept_def counted_def all_refs_def stack_refs_def used_def same_frame_def ctx_ok_def ready_def)
qed

lemma debug_kept:
  "op_debugi n s = Inr s' \<Longrightarrow> ready s M [] \<Longrightarrow> kept s M s'"
  "op_debugr H r s = Inr s' \<Longrightarrow> ready s M [r] \<Longrightarrow> kept s M s'"
  by (auto simp: op_debugi_def op_debugr_def res_simps intro: call_back_kept)

lemma load_kept:
  "op_clear d s = Inr s' \<Longrightarrow> ready s M [d] \<Longrightarrow> kept s M s'"
  "op_true d s = Inr s' \<Longrightarrow> ready s M [d] \<Longrightarrow> kept s M s'"
  "op_load_int d n s = Inr s' \<Longrightarrow> ready s M [d] \<Longrightarrow> kept s M s'"
  "op_load_float d n s = Inr s' \<Longrightarrow> ready s M [d] \<Longrightarrow> kept s M s'"
  using clear_ready [of d s s' M "[d]"] assign_plain [of d _ s s' M "[d]"]
  by (auto simp: op_clear_def op_true_def op_load_int_def op_load_float_def kept_def ready_def)

section \<open>The instructions that move the stack pointer\<close>

definition intact :: "'a store_scheme st \<Rightarrow> val multiset \<Rightarrow> bool" where
  "intact s M \<longleftrightarrow> counted s M \<and> ctx_ok (fst s)"

lemma kept_intact: "kept s M s' \<Longrightarrow> intact s' M"
  by (simp add: kept_def intact_def same_frame_def)

lemma ready_intact: "ready s M rs \<Longrightarrow> intact s M"
  by (simp add: ready_def intact_def)

lemma used_grow:
  assumes "0 \<le> sp c" "sp c + 1 < int (length (stack c))"
  shows "used (c\<lparr>stack := (stack c)[nat (sp c + 1) := x], sp := sp c + 1\<rparr>) = used c @ [x]"
proof -
  obtain a as where st: "stack c = a # as" using assms by (cases "stack c") auto
  have n: "nat (sp c + 1) = Suc (nat (sp c))" using assms by simp
  have "nat (sp c) < length as" using assms st by simp
  then show ?thesis by (simp add: used_def st n take_Suc_conv_app_nth)
qed

lemma stack_refs_grow:
  assumes "0 \<le> sp c" "sp c + 1 < int (length (stack c))"
  shows "stack_refs (c\<lparr>stack := (stack c)[nat (sp c + 1) := x], sp := sp c + 1\<rparr>) = stack_refs c + cell_refs x"
  unfolding stack_refs_def used_grow [OF assms] by simp

lemma stack_refs_shrink:
  assumes "1 \<le> sp c" "sp c < int (length (stack c))"
  shows "stack_refs (c\<lparr>sp := sp c - 1\<rparr>) + cell_refs (stack c ! nat (sp c)) = stack_refs c"
proof -
  let ?c = "c\<lparr>sp := sp c - 1\<rparr>"
  have "?c\<lparr>stack := (stack ?c)[nat (sp ?c + 1) := stack c ! nat (sp c)], sp := sp ?c + 1\<rparr> = c"
    using assms by simp
  then show ?thesis using stack_refs_grow [of ?c "stack c ! nat (sp c)"] assms by simp
qed

lemma op_push_intact:
  assumes "op_push H r s = Inr s'" "ready s M [r]"
  shows "intact s' M"
proof -
  obtain c w where s: "s = (c, w)" by (cases s)
  obtain v s1 where m: "reg_val s r = Inr v" "cell_set (sp c + 1) v (c\<lparr>sp := sp c + 1\<rparr>, w) = Inr s1" "inc_val v s1 = Inr s'"
    using assms(1) by (auto simp: s op_push_def print_reg_def elim!: rbind_InrE)
  let ?c = "c\<lparr>stack := (stack c)[nat (sp c + 1) := CVal v], sp := sp c + 1\<rparr>"
  have c: "ctx_ok c" using assms(2) by (simp add: ready_def s)
  have b: "sp c + 1 < int (length (stack c))" and s1: "s1 = (?c, w)"
    using m(2) c by (auto simp: cell_set_def cell_put_def res_simps ctx_ok_def split: if_splits)
  obtain h where h: "val_inc_ref v (strs w) = Inr h" "s' = (?c, w\<lparr>strs := h\<rparr>)"
    using m(3) by (auto simp: s1 inc_val_def elim: rbind_InrE)
  have i: "inc_val v s = Inr (c, w\<lparr>strs := h\<rparr>)" by (simp add: s inc_val_def h)
  have "v \<in># all_refs s + M" using reg_val_refs [OF m(1) assms(2)] by simp
  then have k: "counted (c, w\<lparr>strs := h\<rparr>) (add_mset v M)" using inc_val_ok(1) [OF i] assms(2) by (simp add: ready_def)
  have "stack_refs ?c = add_mset v (stack_refs c)" using stack_refs_grow [of c "CVal v"] c b by (simp add: ctx_ok_def)
  then have "counted s' M" using k by (simp add: h counted_def all_refs_def)
  moreover have "ctx_ok ?c" using c b by (simp add: ctx_ok_def)
  ultimately show ?thesis by (simp add: intact_def h)
qed

lemma op_pop_intact:
  assumes "op_pop d s = Inr s'" "ready s M [d]"
  shows "intact s' M"
proof -
  obtain s1 v c w where m: "reg_clear d s = Inr s1" "val_at (fst s1) (sp (fst s1)) = Inr v"
      "reg_set d v s1 = Inr (c, w)" and s': "s' = (c\<lparr>sp := sp c - 1\<rparr>, w)"
    using assms(1) by (auto simp: op_pop_def elim!: rbind_InrE)
  note k = clear_ready [OF m(1) assms(2), simplified]
  let ?c = "fst s1" and ?i = "reg_ix (fst s1) d"
  have u: "in_use ?c ?i" "ctx_ok ?c" and cnt: "counted s1 M" using k(1) by (auto simp: ready_def)
  then have top: "in_use ?c (sp ?c)" by (simp add: in_use_def)
  note at = val_at_in_use(1) [OF m(2) top u(2)]
  note set = cell_set_in_use [OF m(3) [unfolded reg_set_def] u, simplified]
  have "stack c ! nat (sp c) = CVal v"
    using at set(2) u by (cases "nat ?i = nat (sp ?c)") (auto simp: ctx_ok_def)
  moreover have b: "1 \<le> sp c" "sp c < int (length (stack c))" using u set(2) by (auto simp: in_use_def ctx_ok_def)
  ultimately have "add_mset v (stack_refs (c\<lparr>sp := sp c - 1\<rparr>)) = stack_refs c"
    using stack_refs_shrink [of c] by simp
  moreover have "stack_refs c + cell_refs (stack ?c ! nat ?i) = add_mset v (stack_refs ?c)"
    using stack_refs_upd [OF u, of "CVal v"] set(2) by simp
  ultimately have "stack_refs (c\<lparr>sp := sp c - 1\<rparr>) + cell_refs (stack ?c ! nat ?i) = stack_refs ?c"
    by (metis union_mset_add_mset_left add_mset_add_mset_same_iff)
  then have "all_refs s' + M + cell_refs (stack ?c ! nat ?i) = all_refs s1 + M"
    using set(1) by (simp add: s' all_refs_def ac_simps)
  then have "counted s' M" using cnt refs_ok_no_string [OF k(3)] set(1)
    by (metis counted_def s' snd_conv)
  moreover have "ctx_ok (c\<lparr>sp := sp c - 1\<rparr>)" using u set(2) b by (simp add: ctx_ok_def)
  ultimately show ?thesis by (simp add: intact_def s')
qed

lemma init_locals_cells:
  assumes "init_locals i n (c, w) = Inr s'" "0 \<le> sp c + int i" "length (stack c) = INITIAL_STACK_SIZE"
  shows "\<exists>c'. s' = (c', w) \<and> (n = 0 \<or> sp c + int i + int n < int INITIAL_STACK_SIZE) \<and>
     c' = c\<lparr>stack := stack c'\<rparr> \<and> length (stack c') = INITIAL_STACK_SIZE \<and>
     take (nat (sp c + int i) + 1 + n) (stack c') = take (nat (sp c + int i) + 1) (stack c) @ replicate n (CVal 0)"
  using assms
proof (induction n arbitrary: i c)
  case (Suc n)
  let ?j = "sp c + int i + 1"
  let ?c = "c\<lparr>stack := (stack c)[nat ?j := CVal 0]\<rparr>"
  have j: "?j < int INITIAL_STACK_SIZE" and r: "init_locals (Suc i) n (?c, w) = Inr s'"
    using Suc.prems by (auto simp: cell_set_def cell_put_def res_simps val_init_def split: if_splits)
  have n: "nat (sp ?c + int (Suc i)) = Suc (nat (sp c + int i))" using Suc.prems(2) by simp
  obtain c' where c': "s' = (c', w)" "n = 0 \<or> sp c + int (Suc i) + int n < int INITIAL_STACK_SIZE"
      "c' = ?c\<lparr>stack := stack c'\<rparr>" "length (stack c') = INITIAL_STACK_SIZE"
      "take (Suc (nat (sp c + int i)) + 1 + n) (stack c') = take (Suc (nat (sp c + int i)) + 1) (stack ?c) @ replicate n (CVal 0)"
    using Suc.IH [OF r] Suc.prems(2,3) n by auto
  have l: "Suc (nat (sp c + int i)) < length (stack c)" and e: "nat ?j = Suc (nat (sp c + int i))"
    using j Suc.prems(2,3) by auto
  have "take (Suc (nat (sp c + int i)) + 1) (stack ?c) = take (nat (sp c + int i) + 1) (stack c) @ [CVal 0]"
    using l by (simp add: e take_Suc_conv_app_nth)
  then have "take (nat (sp c + int i) + 1 + Suc n) (stack c') = take (nat (sp c + int i) + 1) (stack c) @ replicate (Suc n) (CVal 0)"
    using c'(5) by simp
  moreover have "c' = c\<lparr>stack := stack c'\<rparr>" using c'(3) by simp
  ultimately show ?case using c'(1,2,4) j by auto
qed (auto intro: exI [of _ c])

lemma sum_list_replicate_nil: "sum_list (replicate n {#x#}) = replicate_mset n x"
  by (induction n) auto

lemma counted_nils: "counted s (replicate_mset n 0 + M) \<longleftrightarrow> counted s M"
  by (induction n) (simp_all add: counted_plain)

lemma op_args_locals_intact:
  assumes "op_args_locals n m s = Inr s'" "ready s M []"
  shows "intact s' M"
proof -
  obtain c w where s: "s = (c, w)" by (cases s)
  define k where "k = unat m"
  obtain c1 w1 where i: "init_locals 0 k (c, w) = Inr (c1, w1)" and s': "s' = (c1\<lparr>sp := sp c1 + int k\<rparr>, w1)"
    using assms(1) unfolding s op_args_locals_def k_def [symmetric] by (auto elim!: rbind_InrE)
  have ok: "ctx_ok c" and cnt: "counted s M" using assms(2) by (simp_all add: ready_def s)
  obtain c' where c': "c1 = c'" "w1 = w" "k = 0 \<or> sp c + int (k) < int INITIAL_STACK_SIZE"
      "c' = c\<lparr>stack := stack c'\<rparr>" "length (stack c') = INITIAL_STACK_SIZE"
      "take (Suc (nat (sp c)) + k) (stack c') = take (Suc (nat (sp c))) (stack c) @ replicate (k) (CVal 0)"
    using init_locals_cells [OF i] ok by (auto simp: ctx_ok_def)
  have sp: "sp c1 = sp c" using c'(1,4) by (metis eval_ctx.ext_inject eval_ctx.surjective eval_ctx.update_convs(3))
  have n: "nat (sp c + int k) = nat (sp c) + k" using ok by (simp add: ctx_ok_def nat_add_distrib)
  have tl: "take k (tl xs) = tl (take (Suc k) xs)" for k and xs :: "cell list" by (cases xs) auto
  have ne: "take (Suc (nat (sp c))) (stack c) \<noteq> []" using ok by (auto simp: ctx_ok_def INITIAL_STACK_SIZE_def)
  have "used (c1\<lparr>sp := sp c1 + int (k)\<rparr>) = used c @ replicate (k) (CVal 0)"
    using c'(6) ne by (simp add: used_def sp [unfolded c'(1)] c'(1) n tl)
  then have "stack_refs (c1\<lparr>sp := sp c1 + int (k)\<rparr>) = stack_refs c + replicate_mset (k) 0"
    by (simp add: stack_refs_def sum_list_replicate_nil)
  moreover have "counted s (replicate_mset (k) 0 + M)" using cnt by (simp add: counted_nils)
  ultimately have "counted s' M" by (simp add: counted_def all_refs_def s s' c'(2) ac_simps)
  moreover have "ctx_ok (c1\<lparr>sp := sp c1 + int (k)\<rparr>)" using ok c' sp by (auto simp: ctx_ok_def)
  ultimately show ?thesis by (simp add: intact_def s')
qed

text \<open>Clearing the top of the stack and dropping it, the body of the loops of \<^verbatim>\<open>HALT\<close>, \<^verbatim>\<open>RETURN\<close>
  and \<^verbatim>\<open>SYSCALL\<close>.\<close>

lemma drop_top_intact:
  assumes "cell_clear (sp c) (c, w) = Inr (c', w')" "intact (c, w) M" "1 \<le> sp c"
  shows "intact (c'\<lparr>sp := sp c - 1\<rparr>, w') M" "sp c' = sp c" "fp c' = fp c" "cur_obj c' = cur_obj c"
    "stack c' = (stack c)[nat (sp c) := CVal 0]"
proof -
  have c: "counted (c, w) M" "ctx_ok (fst (c, w))" "in_use (fst (c, w)) (sp c)"
    using assms(2,3) by (auto simp: intact_def in_use_def)
  note k = cell_clear_ok [OF c assms(1)]
  show f: "sp c' = sp c" "fp c' = fp c" "cur_obj c' = cur_obj c" "stack c' = (stack c)[nat (sp c) := CVal 0]"
    using k by (auto simp: same_frame_def)
  have o: "ctx_ok c'" "counted (c', w') M" using k by (auto simp: same_frame_def)
  have "nat (sp c) < length (stack c)" using c(2) by (simp add: ctx_ok_def nat_less_iff)
  then have "stack_refs (c'\<lparr>sp := sp c' - 1\<rparr>) + {#0#} = stack_refs c'"
    using stack_refs_shrink [of c'] o(1) assms(3) f by (simp add: ctx_ok_def)
  then have "all_refs (c', w') + M = add_mset 0 (all_refs (c'\<lparr>sp := sp c - 1\<rparr>, w') + M)"
    using f(1) by (simp add: all_refs_def)
  then have "counted (c'\<lparr>sp := sp c - 1\<rparr>, w') M"
    using o(2) by (simp add: counted_def refs_ok_nonstring)
  moreover have "ctx_ok (c'\<lparr>sp := sp c - 1\<rparr>)" using o(1) assms(3) f(1) by (simp add: ctx_ok_def)
  ultimately show "intact (c'\<lparr>sp := sp c - 1\<rparr>, w') M" by (simp add: intact_def)
qed

lemma halt_intact:
  "halt_loop s = Inr s' \<Longrightarrow> intact s M \<Longrightarrow> intact s' M"
proof (induction s rule: halt_loop.induct)
  case (1 c w)
  consider "sp c = 0" "s' = (c, w)" | c1 w1 where "1 \<le> sp c" "cell_clear (sp c) (c, w) = Inr (c1, w1)" "halt_loop (c1\<lparr>sp := sp c - 1\<rparr>, w1) = Inr s'"
    using "1.prems"(1) by (subst (asm) halt_loop.simps) (auto simp: res_simps split: if_splits)
  then show ?case
  proof cases
    case 2
    then show ?thesis using "1.IH" [of "(c1, w1)" c1 w1] drop_top_intact(1) [OF 2(2) "1.prems"(2) 2(1)] by simp
  qed (use "1.prems"(2) in simp)
qed

section \<open>The instructions on objects\<close>

lemma object_refs_at:
  assumes "a < length (objs h)"
  shows "object_refs (h\<lparr>objs := (objs h)[a := x]\<rparr>) =
    (case x of None \<Rightarrow> {#} | Some ob \<Rightarrow> global_refs ob) + object_refs (h\<lparr>objs := heap_free a (objs h)\<rparr>)"
  using assms by (simp add: object_refs_def heap_free_def upd_conv_take_nth_drop ac_simps)

lemma object_refs_split:
  assumes "heap_get (objs h) a = Inr ob"
  shows "object_refs h = global_refs ob + object_refs (h\<lparr>objs := heap_free a (objs h)\<rparr>)"
    "object_refs (h\<lparr>objs := heap_put a ob' (objs h)\<rparr>) = global_refs ob' + object_refs (h\<lparr>objs := heap_free a (objs h)\<rparr>)"
proof -
  have a: "a < length (objs h)" "objs h ! a = Some ob" using assms by (auto simp: res_simps)
  have "(objs h)[a := Some ob] = objs h" using a by (metis list_update_id)
  then have "object_refs (h\<lparr>objs := (objs h)[a := Some ob]\<rparr>) = object_refs h" by simp
  then show "object_refs h = global_refs ob + object_refs (h\<lparr>objs := heap_free a (objs h)\<rparr>)"
    using object_refs_at [OF a(1), of "Some ob"] by simp
  show "object_refs (h\<lparr>objs := heap_put a ob' (objs h)\<rparr>) = global_refs ob' + object_refs (h\<lparr>objs := heap_free a (objs h)\<rparr>)"
    using object_refs_at [OF a(1), of "Some ob'"] by (simp add: heap_put_def)
qed

lemma cur_object_get: "cur_object (c, w) = Inr (a, ob) \<Longrightarrow> heap_get (objs (heap w)) a = Inr ob"
  by (auto simp: cur_object_def elim!: rbind_InrE split: option.splits)

lemma op_getglobal_kept:
  assumes "op_getglobal d n s = Inr s'" "ready s M [d, n]"
  shows "kept s M s'"
proof -
  obtain c w where s: "s = (c, w)" by (cases s)
  obtain a ob name v h where m: "cur_object s = Inr (a, ob)" "obj_get_global ob name (strs w) = Inr (v, h)"
      "reg_assign d v (c, w\<lparr>strs := h\<rparr>) = Inr s'"
    using assms(1) by (auto simp: op_getglobal_def s elim!: rbind_InrE)
  let ?R = "stack_refs c + object_refs ((heap w)\<lparr>objs := heap_free a (objs (heap w))\<rparr>) + M"
  have e: "all_refs s + M = global_refs ob + ?R"
    using object_refs_split(1) [OF cur_object_get [OF m(1) [unfolded s]]] by (simp add: all_refs_def s ac_simps)
  have k: "counted s M" "few_refs s M" using assms(2) by (simp_all add: ready_def)
  have r: "refs_ok (strs w) (global_refs ob + ?R)" using k(1) unfolding counted_def e by (simp add: s)
  have "refs_ok h (add_mset v (global_refs ob + ?R))"
  proof (cases "\<exists>u. obj_global ob name = Some u \<and> val_type u = TYPE_STRING")
    case True
    then have "count (global_refs ob + ?R) u < 65535" if "obj_global ob name = Some u" for u
      using k(2) that unfolding few_refs_def e by auto
    then show ?thesis using obj_get_global_ok [OF r, of name] m(2) by (metis old.prod.inject sum.inject(2))
  next
    case False
    then have "h = strs w \<and> val_type v \<noteq> TYPE_STRING"
      using m(2) by (auto simp: obj_get_global_def obj_global_def val_inc_ref_def split: option.splits)
    then show ?thesis using r by (simp add: refs_ok_nonstring)
  qed
  then have "counted (c, w\<lparr>strs := h\<rparr>) (add_mset v M)"
    using e by (intro strs_frame) (simp add: s ac_simps)
  then have "kept (c, w\<lparr>strs := h\<rparr>) M s'" using assign_owned [OF m(3), of M] assms(2) by (simp add: ready_def s)
  moreover have "same_frame s (c, w\<lparr>strs := h\<rparr>)" using assms(2) by (simp add: same_frame_def s ready_def)
  ultimately show ?thesis by (rule kept_trans [rotated])
qed

lemma op_self_kept:
  assumes "op_self d s = Inr s'" "ready s M [d]"
  shows "kept s M s'"
proof -
  obtain s1 i v where m: "reg_clear d s = Inr s1" "val_make_objref i = Inr v" "reg_set d v s1 = Inr s'"
    using assms(1) by (auto simp: op_self_def elim!: rbind_InrE)
  note k = clear_ready [OF m(1) assms(2), simplified]
  have "kept s1 M s'" by (rule set_plain [OF m(3) k(1) _ _ k(3)]) (simp_all add: val_type_objref [OF m(2)])
  then show ?thesis by (rule kept_trans [OF k(2)])
qed

lemma op_parent_kept:
  assumes "op_parent d s = Inr s'" "ready s M [d]"
  shows "kept s M s'"
proof -
  obtain s1 where c: "reg_clear d s = Inr s1" and p: "rbind (cur_object s1) (\<lambda>(_, ob).
       if 0 < obj_get_parent_count ob then
         rbind (obj_get_parent ob 0) (\<lambda>pid. rbind (val_make_objref pid) (\<lambda>v. reg_set d v s1))
       else Inr s1) = Inr s'"
    using assms(1) unfolding op_parent_def by (rule rbind_InrE)
  have r: "s' = s1 \<or> (\<exists>i v. val_make_objref i = Inr v \<and> reg_set d v s1 = Inr s')"
    using p by (auto simp: res_simps split: if_splits)
  note k = clear_ready [OF c assms(2), simplified]
  have "kept s1 M s'" using r
  proof (elim disjE exE conjE)
    fix i v assume m: "val_make_objref i = Inr v" "reg_set d v s1 = Inr s'"
    show ?thesis by (rule set_plain [OF m(2) k(1) _ _ k(3)]) (simp_all add: val_type_objref [OF m(1)])
  qed (use kept_refl [OF k(1)] in simp)
  then show ?thesis by (rule kept_trans [OF k(2)])
qed

lemma same_data_ready: "same_data w w' \<Longrightarrow> ready (c, w') M rs \<longleftrightarrow> ready (c, w) M rs"
  by (simp add: same_data_def ready_def counted_def few_refs_def all_refs_def object_refs_def)

lemma set_global_plain:
  assumes "obj_set_global name v (ob, h) = Inr (ob', h')" "val_type v \<noteq> TYPE_STRING" "refs_ok h (global_refs ob + M)"
  shows "refs_ok h' (global_refs ob' + M)"
proof (cases "slot_find (globals ob) (cstr name)")
  case None
  then show ?thesis using assms by (auto simp: obj_set_global_def val_inc_ref_def global_refs_def refs_ok_nonstring)
next
  case (Some u)
  have h': "val_dec_ref u h = Inr h'" and ob': "ob' = ob\<lparr>globals := slot_replace (globals ob) (cstr name) v\<rparr>"
    using assms(1,2) Some by (auto simp: obj_set_global_def val_inc_ref_def elim!: rbind_InrE)
  have e: "add_mset u (global_refs ob') = add_mset v (global_refs ob)"
    using mset_slot_replace [OF Some, of v] by (simp add: ob' global_refs_def)
  have "refs_ok h (add_mset u (global_refs ob' + M))"
    using assms(2,3) refs_ok_nonstring [of v h "global_refs ob + M"] e by (metis union_mset_add_mset_left)
  then show ?thesis using dec_ref_ok h' by (metis sum.inject(2))
qed

lemma op_setglobal_intact:
  assumes "op_setglobal H n v s = Inr (ok, s')" "ready s M [n, v]" "quiet (h_env H)"
  shows "intact s' M"
proof -
  obtain c w where s: "s = (c, w)" by (cases s)
  obtain l lc w1 where lk: "lock_lock (h_env H) l LOCK_EXCLUSIVE (stx c) w = Inr (lc, w1)"
    and r: "(ok, s') = (False, c, w1) \<or> (\<exists>a ob name x h sh. cur_object (c, w1) = Inr (a, ob) \<and>
       reg_val (c, w1) v = Inr x \<and> set_global_at a name x (heap w1, strs w1) = Inr (h, sh) \<and>
       (ok, s') = (True, c, w1\<lparr>heap := h, strs := sh\<rparr>))"
    using assms(1) unfolding op_setglobal_def s Let_def
    by (auto simp: res_simps split: option.splits if_splits) blast+
  have rd: "ready (c, w1) M [n, v]"
    using same_data_ready [OF lock_lock_same [OF lk assms(3)]] assms(2) s by simp
  from r show ?thesis
  proof (elim disjE exE conjE)
    fix a ob name x h sh
    assume m: "cur_object (c, w1) = Inr (a, ob)" "reg_val (c, w1) v = Inr x"
      "set_global_at a name x (heap w1, strs w1) = Inr (h, sh)" "(ok, s') = (True, c, w1\<lparr>heap := h, strs := sh\<rparr>)"
    note g = cur_object_get [OF m(1)]
    let ?O = "object_refs ((heap w1)\<lparr>objs := heap_free a (objs (heap w1))\<rparr>)"
    obtain ob' where st: "obj_set_global name x (ob, strs w1) = Inr (ob', sh)" "h = (heap w1)\<lparr>objs := heap_put a ob' (objs (heap w1))\<rparr>"
      using m(3) g by (auto simp: set_global_at_def elim!: rbind_InrE)
    have x: "x \<in># stack_refs c"
      using m(2) rd val_at_in_use(2) [of c "reg_ix c v" x] by (simp add: reg_val_def ready_def)
    have e: "all_refs (c, w1) + M = global_refs ob + (stack_refs c + ?O + M)"
      using object_refs_split(1) [OF g] by (simp add: all_refs_def ac_simps)
    have "refs_ok sh (global_refs ob' + (stack_refs c + ?O + M))"
    proof (cases "val_type x = TYPE_STRING")
      case True
      then have small: "count (global_refs ob + (stack_refs c + ?O + M)) x < 65535"
        using rd unfolding ready_def few_refs_def e by auto
      have "refs_ok (strs w1) (global_refs ob + (stack_refs c + ?O + M))"
        using rd unfolding ready_def counted_def e by simp
      from obj_set_global_ok [OF this _ small, of name] x st(1) show ?thesis
        by (metis old.prod.inject sum.inject(2) union_iff)
    next
      case False
      then have "refs_ok sh (global_refs ob' + (stack_refs c + ?O + M))"
        using set_global_plain [OF st(1) False, of "stack_refs c + ?O + M"] rd
        unfolding ready_def counted_def e by simp
      then show ?thesis .
    qed
    then have "counted s' M" using m(4) object_refs_split(2) [OF g, of ob']
      by (simp add: counted_def all_refs_def st(2) ac_simps)
    then show ?thesis using rd m(4) by (simp add: intact_def ready_def)
  qed (use rd in \<open>simp add: intact_def ready_def\<close>)
qed

lemma op_make_obj_intact:
  assumes "op_make_obj H d p s = Inr s'" "ready s M [d, p]" "quiet (h_env H)"
  shows "intact s' M"
proof -
  obtain c w where s: "s = (c, w)" by (cases s)
  obtain pid lo w1 s2 i v where m: "store_make_object (h_env H) (stx c) pid w = Inr (lo, w1)"
      "reg_clear d (c, w1) = Inr s2" "val_make_objref i = Inr v" "reg_set d v s2 = Inr s'"
    using assms(1) by (auto simp: op_make_obj_def s Let_def elim!: rbind_InrE)
  obtain ob where "strs w1 = strs w" "objs (heap w1) = objs (heap w) @ [Some ob]" "globals ob = []"
    using store_make_object_same [OF m(1) assms(3)] by metis
  then have "ready (c, w1) M [d, p]"
    using assms(2) by (simp add: s ready_def counted_def few_refs_def all_refs_def object_refs_def global_refs_def)
  note k = clear_ready [OF m(2) this, simplified]
  have "kept s2 M s'" by (rule set_plain [OF m(4) k(1) _ _ k(3)]) (simp_all add: val_type_objref [OF m(3)])
  then show ?thesis by (rule kept_intact)
qed

section \<open>Calls\<close>

lemma drop_cell_intact:
  assumes "drop_cell i x (c, w) = Inr (c', w')" "intact (c, w) M" "in_use c i" "cell_refs x = {#}"
  shows "intact (c', w') M" "sp c' = sp c" "fp c' = fp c"
proof -
  obtain v h where m: "val_at c i = Inr v" "val_dec_ref v (strs w) = Inr h" "cell_put i x c = Inr c'" "w' = w\<lparr>strs := h\<rparr>"
    using assms(1) by (auto simp: drop_cell_def elim!: rbind_InrE)
  have ok: "ctx_ok c" and k: "counted (c, w) M" using assms(2) by (simp_all add: intact_def)
  note p = cell_put_in_use [OF m(3) assms(3) ok]
  show "sp c' = sp c" "fp c' = fp c" by (rule p)+
  have "add_mset v (stack_refs c') = stack_refs c"
    using stack_refs_upd [OF assms(3) ok, of x] val_at_in_use(1) [OF m(1) assms(3) ok] assms(4) p(1) by simp
  then have "all_refs (c, w) + M = add_mset v (stack_refs c' + object_refs (heap w) + M)"
    unfolding all_refs_def by (metis fst_conv snd_conv union_mset_add_mset_left)
  then have "refs_ok h (stack_refs c' + object_refs (heap w) + M)"
    using k dec_ref_ok m(2) unfolding counted_def by (metis snd_conv sum.inject(2))
  then show "intact (c', w') M" using p(2) m(4) by (simp add: intact_def counted_def all_refs_def)
qed

lemma parent_loop_same:
  assumes "parent_loop H f tx lo is r w = Inr (r', w')" "quiet (h_env H)"
    and f: "\<And>p w r w'. f p w = Inr (r, w') \<Longrightarrow> same_data w w'"
  shows "same_data w w'"
  using assms(1)
proof (induction "is" arbitrary: r w)
  case (Cons i "is")
  then consider "w' = w" | oid p w1 r2 w2 where "store_get_object (h_env H) tx oid w = Inr (Some p, w1)"
      "f p w1 = Inr (r2, w2)" "parent_loop H f tx lo is r2 w2 = Inr (r', w')"
    by (auto simp: res_simps split: if_splits option.splits)
  then show ?case
  proof cases
    case 2
    then show ?thesis using store_get_object_same [OF 2(1) assms(2)] f [OF 2(2)] Cons.IH [OF 2(3)]
      by (blast intro: same_data_trans)
  qed simp
qed simp

lemma get_code_same:
  assumes "get_code_frames n H lo name tx w = Inr (r, w')" "quiet (h_env H)"
  shows "same_data w w'"
  using assms(1)
proof (induction n arbitrary: lo w r w')
  case (Suc n)
  then obtain ob where "parent_loop H (\<lambda>p w. get_code_frames n H p name tx w) tx lo [0..<obj_get_parent_count ob]
      (obj_get_code ob name) w = Inr (r, w')"
    by (auto elim: rbind_InrE)
  then show ?case by (rule parent_loop_same [OF _ assms(2) Suc.IH])
qed simp

lemma op_call_intact:
  assumes "op_call H n ip s = Inr (ip', s')" "intact s M" "quiet (h_env H)"
    and u: "in_use (fst s) (sp (fst s) - int (unat n) - 2)"
  shows "intact s' M"
proof -
  obtain c w where s: "s = (c, w)" by (cases s)
  let ?b = "sp c - int (unat n)"
  obtain oid lo w1 name r code w2 c3 w3 c4 w4 c5 w5 where
      g: "store_get_object (h_env H) (stx c) oid w = Inr (Some lo, w1)"
         "eval_get_code_recursive H lo name (stx c) w1 = Inr ((r, code), w2)"
    and d: "drop_cell (?b - 2) (CFp (fp c)) (c, w2) = Inr (c3, w3)" "drop_cell (?b - 1) (CCode ip) (c3, w3) = Inr (c4, w4)"
         "drop_cell ?b (CObj (cur_obj c)) (c4, w4) = Inr (c5, w5)" "s' = (c5\<lparr>cur_obj := Some lo, fp := ?b + 1\<rparr>, w5)"
    using assms(1) unfolding op_call_def s Let_def
    by (auto simp: res_simps split: option.splits)
  have "same_data w w2"
    using store_get_object_same [OF g(1) assms(3)] get_code_same [OF g(2) [unfolded eval_get_code_recursive_def] assms(3)]
    by (rule same_data_trans)
  then have i: "intact (c, w2) M"
    using assms(2) by (simp add: s intact_def counted_def all_refs_def same_data_def object_refs_def)
  have "0 \<le> int (unat n)" by (rule of_nat_0_le_iff)
  then have u: "in_use c (?b - 2)" "in_use c (?b - 1)" "in_use c ?b" using u unfolding in_use_def s fst_conv by linarith+
  note i3 = drop_cell_intact [OF d(1) i u(1), simplified]
  have u3: "in_use c3 (?b - 1)" "in_use c3 ?b" using u i3(2) by (simp_all add: in_use_def)
  note i4 = drop_cell_intact [OF d(2) i3(1) u3(1), simplified]
  have u4: "in_use c4 ?b" using u3 i4(2) by (simp add: in_use_def)
  note i5 = drop_cell_intact [OF d(3) i4(1) u4, simplified]
  show ?thesis using i5(1) by (simp add: d(4) intact_def counted_def all_refs_def stack_refs_def used_def ctx_ok_def)
qed

lemma return_loop_intact:
  assumes "return_loop b s = Inr s'" "intact s M" "0 \<le> b" "b \<le> sp (fst s)"
  shows "intact s' M \<and> sp (fst s') = b \<and> (\<forall>j \<le> nat b. stack (fst s') ! j = stack (fst s) ! j)"
  using assms
proof (induction b s rule: return_loop.induct)
  case (1 b c w)
  consider "sp c = b" "s' = (c, w)" | c1 w1 where "b < sp c" "cell_clear (sp c) (c, w) = Inr (c1, w1)"
      "return_loop b (c1\<lparr>sp := sp c - 1\<rparr>, w1) = Inr s'"
    using "1.prems"(1,4) by (subst (asm) return_loop.simps) (auto simp: res_simps split: if_splits)
  then show ?case
  proof cases
    case 2
    have "1 \<le> sp c" using 2(1) "1.prems"(3) by simp
    note d = drop_top_intact [OF 2(2) "1.prems"(2) this]
    have ne: "nat (sp c) \<noteq> j" if "j \<le> nat b" for j using 2(1) "1.prems"(3) that by linarith
    have "intact s' M \<and> sp (fst s') = b \<and> (\<forall>j \<le> nat b. stack (fst s') ! j = stack (c1\<lparr>sp := sp c - 1\<rparr>) ! j)"
      using "1.IH" [of "(c1, w1)" c1 w1] 2 d(1) "1.prems"(3) by simp
    then show ?thesis using d(5) ne by simp
  qed (use "1.prems"(2) in simp)
qed

lemma op_return_intact:
  assumes "op_return r s = Inr (ip, s')" "ready s M [r]" "in_use (fst s) (fp (fst s) - 3)" "in_use (fst s) (fp (fst s) - 2)"
  shows "intact s' M"
proof -
  obtain c w where s: "s = (c, w)" by (cases s)
  let ?f = "fp c"
  obtain ret ob f s1 s2 s3 where m: "reg_val s r = Inr ret" "code_at c (?f - 2) = Inr ip" "se_at c (?f - 3) = Inr f"
      "cell_set (?f - 3) ret (c\<lparr>cur_obj := ob, fp := f\<rparr>, w) = Inr s1" "inc_val ret s1 = Inr s2"
      "return_loop (?f - 2) s2 = Inr s3" "cell_set (?f - 2) val_make_nil s3 = Inr s'"
    using assms(1) unfolding op_return_def s Let_def by (auto simp: res_simps)
  let ?s = "(c\<lparr>cur_obj := ob, fp := f\<rparr>, w)"
  have u: "in_use c (?f - 3)" "in_use c (?f - 2)" using assms(3,4) by (simp_all add: s)
  have ok: "ctx_ok c" using assms(2) by (simp add: ready_def s)
  have e: "all_refs ?s = all_refs s" by (simp add: all_refs_def s stack_refs_def used_def)
  have k: "counted ?s M" "few_refs ?s M" "ctx_ok (fst ?s)" "in_use (fst ?s) (?f - 3)"
    using assms(2) u e ok by (simp_all add: s ready_def counted_def few_refs_def ctx_ok_def in_use_def)
  have "ret \<in># all_refs ?s + M" using reg_val_refs [OF m(1) assms(2)] e by simp
  moreover have "no_string (stack (fst ?s) ! nat (?f - 3))"
    using m(3) cell_get_in_use [OF ok u(1)] by (auto simp: se_at_def no_string_def split: cell.splits)
  ultimately have "kept ?s M s2" using set_then_inc [OF m(4,5) k(1,2)] k(3,4) by simp
  then have i2: "intact s2 M" and sp2: "sp (fst s2) = sp c" by (auto simp: kept_def intact_def same_frame_def)
  have st2: "stack (fst s2) = (stack c)[nat (?f - 3) := CVal ret]"
    using m(4,5) by (auto simp: cell_set_def inc_val_def cell_put_def res_simps split: if_splits)
  have b: "0 \<le> ?f - 2" "?f - 2 \<le> sp (fst s2)" using u sp2 by (simp_all add: in_use_def)
  note l = return_loop_intact [OF m(6) i2 b]
  have "stack (fst s3) ! nat (?f - 2) = stack (fst s2) ! nat (?f - 2)" using l by blast
  also have "\<dots> = stack c ! nat (?f - 2)"
  proof -
    have "nat (?f - 3) \<noteq> nat (?f - 2)" using u by (simp add: in_use_def)
    then show ?thesis by (simp add: st2)
  qed
  finally have "no_string (stack (fst s3) ! nat (?f - 2))"
    using m(2) cell_get_in_use [OF ok u(2)] by (auto simp: code_at_def no_string_def split: cell.splits)
  moreover have "in_use (fst s3) (?f - 2)" "ctx_ok (fst s3)" "counted s3 (add_mset val_make_nil M)"
    using l u(2) by (simp_all add: in_use_def intact_def counted_plain)
  ultimately have "counted s' M \<and> same_frame s3 s'" using cell_set_ok [OF m(7)] by blast
  then show ?thesis by (simp add: intact_def same_frame_def)
qed

section \<open>All instructions\<close>

text \<open>The cells of the stack that an instruction uses: its registers, and the cells that \<^verbatim>\<open>CALL\<close> and
  \<^verbatim>\<open>RETURN\<close> turn into a frame and back.\<close>

fun regs_of :: "instr \<Rightarrow> reg list" where
  "regs_of (DEBUGR r) = [r]"
| "regs_of (MOV d r) = [d, r]"
| "regs_of (PUSH r) = [r]"
| "regs_of (POP r) = [r]"
| "regs_of (RETURN r) = [r]"
| "regs_of (CLEAR r) = [r]"
| "regs_of (TRUE r) = [r]"
| "regs_of (LOAD_INT r n) = [r]"
| "regs_of (LOAD_FLOAT r f) = [r]"
| "regs_of (LOAD_STRING r str) = [r]"
| "regs_of (TYPE_OF d r) = [d, r]"
| "regs_of (LOGICAL_AND d a b) = [d, a, b]"
| "regs_of (LOGICAL_OR d a b) = [d, a, b]"
| "regs_of (LOGICAL_NOT d a) = [d, a]"
| "regs_of (EQ d a b) = [d, a, b]"
| "regs_of (LE d a b) = [d, a, b]"
| "regs_of (LT d a b) = [d, a, b]"
| "regs_of (ADD d a b) = [d, a, b]"
| "regs_of (SUB d a b) = [d, a, b]"
| "regs_of (MUL d a b) = [d, a, b]"
| "regs_of (LENGTH_OF d r) = [d, r]"
| "regs_of (CONCAT d a b) = [d, a, b]"
| "regs_of (GETGLOBAL d n) = [d, n]"
| "regs_of (SETGLOBAL n v) = [n, v]"
| "regs_of (MAKE_OBJ d p) = [d, p]"
| "regs_of (SELF r) = [r]"
| "regs_of (PARENT r) = [r]"
| "regs_of _ = []"

fun frame_cells :: "'w eval_ctx \<Rightarrow> instr \<Rightarrow> int list" where
  "frame_cells c (CALL n) = [sp c - int (unat n) - 2]"
| "frame_cells c (RETURN r) = [fp c - 3, fp c - 2]"
| "frame_cells c i = []"

definition in_frame :: "'w eval_ctx \<Rightarrow> instr \<Rightarrow> bool" where
  "in_frame c i \<longleftrightarrow> (\<forall>j \<in> set (map (reg_ix c) (regs_of i) @ frame_cells c i). in_use c j)"

lemma in_frame_ready: "intact s M \<Longrightarrow> few_refs s M \<Longrightarrow> in_frame (fst s) i \<Longrightarrow> ready s M (regs_of i)"
  by (auto simp: in_frame_def ready_def intact_def)

lemmas kept_lemmas = op_mov_kept op_type_kept logical_kept comparison_kept arithmetic_kept op_length_kept
  op_concat_kept op_load_string_kept debug_kept load_kept op_getglobal_kept op_self_kept op_parent_kept

lemma exec_instr_intact:
  assumes "exec_instr H i ip s = Inr (t, s')" "ready s M (regs_of i)" "in_frame (fst s) i" "quiet (h_env H)"
    "\<forall>n. i \<noteq> SYSCALL n"
  shows "intact s' M"
proof (cases i)
  case HALT
  then show ?thesis using assms(1,2) by (auto simp: op_halt_def res_simps intro: halt_intact ready_intact)
next
  case (PUSH r)
  then show ?thesis using assms(1,2) by (auto simp: go_def res_simps intro: op_push_intact)
next
  case (POP r)
  then show ?thesis using assms(1,2) by (auto simp: go_def res_simps intro: op_pop_intact)
next
  case (CALL n)
  then show ?thesis using assms(1,3,4) ready_intact [OF assms(2)]
    by (auto simp: go_to_def res_simps in_frame_def intro: op_call_intact)
next
  case (RETURN r)
  then show ?thesis using assms(1,2,3) by (auto simp: go_to_def res_simps in_frame_def intro: op_return_intact)
next
  case (ARGS_LOCALS n m)
  then show ?thesis using assms(1,2) by (auto simp: go_def res_simps intro: op_args_locals_intact)
next
  case (SETGLOBAL n v)
  then show ?thesis using assms(1,2,4) by (auto simp: res_simps intro: op_setglobal_intact)
next
  case (MAKE_OBJ d p)
  then show ?thesis using assms(1,2,4) by (auto simp: go_def res_simps intro: op_make_obj_intact)
next
  case (SYSCALL n)
  then show ?thesis using assms(5) by simp
qed (use assms(1,2) ready_intact [OF assms(2)] in
    \<open>auto simp: go_def res_simps intro: kept_intact [OF kept_lemmas(1)] kept_intact [OF kept_lemmas(2)]
      dest: kept_lemmas intro: kept_intact\<close>)

end
