(* ===== verification/Cmoo_Eval_Cells.thy ===== *)
theory Cmoo_Eval_Cells
  imports Cmoo_Eval_Refs
begin

text \<open>What the operations of the virtual machine do to single cells of the stack: registers, the three
  cells of a frame, and the loop that clears the stack on a return.\<close>

section \<open>Registers\<close>

lemma reg_ix_eq: "reg_ix c r = reg_ix c q \<longleftrightarrow> r = q"
  by (simp add: reg_ix_def word_uint_eq_iff)

lemma cell_put_get: "cell_put i x c = Inr c' \<Longrightarrow> cell_get c' j = (if j = i then Inr x else cell_get c j)"
  by (auto simp: cell_put_def cell_get_def nth_list_update split: if_splits)

lemma cell_put_length: "cell_put i x c = Inr c' \<Longrightarrow> length (stack c') = length (stack c)"
  by (auto simp: cell_put_def split: if_splits)

lemma cell_put_frame: "cell_put i x c = Inr c' \<Longrightarrow> fp c' = fp c \<and> sp c' = sp c \<and> cur_obj c' = cur_obj c"
  by (auto simp: cell_put_def split: if_splits)

lemma reg_set_get:
  assumes "reg_set d v s = Inr s'"
  shows "reg_val s' q = (if q = d then Inr v else reg_val s q)" "snd s' = snd s"
proof -
  obtain c w where s: "s = (c, w)" by (cases s)
  obtain c' where p: "cell_put (reg_ix c d) (CVal v) c = Inr c'" and s': "s' = (c', w)"
    using assms by (auto simp: s reg_set_def cell_set_def elim!: rbind_InrE)
  have "reg_ix c' = reg_ix c" by (rule ext) (simp add: reg_ix_def cell_put_frame [OF p])
  then show "reg_val s' q = (if q = d then Inr v else reg_val s q)"
    by (simp add: reg_val_def val_at_def s s' cell_put_get [OF p] reg_ix_eq)
  show "snd s' = snd s" by (simp add: s s')
qed

lemma cell_clear_put: "cell_clear i (c, w) = Inr (c', w') \<Longrightarrow> cell_put i (CVal 0) c = Inr c'"
  by (auto simp: cell_clear_def val_clear_def elim!: rbind_InrE split: cell.splits)

lemma reg_clear_get:
  assumes "reg_clear d s = Inr s'"
  shows "reg_val s' q = (if q = d then Inr 0 else reg_val s q)"
proof -
  obtain c w where s: "s = (c, w)" by (cases s)
  obtain c' w' where s': "s' = (c', w')" by (cases s')
  have p: "cell_put (reg_ix c d) (CVal 0) c = Inr c'" using assms by (auto simp: s s' reg_clear_def dest: cell_clear_put)
  have "reg_ix c' = reg_ix c" by (rule ext) (simp add: reg_ix_def cell_put_frame [OF p])
  then show ?thesis
    by (simp add: reg_val_def val_at_def s s' cell_put_get [OF p] reg_ix_eq)
qed

lemma reg_assign_get:
  assumes "reg_assign d v s = Inr s'"
  shows "reg_val s' q = (if q = d then Inr v else reg_val s q)"
proof -
  obtain s1 where "reg_clear d s = Inr s1" "reg_set d v s1 = Inr s'"
    using assms by (auto simp: reg_assign_def elim: rbind_InrE)
  note reg_clear_get [OF this(1), of q] reg_set_get(1) [OF this(2), of q]
  then show ?thesis by simp
qed

lemma reg_clear_then_set:
  assumes "reg_clear d s = Inr s1"
  shows "\<exists>s'. reg_set d v s1 = Inr s'"
proof -
  obtain c w c1 w1 where s: "s = (c, w)" "s1 = (c1, w1)" by (cases s, cases s1)
  have p: "cell_put (reg_ix c d) (CVal 0) c = Inr c1" using assms by (auto simp: s reg_clear_def dest: cell_clear_put)
  then have "0 \<le> reg_ix c1 d \<and> reg_ix c1 d < int (length (stack c1))"
    using cell_put_frame [OF p] cell_put_length [OF p] by (auto simp: cell_put_def reg_ix_def split: if_splits)
  then show ?thesis by (simp add: s reg_set_def cell_set_def cell_put_def)
qed

lemma reg_assign_total: "reg_clear d s = Inr s1 \<Longrightarrow> \<exists>s'. reg_assign d v s = Inr s'"
  using reg_clear_then_set [of d s s1 v] by (simp add: reg_assign_def)

section \<open>The frame of a call\<close>

lemma drop_cell_effect:
  assumes "drop_cell i x (c, w) = Inr (c', w')"
  shows "cell_get c' j = (if j = i then Inr x else cell_get c j)" "fp c' = fp c" "sp c' = sp c" "cur_obj c' = cur_obj c"
    "length (stack c') = length (stack c)"
proof -
  have p: "cell_put i x c = Inr c'" using assms by (auto simp: drop_cell_def elim!: rbind_InrE)
  show "cell_get c' j = (if j = i then Inr x else cell_get c j)" by (rule cell_put_get [OF p])
  show "fp c' = fp c" "sp c' = sp c" "cur_obj c' = cur_obj c" "length (stack c') = length (stack c)"
    using cell_put_frame [OF p] cell_put_length [OF p] by auto
qed

lemma call_frame:
  assumes "op_call H n ip s = Inr (q, s')"
  defines "b \<equiv> sp (fst s) - int (unat n)"
  shows "cell_get (fst s') (b - 2) = Inr (CFp (fp (fst s)))" "cell_get (fst s') (b - 1) = Inr (CCode ip)"
    "cell_get (fst s') b = Inr (CObj (cur_obj (fst s)))" "fp (fst s') = b + 1" "sp (fst s') = sp (fst s)" "snd q = 0"
    "\<And>j. j < b - 2 \<or> b < j \<Longrightarrow> cell_get (fst s') j = cell_get (fst s) j"
    "length (stack (fst s')) = length (stack (fst s))"
proof -
  obtain c w where s: "s = (c, w)" by (cases s)
  have b: "b = sp c - int (unat n)" by (simp only: b_def s fst_conv)
  obtain lo w2 code c3 w3 c4 w4 c5 w5 where
      d: "drop_cell (b - 2) (CFp (fp c)) (c, w2) = Inr (c3, w3)" "drop_cell (b - 1) (CCode ip) (c3, w3) = Inr (c4, w4)"
         "drop_cell b (CObj (cur_obj c)) (c4, w4) = Inr (c5, w5)"
    and s': "s' = (c5\<lparr>cur_obj := Some lo, fp := b + 1\<rparr>, w5)" "q = (code, 0)"
    using assms(1) unfolding op_call_def s Let_def b
    by (auto simp: res_simps split: option.splits)
  note e = drop_cell_effect [OF d(1)] drop_cell_effect [OF d(2)] drop_cell_effect [OF d(3)]
  have get: "cell_get (c5\<lparr>cur_obj := Some lo, fp := b + 1\<rparr>) j = cell_get c5 j" for j by (simp add: cell_get_def)
  show "cell_get (fst s') (b - 2) = Inr (CFp (fp (fst s)))" "cell_get (fst s') (b - 1) = Inr (CCode ip)"
    "cell_get (fst s') b = Inr (CObj (cur_obj (fst s)))" "fp (fst s') = b + 1" "sp (fst s') = sp (fst s)" "snd q = 0"
    "length (stack (fst s')) = length (stack (fst s))"
    by (simp_all add: s s' get e)
  show "cell_get (fst s') j = cell_get (fst s) j" if "j < b - 2 \<or> b < j" for j
    using that by (auto simp: s s' get e)
qed

section \<open>Returning\<close>

lemma cell_clear_cells:
  assumes "cell_clear i (c, w) = Inr (c', w')"
  shows "cell_get c' j = (if j = i then Inr (CVal 0) else cell_get c j)" "fp c' = fp c" "sp c' = sp c" "cur_obj c' = cur_obj c"
  using cell_put_get [OF cell_clear_put [OF assms]] cell_put_frame [OF cell_clear_put [OF assms]] by auto

lemma cell_get_sp [simp]: "cell_get (c\<lparr>sp := x\<rparr>) = cell_get c"
  by (rule ext) (simp add: cell_get_def)

lemma val_at_cell: "val_at c j = Inr u \<Longrightarrow> cell_get c j = Inr (CVal u)"
  by (auto simp: val_at_def elim!: rbind_InrE split: cell.splits)

lemma return_loop_cells:
  assumes "return_loop b s = Inr s'" "b \<le> sp (fst s)"
  shows "sp (fst s') = b \<and> fp (fst s') = fp (fst s) \<and> cur_obj (fst s') = cur_obj (fst s) \<and>
    (\<forall>j \<le> b. cell_get (fst s') j = cell_get (fst s) j)"
  using assms
proof (induction b s rule: return_loop.induct)
  case (1 b c w)
  consider "sp c = b" "s' = (c, w)" | c1 w1 where "b < sp c" "cell_clear (sp c) (c, w) = Inr (c1, w1)"
      "return_loop b (c1\<lparr>sp := sp c - 1\<rparr>, w1) = Inr s'"
    using "1.prems" by (subst (asm) return_loop.simps) (auto simp: res_simps split: if_splits)
  then show ?case
  proof cases
    case 2
    note e = cell_clear_cells [OF 2(2)]
    show ?thesis using "1.IH" [of "(c1, w1)" c1 w1] 2 e by auto
  qed simp
qed

lemma cell_clear_total:
  assumes "intact (c, w) M" "in_use c i" "cell_get c i = Inr x" "\<And>p. x \<noteq> CCode p" "x \<noteq> Uninit"
  shows "\<exists>s'. cell_clear i (c, w) = Inr s'"
proof -
  have ok: "ctx_ok c" and k: "refs_ok (strs w) (all_refs (c, w) + M)" using assms(1) by (simp_all add: intact_def counted_def)
  obtain c' where p: "cell_put i (CVal 0) c = Inr c'"
    using ok assms(2) by (auto simp: cell_put_def ctx_ok_def in_use_def)
  show ?thesis
  proof (cases x)
    case (CVal u)
    then have "val_at c i = Inr u" using assms(3) by (simp add: val_at_def)
    then have "u \<in># all_refs (c, w) + M" using val_at_in_use(2) [OF _ assms(2) ok] by (simp add: all_refs_def)
    then obtain N where "all_refs (c, w) + M = add_mset u N" by (metis mset_add)
    then obtain h where "val_dec_ref u (strs w) = Inr h" using k dec_ref_ok by metis
    then show ?thesis using CVal assms(3) p by (simp add: cell_clear_def val_clear_def)
  qed (use assms(3,4,5) p in \<open>simp_all add: cell_clear_def\<close>)
qed

lemma return_loop_total:
  assumes "intact s M" "0 \<le> b"
    and "\<And>j. b < j \<Longrightarrow> j \<le> sp (fst s) \<Longrightarrow> \<exists>x. cell_get (fst s) j = Inr x \<and> (\<forall>p. x \<noteq> CCode p) \<and> x \<noteq> Uninit"
  shows "\<exists>s'. return_loop b s = Inr s'"
  using assms
proof (induction b s rule: return_loop.induct)
  case (1 b c w)
  show ?case
  proof (cases "sp c \<le> b")
    case False
    then have sp: "1 \<le> sp c" "b < sp c" using "1.prems"(2) by auto
    then obtain x where x: "cell_get c (sp c) = Inr x" "\<forall>p. x \<noteq> CCode p" "x \<noteq> Uninit" using "1.prems"(3) [of "sp c"] by auto
    have "in_use c (sp c)" using sp by (simp add: in_use_def)
    then obtain c1 w1 where cl: "cell_clear (sp c) (c, w) = Inr (c1, w1)"
      using cell_clear_total [OF "1.prems"(1) _ x(1)] x(2,3) by fastforce
    note i = drop_top_intact(1) [OF cl "1.prems"(1) sp(1)]
    have v: "\<exists>x. cell_get (c1\<lparr>sp := sp c - 1\<rparr>) j = Inr x \<and> (\<forall>p. x \<noteq> CCode p) \<and> x \<noteq> Uninit" if "b < j" "j \<le> sp c - 1" for j
      using "1.prems"(3) [of j] that cell_clear_cells(1) [OF cl, of j] by simp
    have "\<exists>s'. return_loop b (c1\<lparr>sp := sp c - 1\<rparr>, w1) = Inr s'"
      using "1.IH" [OF False cl refl _ "1.prems"(2), of ] i v by auto
    then show ?thesis using False cl by (subst return_loop.simps) simp
  qed (subst return_loop.simps, simp)
qed

text \<open>Putting a value into a cell that holds no string: one that needs no count, and one that is counted
  afterwards.\<close>

lemma cell_set_plain:
  assumes "intact (c, w) M" "in_use c i" "no_string (stack c ! nat i)" "val_type v \<noteq> TYPE_STRING"
  obtains c' where "cell_set i v (c, w) = Inr (c', w)" "cell_put i (CVal v) c = Inr c'" "intact (c', w) M"
proof -
  have ok: "ctx_ok c" "counted (c, w) M" using assms(1) by (simp_all add: intact_def)
  obtain c' where p: "cell_put i (CVal v) c = Inr c'" using ok(1) assms(2) by (auto simp: cell_put_def ctx_ok_def in_use_def)
  then have set: "cell_set i v (c, w) = Inr (c', w)" by (simp add: cell_set_def)
  have "counted (c', w) M" using cell_set_ok [OF set, of M] ok assms(2-4) by (simp add: counted_plain)
  moreover have "ctx_ok c'" using cell_put_in_use [OF p assms(2) ok(1)] by simp
  ultimately show ?thesis using that [OF set p] by (simp add: intact_def)
qed

lemma cell_set_counted:
  assumes "intact (c, w) M" "in_use c i" "no_string (stack c ! nat i)" "v \<in># all_refs (c, w) + M"
    and small: "val_type v = TYPE_STRING \<Longrightarrow> count (all_refs (c, w) + M) v < 65535"
  obtains c' w' where "cell_set i v (c, w) = Inr (c', w)" "inc_val v (c', w) = Inr (c', w')"
    "cell_put i (CVal v) c = Inr c'" "intact (c', w') M"
proof -
  have ok: "ctx_ok c" "counted (c, w) M" using assms(1) by (simp_all add: intact_def)
  obtain c' where p: "cell_put i (CVal v) c = Inr c'" using ok(1) assms(2) by (auto simp: cell_put_def ctx_ok_def in_use_def)
  then have set: "cell_set i v (c, w) = Inr (c', w)" by (simp add: cell_set_def)
  have "\<exists>h. val_inc_ref v (strs w) = Inr h"
  proof (cases "val_type v = TYPE_STRING")
    case True
    then show ?thesis using inc_ref_ok [of "strs w" "all_refs (c, w) + M" v] ok(2) assms(4) small
      by (auto simp: counted_def)
  qed (simp add: val_inc_ref_def)
  then obtain h where h: "val_inc_ref v (strs w) = Inr h" by blast
  then have inc: "inc_val v (c', w) = Inr (c', w\<lparr>strs := h\<rparr>)" by (simp add: inc_val_def)
  have "kept (c, w) M (c', w\<lparr>strs := h\<rparr>)"
    using set_then_inc_one [OF set inc ok(2) assms(4)] ok(1) assms(2,3) small by simp
  then show ?thesis using that [OF set inc p] by (simp add: kept_def intact_def same_frame_def)
qed

end
