(* ===== verification/Cmoo_Eval_Props.thy ===== *)
theory Cmoo_Eval_Props
  imports Cmoo_Eval_Cells Cmoo_Data_Props
begin

text \<open>The properties of the virtual machine.\<close>

section \<open>A machine to run examples on\<close>

definition demo_store :: store where
  "demo_store = store_new \<lparr>objects = []\<rparr> 4 8 \<lparr>objs = [], lobjs = []\<rparr> demo_heap"

definition demo_ctx :: "val list \<Rightarrow> store eval_ctx" where
  "demo_ctx vs = (eval_new_ctx 0 0)\<lparr>sp := int (length vs),
     stack := Uninit # map CVal vs @ replicate (1023 - length vs) Uninit\<rparr>"

definition demo_host :: "store host" where
  "demo_host = \<lparr>h_env = (\<lambda>_. None), h_add = (\<lambda>a b. a), h_sub = (\<lambda>a b. a), h_mul = (\<lambda>a b. a),
     h_fmt = (\<lambda>_. []), h_frames = 8\<rparr>"

lemma demo_ctx_simps:
  "sp (demo_ctx vs) = int (length vs)" "fp (demo_ctx vs) = 1" "cur_obj (demo_ctx vs) = None"
  "length vs \<le> 1023 \<Longrightarrow> length (stack (demo_ctx vs)) = 1024"
  "length vs \<le> 1023 \<Longrightarrow> used (demo_ctx vs) = map CVal vs"
  by (simp_all add: demo_ctx_def eval_new_ctx_def used_def)

lemma demo_store_simps: "strs demo_store = demo_heap" "objs (heap demo_store) = []"
  by (simp_all add: demo_store_def store_new_def)


section \<open>Reference counts\<close>



section \<open>Arithmetic\<close>

lemma int_op_exact:
  "int_op (+) x y = (if - (2 ^ 31) \<le> sint x + sint y \<and> sint x + sint y < 2 ^ 31 then Inr (x + y) else Inl Signed_overflow)"
  "int_op (-) x y = (if - (2 ^ 31) \<le> sint x - sint y \<and> sint x - sint y < 2 ^ 31 then Inr (x - y) else Inl Signed_overflow)"
  "int_op (*) x y = (if - (2 ^ 31) \<le> sint x * sint y \<and> sint x * sint y < 2 ^ 31 then Inr (x * y) else Inl Signed_overflow)"
  by (simp_all add: int_op_def Let_def)

definition fits :: "int \<Rightarrow> bool" where
  "fits r \<longleftrightarrow> - (2 ^ 31) \<le> r \<and> r < 2 ^ 31"

lemma int_op_fits:
  "if fits (f (sint x) (sint y)) then \<exists>z. int_op f x y = Inr z \<and> sint z = f (sint x) (sint y)
   else int_op f x y = Inl Signed_overflow"
  by (simp add: int_op_def fits_def Let_def int_word_sint)

text \<open>C23: \<^verbatim>\<open>ADD\<close>, \<^verbatim>\<open>SUB\<close> and \<^verbatim>\<open>MUL\<close> on integers: the target gets the exact result if it fits in 32
  bits, and the operation is undefined behaviour otherwise; no other register changes, and the only way
  for it to fail is the clearing of what the target held. The second
  operand has to be an integer if the first is one (the process aborts otherwise), and if the first
  is neither integer nor float nothing happens at all.\<close>

theorem arithmetic_is_exact:
  assumes "reg_val s a = Inr va" and "reg_val s b = Inr vb"
    and "(op, f) \<in> {(op_add H, (+)), (op_sub H, (-)), (op_mul H, (*))}"
  shows "(val_type va \<noteq> TYPE_INT \<and> val_type va \<noteq> TYPE_FLOAT \<longrightarrow> op d a b s = Inr s)
    \<and> (val_type va = TYPE_INT \<and> val_type vb \<noteq> TYPE_INT \<longrightarrow> op d a b s = Inl Assert_failed)
    \<and> (\<forall>x y. va = val_make_int x \<and> vb = val_make_int y \<longrightarrow>
        (if fits (f (sint x) (sint y)) then
           case reg_clear d s of Inl e \<Rightarrow> op d a b s = Inl e
           | Inr _ \<Rightarrow> \<exists>s' z. op d a b s = Inr s' \<and> sint z = f (sint x) (sint y) \<and>
               (\<forall>q. reg_val s' q = (if q = d then Inr (val_make_int z) else reg_val s q))
         else op d a b s = Inl Signed_overflow))"
proof -
  obtain g where op: "op d a b s = arith_op f g d a b s"
    using assms(3) by (auto simp: op_add_def op_sub_def op_mul_def)
  have idle: "op d a b s = Inr s" if "val_type va \<noteq> TYPE_INT" "val_type va \<noteq> TYPE_FLOAT"
    using assms(1,2) that by (simp add: op arith_op_def)
  have abort: "op d a b s = Inl Assert_failed" if "val_type va = TYPE_INT" "val_type vb \<noteq> TYPE_INT"
  proof -
    have "\<exists>x. val_get_int va = Inr x" using that(1) by (simp add: val_get_int_def)
    moreover have "val_get_int vb = Inl Assert_failed" using that(2) by (simp add: val_get_int_def)
    ultimately show ?thesis using assms(1,2) that by (auto simp: op arith_op_def)
  qed
  have int: "op d a b s = rbind (int_op f x y) (\<lambda>r. reg_assign d (val_make_int r) s)"
    if "va = val_make_int x" "vb = val_make_int y" for x y
    using assms(1,2) by (simp add: op arith_op_def that)
  have over: "op d a b s = Inl Signed_overflow" if "va = val_make_int x" "vb = val_make_int y"
      "\<not> fits (f (sint x) (sint y))" for x y
    using int_op_fits [of f x y] that(3) by (simp add: int [OF that(1,2)])
  have exact: "case reg_clear d s of Inl e \<Rightarrow> op d a b s = Inl e
      | Inr _ \<Rightarrow> \<exists>s' z. op d a b s = Inr s' \<and> sint z = f (sint x) (sint y) \<and>
          (\<forall>q. reg_val s' q = (if q = d then Inr (val_make_int z) else reg_val s q))"
    if h: "va = val_make_int x" "vb = val_make_int y" "fits (f (sint x) (sint y))" for x y
  proof -
    obtain z where z: "int_op f x y = Inr z" "sint z = f (sint x) (sint y)" using int_op_fits [of f x y] h(3) by auto
    show ?thesis
    proof (cases "reg_clear d s")
      case (Inr s1)
      obtain s' where s': "reg_assign d (val_make_int z) s = Inr s'" using reg_assign_total [OF Inr] by blast
      then show ?thesis using int [OF h(1,2)] z reg_assign_get [OF s'] Inr by auto
    qed (simp add: int [OF h(1,2)] z(1) reg_assign_def)
  qed
  have both: "if fits (f (sint x) (sint y)) then
      case reg_clear d s of Inl e \<Rightarrow> op d a b s = Inl e
      | Inr _ \<Rightarrow> \<exists>s' z. op d a b s = Inr s' \<and> sint z = f (sint x) (sint y) \<and>
          (\<forall>q. reg_val s' q = (if q = d then Inr (val_make_int z) else reg_val s q))
      else op d a b s = Inl Signed_overflow" if "va = val_make_int x \<and> vb = val_make_int y" for x y
    using over exact that by auto
  show ?thesis using idle abort both by blast
qed

lemma reg_val_demo:
  assumes "unat q < length vs"
  shows "reg_val (demo_ctx vs, w) q = Inr (vs ! unat q)"
proof -
  have "int (unat q) < int (length vs)" using assms by (simp only: of_nat_less_iff)
  moreover have "nat (1 + uint q) = Suc (unat q)" by (simp add: nat_add_distrib)
  ultimately show ?thesis using assms
    by (simp add: reg_val_def val_at_def cell_get_def reg_ix_def demo_ctx_def eval_new_ctx_def nth_append)
qed

theorem arithmetic_is_exact_witness:
  "op_add demo_host 2 0 1 (demo_ctx [val_make_int 0x7FFFFFFF, val_make_int 1, 0], demo_store) = Inl Signed_overflow \<and>
   (\<exists>s' z. op_mul demo_host 2 0 1 (demo_ctx [val_make_int 6, val_make_int 7, 0], demo_store) = Inr s' \<and>
      reg_val s' 2 = Inr (val_make_int z) \<and> sint z = 42)"
proof -
  have v: "reg_val (demo_ctx [u, v, 0], demo_store) 0 = Inr u" "reg_val (demo_ctx [u, v, 0], demo_store) 1 = Inr v" for u v
    by (simp_all add: reg_val_demo)
  have add: "(op_add demo_host, (+)) \<in> {(op_add demo_host, (+)), (op_sub demo_host, (-)), (op_mul demo_host, (*))}"
    and mul: "(op_mul demo_host, (*)) \<in> {(op_add demo_host, (+)), (op_sub demo_host, (-)), (op_mul demo_host, (*))}" by simp_all
  note t = arithmetic_is_exact [OF v add, THEN conjunct2, THEN conjunct2, THEN spec, THEN spec, THEN mp, OF conjI, OF refl refl]
    and m = arithmetic_is_exact [OF v mul, THEN conjunct2, THEN conjunct2, THEN spec, THEN spec, THEN mp, OF conjI, OF refl refl]
  have "op_add demo_host 2 0 1 (demo_ctx [val_make_int 0x7FFFFFFF, val_make_int 1, 0], demo_store) = Inl Signed_overflow"
    using t [of "0x7FFFFFFF" 1 2] by (simp add: fits_def)
  moreover have "case reg_clear 2 (demo_ctx [val_make_int 6, val_make_int 7, 0], demo_store) of Inl _ \<Rightarrow> False | Inr s' \<Rightarrow> True"
    by code_simp
  then obtain s1 where "reg_clear 2 (demo_ctx [val_make_int 6, val_make_int 7, 0], demo_store) = Inr s1" by (auto split: sum.splits)
  with m [of 6 7 2] obtain s' z where "op_mul demo_host 2 0 1 (demo_ctx [val_make_int 6, val_make_int 7, 0], demo_store) = Inr s'"
      "sint z = 42" "reg_val s' 2 = Inr (val_make_int z)" by (auto simp: fits_def)
  ultimately show ?thesis by blast
qed

section \<open>Comparison\<close>


lemma strncmp_zero:
  "n \<le> length x \<Longrightarrow> n \<le> length y \<Longrightarrow>
     \<exists>r. strncmp (x @ xs) (y @ ys) n = Inr r \<and> (r = 0 \<longleftrightarrow> cstr (take n x) = cstr (take n y))"
proof (induction n arbitrary: x y)
  case (Suc n)
  then obtain a x' b y' where e: "x = a # x'" "y = b # y'" "n \<le> length x'" "n \<le> length y'"
    by (metis Suc_le_length_iff)
  then show ?case using Suc.IH [OF e(3,4)] by (auto simp: cstr_def word_gt_0)
qed (simp add: cstr_def)

lemma val_type_cases:
  obtains "val_type v = 0" | "val_type v = 1" | "val_type v = 2" | "val_type v = 3" | "val_type v = 4" | "val_type v = 5"
    | "val_type v = 6" | "val_type v = 7"
proof -
  have "v AND 7 \<le> 7" by (rule word_and_le1)
  then have "unat (v AND 7) \<le> unat (7 :: 64 word)" by (simp only: word_le_nat_alt)
  then have "val_type v \<le> 7" by (simp add: val_type_def)
  then show ?thesis using that by linarith
qed

lemma string_of_ok:
  assumes "refs_ok (strs (snd s)) N" "v \<in># N" "val_type v = TYPE_STRING"
  obtains x where "string_of v s = Inr (length x, x @ [0])" "val_decode v (strs (snd s)) = Inr (DString x)"
proof -
  obtain x where x: "val_get_string_data v (strs (snd s)) = Inr (x @ [0])"
    "val_get_string_len v (strs (snd s)) = Inr (of_nat (length x))" "length x < 2 ^ 16"
    by (rule string_data_ok [OF assms])
  have "unat (of_nat (length x) :: 16 word) = length x" using x(3) by (simp add: unat_of_nat)
  then show ?thesis using that [of x] x assms(3) by (simp add: string_of_def val_decode_def)
qed

lemma decode_type:
  assumes "val_decode v h = Inr d"
  shows "val_type v = (case d of DNil \<Rightarrow> 0 | DBool _ \<Rightarrow> 1 | DInt _ \<Rightarrow> 2 | DFloat _ \<Rightarrow> 3 | DString _ \<Rightarrow> 4 | DObj _ \<Rightarrow> 5
    | DSpecial _ \<Rightarrow> if val_type v = 7 then 7 else 6)"
  by (rule val_type_cases [of v]) (use assms in \<open>auto simp: val_decode_def res_simps\<close>)

lemma string_of_decode:
  assumes "refs_ok (strs (snd s)) N" "v \<in># N" "val_decode v (strs (snd s)) = Inr (DString x)"
  shows "string_of v s = Inr (length x, x @ [0])" "val_type v = TYPE_STRING"
proof -
  show t: "val_type v = TYPE_STRING" using decode_type [OF assms(3)] by simp
  show "string_of v s = Inr (length x, x @ [0])"
    by (rule string_of_ok [OF assms(1,2) t]) (use assms(3) in simp)
qed


lemma reg_clear_total:
  assumes "intact s M" "in_use (fst s) (reg_ix (fst s) d)" "reg_val s d = Inr u"
  shows "\<exists>s'. reg_clear d s = Inr s'"
proof -
  obtain c w where s: "s = (c, w)" by (cases s)
  have at: "val_at c (reg_ix c d) = Inr u" using assms(3) by (simp add: s reg_val_def)
  have ok: "ctx_ok c" "in_use c (reg_ix c d)" using assms(1,2) by (simp_all add: s intact_def)
  have g: "cell_get c (reg_ix c d) = Inr (CVal u)"
    using at by (auto simp: val_at_def elim!: rbind_InrE split: cell.splits)
  then obtain c' where p: "cell_put (reg_ix c d) (CVal 0) c = Inr c'"
    by (auto simp: cell_get_def cell_put_def split: if_splits)
  have "u \<in># all_refs s + M" using val_at_in_use(2) [OF at ok(2,1)] by (simp add: s all_refs_def)
  then obtain N where "all_refs s + M = add_mset u N" by (metis mset_add)
  then obtain h where "val_dec_ref u (strs w) = Inr h"
    using assms(1) dec_ref_ok [of "strs w" u N] by (metis counted_def intact_def s snd_conv)
  then show ?thesis by (simp add: reg_clear_def cell_clear_def s g val_clear_def p)
qed

lemma decode_same:
  assumes "same_strings h h'" "val_type v = TYPE_STRING \<Longrightarrow> cells h (string_addr v) \<noteq> None \<and> cells h' (string_addr v) \<noteq> None"
  shows "val_decode v h' = val_decode v h"
proof (cases "val_type v = TYPE_STRING")
  case True
  obtain a b where ab: "cells h (string_addr v) = Some a" "cells h' (string_addr v) = Some b" using assms(2) [OF True] by auto
  have "hs_data b = hs_data a \<and> hs_length b = hs_length a" using assms(1) ab unfolding same_strings_def by blast
  then show ?thesis using True ab by (simp add: val_decode_def val_get_string_len_def val_get_string_data_def string_get_def)
qed (simp add: val_decode_def)

lemma refs_live: "refs_ok h N \<Longrightarrow> v \<in># N \<Longrightarrow> val_type v = TYPE_STRING \<Longrightarrow> cells h (string_addr v) \<noteq> None"
  by (auto simp: refs_ok_def)

text \<open>The other operands survive the clearing of the target.\<close>

lemma clear_keeps_operand:
  assumes c: "reg_clear d s = Inr s1" and i: "intact s M"
    and use: "in_use (fst s) (reg_ix (fst s) d)" "in_use (fst s) (reg_ix (fst s) a)" and a: "d \<noteq> a" "reg_val s a = Inr va"
  shows "reg_val s1 a = Inr va" "refs_ok (strs (snd s1)) (all_refs s1 + M)" "va \<in># all_refs s1 + M"
    "val_decode va (strs (snd s1)) = val_decode va (strs (snd s))" "in_use (fst s1) (reg_ix (fst s1) d)" "ctx_ok (fst s1)"
proof -
  have cnt: "counted s M" "ctx_ok (fst s)" using i by (simp_all add: intact_def)
  note k = cell_clear_ok [OF cnt use(1) c [unfolded reg_clear_def]]
  have f: "same_frame s s1" and st: "same_strings (strs (snd s)) (strs (snd s1))" using k by auto
  show r1: "refs_ok (strs (snd s1)) (all_refs s1 + M)" using k by (simp add: counted_def)
  show v1: "reg_val s1 a = Inr va" using reg_clear_get [OF c] a by simp
  show u: "in_use (fst s1) (reg_ix (fst s1) d)" "ctx_ok (fst s1)"
    using use same_frame_in_use [OF f] same_frame_reg_ix [OF f] f by (simp_all add: same_frame_def)
  have ua: "in_use (fst s1) (reg_ix (fst s1) a)" using use(2) same_frame_in_use [OF f] same_frame_reg_ix [OF f] by simp
  show m: "va \<in># all_refs s1 + M"
    using val_at_in_use(2) [OF _ ua u(2)] v1 by (simp add: reg_val_def all_refs_def)
  have "va \<in># all_refs s + M"
    using val_at_in_use(2) [OF _ use(2) cnt(2)] a(2) by (simp add: reg_val_def all_refs_def)
  then show "val_decode va (strs (snd s1)) = val_decode va (strs (snd s))"
    using decode_same [OF st] refs_live [OF r1 m] refs_live cnt(1) by (metis counted_def)
qed



lemma compare_op_into:
  assumes "compare_op f d a b s = Inr s'" "d = a \<or> d = b" "reg_val s a = Inr va"
  obtains s1 x y r where "f x y s1 = Inr r" "reg_val s' d = Inr (val_make_bool r)" "x = 0 \<or> y = 0" "d \<noteq> a \<Longrightarrow> x = va \<and> y = 0"
proof -
  obtain s1 x y r where m: "reg_clear d s = Inr s1" "reg_val s1 a = Inr x" "reg_val s1 b = Inr y" "f x y s1 = Inr r"
      "reg_set d (val_make_bool r) s1 = Inr s'"
    using assms(1) by (auto simp: compare_op_def elim!: rbind_InrE)
  show ?thesis
    using that [OF m(4)] reg_set_get(1) [OF m(5), of d] m(2,3) reg_clear_get [OF m(1), of a] reg_clear_get [OF m(1), of b]
      assms(2,3) by (auto split: if_splits)
qed

lemma le_lt_compare:
  "op_le d a b s = Inr s' \<Longrightarrow> compare_op le_result d a b s = Inr s'"
  "op_lt d a b s = Inr s' \<Longrightarrow> compare_op lt_result d a b s = Inr s'"
  unfolding op_le_def op_lt_def by (auto elim: rbind_InrE)

text \<open>The comparisons clear their target before they read their operands (a comment in the code
  calls this rubbish). If the target is one of the operands, the result is false whatever is compared;
  if it is the second operand of \<^verbatim>\<open>LE\<close> or \<^verbatim>\<open>LT\<close> and the first is an integer, the process aborts.\<close>

lemma compare_into_operand:
  assumes "reg_val s a = Inr va" and "d = a \<or> d = b"
  shows "(\<forall>s'. op_eq d a b s = Inr s' \<or> op_le d a b s = Inr s' \<or> op_lt d a b s = Inr s' \<longrightarrow>
      reg_val s' d = Inr (val_make_bool False)) \<and>
    (d \<noteq> a \<and> val_type va = TYPE_INT \<longrightarrow> (\<forall>s'. op_le d a b s \<noteq> Inr s' \<and> op_lt d a b s \<noteq> Inr s'))"
proof -
  have eq: "\<not> r" if "eq_result x y s1 = Inr r" "x = 0 \<or> y = 0" for x y r and s1 :: "'a store_scheme st"
    using that by (auto simp: eq_result_def split: if_splits)
  have ord: "\<not> r" if "le_result x y s1 = Inr r \<or> lt_result x y s1 = Inr r" "x = 0 \<or> y = 0" for x y r and s1 :: "'a store_scheme st"
    using that by (auto simp: le_result_def lt_result_def val_get_int_def string_of_def val_get_string_len_def res_simps split: if_splits)
  have int: "val_type x \<noteq> TYPE_INT" if "le_result x 0 s1 = Inr r \<or> lt_result x 0 s1 = Inr r" for x r and s1 :: "'a store_scheme st"
    using that by (auto simp: le_result_def lt_result_def val_get_int_def res_simps)
  have "reg_val s' d = Inr (val_make_bool False)"
    if h: "op_eq d a b s = Inr s' \<or> op_le d a b s = Inr s' \<or> op_lt d a b s = Inr s'" for s'
  proof -
    consider "compare_op eq_result d a b s = Inr s'" | "compare_op le_result d a b s = Inr s'" | "compare_op lt_result d a b s = Inr s'"
      using h le_lt_compare [of d a b s s'] unfolding op_eq_def by blast
    then show ?thesis
      by cases (erule compare_op_into [OF _ assms(2,1)], use eq ord in \<open>metis (full_types)\<close>)+
  qed
  moreover have "op_le d a b s \<noteq> Inr s' \<and> op_lt d a b s \<noteq> Inr s'" if h: "d \<noteq> a" "val_type va = TYPE_INT" for s'
  proof (intro conjI notI)
    show False if "op_le d a b s = Inr s'"
      by (rule compare_op_into [OF le_lt_compare(1) [OF that] assms(2,1)]) (use int h in metis)
    show False if "op_lt d a b s = Inr s'"
      by (rule compare_op_into [OF le_lt_compare(2) [OF that] assms(2,1)]) (use int h in metis)
  qed
  ultimately show ?thesis by blast
qed

lemma compare_into_operand_example:
  "\<exists>s'. op_lt 0 0 1 (demo_ctx [val_make_int 3, val_make_int 4], demo_store) = Inr s' \<and>
     reg_val s' 0 = Inr (val_make_bool False) \<and> (3 :: int) < 4"
proof -
  let ?s = "(demo_ctx [val_make_int 3, val_make_int 4], demo_store)"
  have "case op_lt 0 0 1 ?s of Inl _ \<Rightarrow> False | Inr s' \<Rightarrow> True" by code_simp
  then obtain s' where s': "op_lt 0 0 1 ?s = Inr s'" by (auto split: sum.splits)
  have "reg_val ?s 0 = Inr (val_make_int 3)" by (simp add: reg_val_demo)
  from compare_into_operand [OF this, of 0 1] s' have "reg_val s' 0 = Inr (val_make_bool False)" by blast
  then show ?thesis using s' by (intro exI [of _ s']) simp
qed

text \<open>The order of strings. If one string is a prefix of the other, \<^verbatim>\<open>LT\<close> says that it is
  not smaller and \<^verbatim>\<open>LE\<close> that the longer one is at most as large: the result of comparing the lengths
  is overwritten.\<close>

lemma string_order_ignores_length:
  assumes "refs_ok (strs (snd s)) (all_refs s + M)" and "ctx_ok (fst s)" and "in_frame (fst s) (LT d a b)"
    and "d \<noteq> a" and "d \<noteq> b" and "reg_val s d = Inr u" and "reg_val s a = Inr va" and "reg_val s b = Inr vb"
    and "val_decode va (strs (snd s)) = Inr (DString x)" and "val_decode vb (strs (snd s)) = Inr (DString (x @ z))"
  shows "(\<exists>s'. op_lt d a b s = Inr s' \<and> reg_val s' d = Inr (val_make_bool False)) \<and>
    (\<exists>s'. op_le d b a s = Inr s' \<and> reg_val s' d = Inr (val_make_bool True))"
proof -
  have i: "intact s M" using assms(1,2) by (simp add: intact_def counted_def)
  have use: "in_use (fst s) (reg_ix (fst s) d)" "in_use (fst s) (reg_ix (fst s) a)" "in_use (fst s) (reg_ix (fst s) b)"
    using assms(3) by (simp_all add: in_frame_def)
  obtain s1 where c: "reg_clear d s = Inr s1" using reg_clear_total [OF i use(1) assms(6)] by blast
  note ka = clear_keeps_operand [OF c i use(1,2) assms(4,7)] and kb = clear_keeps_operand [OF c i use(1,3) assms(5,8)]
  note sa = string_of_decode [OF ka(2,3), of x, unfolded ka(4), OF assms(9)]
  note sb = string_of_decode [OF kb(2,3), of "x @ z", unfolded kb(4), OF assms(10)]
  have "strncmp (x @ [0]) (x @ (z @ [0])) (length x) = Inr 0" "strncmp (x @ (z @ [0])) (x @ [0]) (length x) = Inr 0"
    "strncmp (x @ [0]) (x @ [0]) (length x) = Inr 0"
    using strncmp_zero [of "length x" x x "[0]" "z @ [0]"] strncmp_zero [of "length x" x x "z @ [0]" "[0]"]
      strncmp_zero [of "length x" x x "[0]" "[0]"] by auto
  then have e: "lt_result va vb s1 = Inr False" "le_result vb va s1 = Inr True"
    using sa sb by (simp_all add: lt_result_def le_result_def Let_def)
  obtain lt le where s': "reg_set d (val_make_bool False) s1 = Inr lt" "reg_set d (val_make_bool True) s1 = Inr le"
    using reg_clear_then_set [OF c] by blast
  have "op_lt d a b s = Inr lt" "op_le d b a s = Inr le"
    by (simp_all add: op_lt_def op_le_def types_of_def compare_op_def assms(7,8) c ka(1) kb(1) e s')
  then show ?thesis using reg_set_get(1) [OF s'(1)] reg_set_get(1) [OF s'(2)] by simp
qed

text \<open>A machine with the strings \<^verbatim>\<open>ab\<close> and \<^verbatim>\<open>abc\<close> in its first two registers.\<close>

definition two_strings :: sheap where
  "two_strings = demo_heap\<lparr>avail := [48, 64],
     cells := [16 \<mapsto> \<lparr>ref_count = 1, hs_length = 2, hs_data = lit ''ab'' @ [0]\<rparr>,
               32 \<mapsto> \<lparr>ref_count = 1, hs_length = 3, hs_data = lit ''abc'' @ [0]\<rparr>]\<rparr>"

lemma two_strings_ok: "refs_ok two_strings {#20, 36, 0#}"
proof -
  obtain v h where v: "val_make_string 2 (lit ''ab'') demo_heap = Inr (v, h)"
      "v = 20" "h = \<lparr>cells = [16 \<mapsto> \<lparr>ref_count = 1, hs_length = 2, hs_data = lit ''ab'' @ [0]\<rparr>], avail = [32, 48, 64]\<rparr>"
    by (simp add: val_make_string_def string_malloc_def demo_heap_def lit_def)
  obtain w k where w: "val_make_string 3 (lit ''abc'') h = Inr (w, k)" "w = 36" "k = two_strings"
    by (simp add: v val_make_string_def string_malloc_def demo_heap_def lit_def two_strings_def)
  have "refs_ok k (add_mset w (add_mset v {#}))"
    using make_string_ok [OF demo_refs_ok v(1)] make_string_ok [of h _ 3 "lit ''abc''" w k] w(1) by blast
  then have "refs_ok two_strings (add_mset 0 {#20, 36#})" unfolding v w by (simp add: refs_ok_nonstring add_mset_commute)
  then show ?thesis by (simp add: add_mset_commute)
qed

lemma string_order_ignores_length_example:
  "\<exists>s'. op_lt 2 0 1 (demo_ctx [20, 36, 0], demo_store\<lparr>strs := two_strings\<rparr>) = Inr s' \<and> reg_val s' 2 = Inr (val_make_bool False)"
proof -
  let ?s = "(demo_ctx [20, 36, 0], demo_store\<lparr>strs := two_strings\<rparr>)"
  have "all_refs ?s + {#} = {#20, 36, 0#}"
    by (simp add: all_refs_def stack_refs_def demo_ctx_simps demo_store_simps object_refs_def)
  then have r: "refs_ok (strs (snd ?s)) (all_refs ?s + {#})" using two_strings_ok by simp
  have c: "ctx_ok (fst ?s)" by (simp add: ctx_ok_def demo_ctx_simps INITIAL_STACK_SIZE_def)
  have fr: "in_frame (fst ?s) (LT 2 0 1)" by (simp add: in_frame_def in_use_def reg_ix_def demo_ctx_simps)
  have v: "reg_val ?s 2 = Inr 0" "reg_val ?s 0 = Inr 20" "reg_val ?s 1 = Inr 36" by (simp_all add: reg_val_demo)
  have d: "val_decode 20 (strs (snd ?s)) = Inr (DString (lit ''ab''))" "val_decode 36 (strs (snd ?s)) = Inr (DString (lit ''ab'' @ lit ''c''))"
    by (simp; code_simp)+
  show ?thesis using string_order_ignores_length [OF r c fr _ _ v d] by simp
qed

end
