(* ===== verification/Cmoo_Eval_Types.thy ===== *)
theory Cmoo_Eval_Types
  imports Cmoo_Eval_Cells
begin

text \<open>
  The stack discipline of the virtual machine. A stack conforms if it is a chain of frames, each on
  top of the three cells that \<^verbatim>\<open>CALL\<close> writes, with nothing but values inside of them. Every instruction
  that stays inside its frame keeps the stack conforming, and never reads a cell by a member of the
  union that was not written last. A computation is \<open>safe\<close> with respect to a set of faults if it has none of
  them; the rules for the pieces of the machine are proved for any set of faults that single cells can have.
\<close>

section \<open>Conforming stacks\<close>

definition value_at :: "(int \<Rightarrow> cell res) \<Rightarrow> int \<Rightarrow> bool" where
  "value_at g j \<longleftrightarrow> (\<exists>v. g j = Inr (CVal v))"

inductive frames :: "(int \<Rightarrow> cell res) \<Rightarrow> int \<Rightarrow> int \<Rightarrow> bool" for g where
  outermost: "0 \<le> t \<Longrightarrow> \<forall>j \<in> {1..t}. value_at g j \<Longrightarrow> frames g 1 t"
| called: "frames g f' (f - 4) \<Longrightarrow> f - 1 \<le> t \<Longrightarrow> g (f - 3) = Inr (CFp f') \<Longrightarrow> g (f - 2) = Inr (CCode ip) \<Longrightarrow>
    g (f - 1) = Inr (CObj ob) \<Longrightarrow> \<forall>j \<in> {f..t}. value_at g j \<Longrightarrow> frames g f t"

inductive_cases framesE: "frames g f t"

lemma frames_bounds: "frames g f t \<Longrightarrow> 1 \<le> f \<and> f - 1 \<le> t"
  by (induction rule: frames.induct) auto

lemma frames_cong: "frames g f t \<Longrightarrow> (\<And>j. j \<le> t \<Longrightarrow> g' j = g j) \<Longrightarrow> frames g' f t"
proof (induction rule: frames.induct)
  case (outermost t)
  then show ?case by (auto intro!: frames.outermost simp: value_at_def)
next
  case (called f' f t ip ob)
  have "frames g' f' (f - 4)" by (rule called.IH) (use called.hyps(2) called.prems in simp)
  then show ?case by (rule frames.called) (use called in \<open>auto simp: value_at_def\<close>)
qed

text \<open>Only the topmost frame changes.\<close>

lemma frames_top:
  assumes "frames g f t" "\<And>j. j < f \<Longrightarrow> g' j = g j" "f - 1 \<le> t'" "\<forall>j \<in> {f..t'}. value_at g' j"
  shows "frames g' f t'"
  using assms(1)
proof cases
  case outermost
  then show ?thesis using assms(3,4) by (auto intro: frames.outermost)
next
  case (called f' ip ob)
  have "frames g' f' (f - 4)" by (rule frames_cong [OF called(1)]) (use assms(2) in simp)
  then show ?thesis by (rule frames.called) (use called assms(2-4) in simp_all)
qed

definition conforms :: "'w eval_ctx \<Rightarrow> bool" where
  "conforms c \<longleftrightarrow> ctx_ok c \<and> frames (cell_get c) (fp c) (sp c)"

text \<open>Conforming, with a given topmost frame.\<close>

definition at_frame :: "int \<Rightarrow> int \<Rightarrow> 'w eval_ctx \<Rightarrow> bool" where
  "at_frame f t c \<longleftrightarrow> conforms c \<and> fp c = f \<and> sp c = t"

lemma at_frame_bounds: "at_frame f t c \<Longrightarrow> 1 \<le> f \<and> f - 1 \<le> t \<and> t < 1024"
  using frames_bounds [of "cell_get c" f t] by (auto simp: at_frame_def conforms_def ctx_ok_def INITIAL_STACK_SIZE_def)

lemma at_frame_value:
  assumes "at_frame f t c" "f \<le> i" "i \<le> t"
  shows "\<exists>v. cell_get c i = Inr (CVal v)"
proof -
  have "frames (cell_get c) f t" using assms(1) by (auto simp: at_frame_def conforms_def)
  then show ?thesis using assms(2,3) by cases (auto simp: value_at_def)
qed

text \<open>A value put into the topmost frame, or on top of it, and dropping the top.\<close>

lemma at_frame_put:
  assumes "at_frame f t c" "f \<le> i" "i \<le> t + 1" "cell_put i (CVal v) c' = Inr c''" "c' = c\<lparr>sp := max t i\<rparr>"
  shows "at_frame f (max t i) c''"
proof -
  note b = at_frame_bounds [OF assms(1)] and g = cell_put_get [OF assms(4)] and fr = cell_put_frame [OF assms(4)]
  have c: "ctx_ok c" "frames (cell_get c) f t" "fp c = f" using assms(1) by (auto simp: at_frame_def conforms_def)
  have g': "cell_get c'' j = (if j = i then Inr (CVal v) else cell_get c j)" for j using g [of j] by (simp add: assms(5))
  have i: "i < int INITIAL_STACK_SIZE" "length (stack c'') = INITIAL_STACK_SIZE"
    using assms(4,5) c(1) by (auto simp: cell_put_def ctx_ok_def split: if_splits)
  have "frames (cell_get c'') f (max t i)"
  proof (rule frames_top [OF c(2)])
    show "\<forall>j \<in> {f..max t i}. value_at (cell_get c'') j"
    proof
      fix j assume j: "j \<in> {f..max t i}"
      show "value_at (cell_get c'') j"
        using j assms(3) at_frame_value [OF assms(1), of j] by (cases "j = i") (auto simp: value_at_def g')
    qed
  qed (use assms(2) b g' in auto)
  then show ?thesis using i c fr b by (auto simp: at_frame_def conforms_def ctx_ok_def assms(5) INITIAL_STACK_SIZE_def)
qed

lemma at_frame_set:
  assumes "at_frame f t c" "f \<le> i" "i \<le> t" "cell_put i (CVal v) c = Inr c'"
  shows "at_frame f t c'"
proof -
  have "c = c\<lparr>sp := max t i\<rparr>" using assms(1,3) by (simp add: at_frame_def max_absorb1)
  from at_frame_put [OF assms(1,2) _ assms(4) this] show ?thesis using assms(3) by (simp add: max_absorb1)
qed

lemma at_frame_drop:
  assumes "at_frame f t c" "f \<le> t"
  shows "at_frame f (t - 1) (c\<lparr>sp := t - 1\<rparr>)"
proof -
  have c: "ctx_ok c" "frames (cell_get c) f t" "fp c = f" "sp c = t" using assms(1) by (auto simp: at_frame_def conforms_def)
  have "frames (cell_get (c\<lparr>sp := t - 1\<rparr>)) f (t - 1)"
    by (rule frames_top [OF c(2)]) (use assms(2) at_frame_value [OF assms(1)] in \<open>auto simp: value_at_def\<close>)
  then show ?thesis using c assms(2) at_frame_bounds [OF assms(1)] by (simp add: at_frame_def conforms_def ctx_ok_def)
qed

section \<open>Computations without certain faults\<close>

definition safe :: "fault set \<Rightarrow> ('a \<Rightarrow> bool) \<Rightarrow> 'a res \<Rightarrow> bool" where
  "safe F P m \<longleftrightarrow> (case m of Inl e \<Rightarrow> e \<notin> F | Inr x \<Rightarrow> P x)"

lemma safe_simps [simp]: "safe F P (Inl e) \<longleftrightarrow> e \<notin> F" "safe F P (Inr x) \<longleftrightarrow> P x"
  by (simp_all add: safe_def)

lemma safe_bind: "safe F Q m \<Longrightarrow> (\<And>x. m = Inr x \<Longrightarrow> Q x \<Longrightarrow> safe F P (k x)) \<Longrightarrow> safe F P (rbind m k)"
  by (cases m) auto

lemma safe_conseq: "safe F Q m \<Longrightarrow> (\<And>x. m = Inr x \<Longrightarrow> Q x \<Longrightarrow> P x) \<Longrightarrow> safe F P m"
  by (cases m) auto

text \<open>Without a condition on the result.\<close>

definition tame :: "fault set \<Rightarrow> 'a res \<Rightarrow> bool" where
  "tame F m \<longleftrightarrow> (\<forall>e \<in> F. m \<noteq> Inl e)"

lemma tame_simps [simp]: "tame F (Inr x)" "tame F (Inl e) \<longleftrightarrow> e \<notin> F"
  by (auto simp: tame_def)

lemma tame_bind: "tame F m \<Longrightarrow> (\<And>x. m = Inr x \<Longrightarrow> tame F (k x)) \<Longrightarrow> tame F (rbind m k)"
  by (cases m) auto

lemma safe_tame: "tame F m \<Longrightarrow> (\<And>x. m = Inr x \<Longrightarrow> P x) \<Longrightarrow> safe F P m"
  by (cases m) (auto simp: tame_def)

lemma safe_tame_bind: "tame F m \<Longrightarrow> (\<And>x. m = Inr x \<Longrightarrow> safe F P (k x)) \<Longrightarrow> safe F P (rbind m k)"
  by (cases m) (auto simp: tame_def)

text \<open>The faults that only reading cells has.\<close>

locale cell_faults =
  fixes F :: "fault set"
  assumes cell_faults: "F \<subseteq> {Wrong_member, Uninit_read}"
begin

lemma others [simp]:
  "Assert_failed \<notin> F" "Fatal_exit \<notin> F" "Null_deref \<notin> F" "Use_after_free \<notin> F" "Out_of_bounds \<notin> F" "Signed_overflow \<notin> F"
  "Div_by_zero \<notin> F" "Heap_corruption \<notin> F" "Malloc_failed \<notin> F" "Stack_overflow \<notin> F" "Blocked \<notin> F"
  using cell_faults by auto

lemma tame_assert [simp]: "tame F (c_assert b)"
  by (cases b) simp_all

lemma tame_heap_get [simp]: "tame F (heap_get h a)"
  by (auto simp: heap_get_def split: option.splits)

lemma tame_values [simp]:
  "tame F (string_get v h)" "tame F (val_inc_ref v h)" "tame F (val_dec_ref v h)" "tame F (val_clear v h)"
  "tame F (val_get_bool v)" "tame F (val_get_int v)" "tame F (val_get_float v)" "tame F (val_get_objref v)"
  "tame F (val_get_string_data v h)" "tame F (val_get_string_len v h)" "tame F (val_make_objref i)"
  "tame F (val_make_string n s h)"
proof -
  show g [simp]: "tame F (string_get v h)" by (auto simp: string_get_def split: option.splits)
  show d [simp]: "tame F (val_inc_ref v h)" "tame F (val_dec_ref v h)"
    by (auto simp: val_inc_ref_def val_dec_ref_def Let_def intro!: tame_bind)
  show "tame F (val_clear v h)" "tame F (val_get_bool v)" "tame F (val_get_int v)" "tame F (val_get_float v)"
    "tame F (val_get_objref v)" "tame F (val_get_string_data v h)" "tame F (val_get_string_len v h)" "tame F (val_make_objref i)"
    by (auto simp: val_clear_def val_get_bool_def val_get_int_def val_get_float_def val_get_objref_def
        val_get_string_data_def val_get_string_len_def val_make_objref_def intro!: tame_bind)
  show "tame F (val_make_string n s h)"
    by (auto simp: val_make_string_def string_malloc_def intro!: tame_bind split: list.splits)
qed

lemma tame_val_print [simp]: "tame F (val_print fmt v h)"
  by (auto simp: val_print_def intro!: tame_bind)

lemma tame_strings [simp]: "tame F (strncmp xs ys n)" "tame F (string_of v s)"
  by (induction xs ys n rule: strncmp.induct) (auto simp: string_of_def intro!: tame_bind)

lemma tame_results [simp]: "tame F (eq_result a b s)" "tame F (le_result a b s)" "tame F (lt_result a b s)"
  by (auto simp: eq_result_def le_result_def lt_result_def Let_def intro!: tame_bind)

lemma tame_objects [simp]:
  "tame F (lobject_get_object lo h)" "tame F (lobj_object lo h)" "tame F (lobj_id lo h)" "tame F (lobj_lock lo h)"
  "tame F (obj_get_parent ob i)" "tame F (obj_get_global ob name sh)" "tame F (obj_set_global name v (ob, sh))"
  "tame F (set_global_at a name v (h, sh))" "tame F (cur_object s)"
proof -
  show g [simp]: "tame F (lobject_get_object lo h)" for lo h by (auto simp: lobject_get_object_def intro!: tame_bind)
  show o [simp]: "tame F (lobj_object lo h)" by (auto simp: lobj_object_def deref_def intro!: tame_bind split: option.splits)
  show "tame F (lobj_id lo h)" by (auto simp: lobj_id_def intro!: tame_bind)
  show "tame F (lobj_lock lo h)" by (auto simp: lobj_lock_def lobject_get_lock_def intro!: tame_bind split: option.splits)
  show "tame F (obj_get_parent ob i)" by (auto simp: obj_get_parent_def intro!: tame_bind split: option.splits)
  show "tame F (obj_get_global ob name sh)" by (auto simp: obj_get_global_def intro!: tame_bind split: option.splits)
  show s [simp]: "tame F (obj_set_global name v (ob, sh))" for ob sh
    by (auto simp: obj_set_global_def intro!: tame_bind split: option.splits)
  show "tame F (set_global_at a name v (h, sh))" by (auto simp: set_global_at_def intro!: tame_bind)
  show "tame F (cur_object s)" by (cases s) (auto simp: cur_object_def intro!: tame_bind split: option.splits)
qed

section \<open>Cells and registers\<close>

lemma tame_cell_put [simp]: "tame F (cell_put i x c)"
  by (simp add: cell_put_def)

lemma tame_val_at: "at_frame f t c \<Longrightarrow> f \<le> i \<Longrightarrow> i \<le> t \<Longrightarrow> tame F (val_at c i)"
  by (drule (2) at_frame_value) (auto simp: val_at_def)

lemma tame_reg_val: "at_frame f t (fst s) \<Longrightarrow> f + int (unat r) \<le> t \<Longrightarrow> tame F (reg_val s r)"
  by (simp add: reg_val_def reg_ix_def at_frame_def tame_val_at [of f t])

lemma cell_set_safe: "at_frame f t (fst s) \<Longrightarrow> f \<le> i \<Longrightarrow> i \<le> t \<Longrightarrow> safe F (\<lambda>s'. at_frame f t (fst s')) (cell_set i v s)"
  by (cases s) (auto simp: cell_set_def intro!: safe_tame_bind intro: at_frame_set)

lemma cell_clear_safe:
  assumes "at_frame f t (fst s)" "f \<le> i" "i \<le> t"
  shows "safe F (\<lambda>s'. at_frame f t (fst s')) (cell_clear i s)"
proof -
  obtain v where "cell_get (fst s) i = Inr (CVal v)" using at_frame_value [OF assms] by blast
  then show ?thesis using assms
    by (cases s) (auto simp: cell_clear_def intro!: safe_tame_bind tame_bind intro: at_frame_set)
qed

lemma reg_set_safe: "at_frame f t (fst s) \<Longrightarrow> f + int (unat d) \<le> t \<Longrightarrow> safe F (\<lambda>s'. at_frame f t (fst s')) (reg_set d v s)"
  by (auto simp: reg_set_def reg_ix_def at_frame_def intro!: cell_set_safe [unfolded at_frame_def])

lemma reg_clear_safe: "at_frame f t (fst s) \<Longrightarrow> f + int (unat d) \<le> t \<Longrightarrow> safe F (\<lambda>s'. at_frame f t (fst s')) (reg_clear d s)"
  by (auto simp: reg_clear_def reg_ix_def at_frame_def intro!: cell_clear_safe [unfolded at_frame_def])

lemma reg_assign_safe:
  "at_frame f t (fst s) \<Longrightarrow> f + int (unat d) \<le> t \<Longrightarrow> safe F (\<lambda>s'. at_frame f t (fst s')) (reg_assign d v s)"
  by (auto simp: reg_assign_def intro!: safe_bind [OF reg_clear_safe] reg_set_safe)

lemma inc_val_safe: "at_frame f t (fst s) \<Longrightarrow> safe F (\<lambda>s'. at_frame f t (fst s')) (inc_val v s)"
  by (cases s) (auto simp: inc_val_def intro!: safe_tame_bind)

text \<open>The rules that follow an operation through its code.\<close>

lemma reg_clear_step:
  "at_frame f t (fst s) \<Longrightarrow> f + int (unat d) \<le> t \<Longrightarrow> (\<And>s'. at_frame f t (fst s') \<Longrightarrow> safe F P (k s')) \<Longrightarrow>
     safe F P (rbind (reg_clear d s) k)"
  by (rule safe_bind [OF reg_clear_safe])

lemma reg_set_step:
  "at_frame f t (fst s) \<Longrightarrow> f + int (unat d) \<le> t \<Longrightarrow> (\<And>s'. at_frame f t (fst s') \<Longrightarrow> safe F P (k s')) \<Longrightarrow>
     safe F P (rbind (reg_set d v s) k)"
  by (rule safe_bind [OF reg_set_safe])

lemma reg_val_step:
  "at_frame f t (fst s) \<Longrightarrow> f + int (unat r) \<le> t \<Longrightarrow> (\<And>v. safe F P (k v)) \<Longrightarrow> safe F P (rbind (reg_val s r) k)"
  by (rule safe_tame_bind [OF tame_reg_val])

lemma safe_split: "(\<And>a b. x = (a, b) \<Longrightarrow> safe F P (k a b)) \<Longrightarrow> safe F P (case x of (a, b) \<Rightarrow> k a b)"
  by (cases x) simp

lemma safe_if: "(b \<Longrightarrow> safe F P m) \<Longrightarrow> (\<not> b \<Longrightarrow> safe F P n) \<Longrightarrow> safe F P (if b then m else n)"
  by simp

lemma tame_if: "(b \<Longrightarrow> tame F m) \<Longrightarrow> (\<not> b \<Longrightarrow> tame F n) \<Longrightarrow> tame F (if b then m else n)"
  by simp

lemmas steps = reg_clear_step reg_set_step reg_val_step reg_assign_safe reg_set_safe reg_clear_safe inc_val_safe safe_split safe_if
  tame_if tame_reg_val

section \<open>The instructions on registers\<close>

lemma op_mov_safe:
  assumes "at_frame f t (fst s)" "f + int (unat d) \<le> t" "f + int (unat r) \<le> t"
  shows "safe F (\<lambda>s'. at_frame f t (fst s')) (op_mov d r s)" "safe F (\<lambda>s'. at_frame f t (fst s')) (op_type d r s)"
    "safe F (\<lambda>s'. at_frame f t (fst s')) (op_length d r s)" "safe F (\<lambda>s'. at_frame f t (fst s')) (op_logical_not d r s)"
  unfolding op_mov_def op_type_def op_length_def op_logical_not_def types_of_def foldr.simps comp_def id_def using assms
  by - (((rule steps safe_tame_bind tame_bind; (assumption | (simp; fail))?) | (simp; fail))+)

lemma compare_safe:
  assumes "at_frame f t (fst s)" "f + int (unat d) \<le> t" "f + int (unat a) \<le> t" "f + int (unat b) \<le> t"
    and g: "\<And>x y s. tame F (g x y s)"
  shows "safe F (\<lambda>s'. at_frame f t (fst s')) (compare_op g d a b s)"
  unfolding compare_op_def using assms(1-4)
  by - (((rule steps safe_tame_bind tame_bind; (assumption | (simp add: g; fail))?) | (simp add: g; fail))+)

lemma three_operands_safe:
  assumes "at_frame f t (fst s)" "f + int (unat d) \<le> t" "f + int (unat a) \<le> t" "f + int (unat b) \<le> t"
  shows "safe F (\<lambda>s'. at_frame f t (fst s')) (op_logical_and d a b s)" "safe F (\<lambda>s'. at_frame f t (fst s')) (op_logical_or d a b s)"
    "safe F (\<lambda>s'. at_frame f t (fst s')) (op_eq d a b s)" "safe F (\<lambda>s'. at_frame f t (fst s')) (op_le d a b s)"
    "safe F (\<lambda>s'. at_frame f t (fst s')) (op_lt d a b s)" "safe F (\<lambda>s'. at_frame f t (fst s')) (arith_op g h d a b s)"
    "safe F (\<lambda>s'. at_frame f t (fst s')) (op_concat d a b s)"
  unfolding op_logical_and_def op_logical_or_def op_eq_def op_le_def op_lt_def arith_op_def op_concat_def types_of_def foldr.simps comp_def id_def
  using assms
  by - (((rule steps compare_safe safe_tame_bind tame_bind; (assumption | (simp add: int_op_def Let_def; fail))?) | (simp add: int_op_def Let_def; fail))+)

lemma tame_print [simp]: "at_frame f t (fst s) \<Longrightarrow> f + int (unat r) \<le> t \<Longrightarrow> tame F (print_reg H r s)"
  unfolding print_reg_def by - (((rule steps tame_bind; (assumption | (simp; fail))?) | (simp; fail))+)

lemma cell_get_dbg [simp]: "cell_get (c\<lparr>dbg_trace := x\<rparr>) = cell_get c"
  by (rule ext) (simp add: cell_get_def)

lemma at_frame_call_back: "at_frame f t (fst (call_back v s)) = at_frame f t (fst s)"
  by (cases s) (simp add: call_back_def at_frame_def conforms_def ctx_ok_def)

lemma one_operand_safe:
  assumes "at_frame f t (fst s)" "f + int (unat d) \<le> t"
  shows "safe F (\<lambda>s'. at_frame f t (fst s')) (op_clear d s)" "safe F (\<lambda>s'. at_frame f t (fst s')) (op_true d s)"
    "safe F (\<lambda>s'. at_frame f t (fst s')) (op_load_int d n s)" "safe F (\<lambda>s'. at_frame f t (fst s')) (op_load_float d x s)"
    "safe F (\<lambda>s'. at_frame f t (fst s')) (op_load_string H d str s)" "safe F (\<lambda>s'. at_frame f t (fst s')) (op_debugr H d s)"
    "safe F (\<lambda>s'. at_frame f t (fst s')) (op_self d s)" "safe F (\<lambda>s'. at_frame f t (fst s')) (op_parent d s)"
    "tame F (jump_cond d s)"
proof -
  show "safe F (\<lambda>s'. at_frame f t (fst s')) (op_clear d s)" "safe F (\<lambda>s'. at_frame f t (fst s')) (op_true d s)"
    "safe F (\<lambda>s'. at_frame f t (fst s')) (op_load_int d n s)" "safe F (\<lambda>s'. at_frame f t (fst s')) (op_load_float d x s)"
    using assms by (simp_all add: op_clear_def op_true_def op_load_int_def op_load_float_def reg_clear_safe reg_assign_safe)
  show "safe F (\<lambda>s'. at_frame f t (fst s')) (op_load_string H d str s)"
    using assms by (cases s) (auto simp: op_load_string_def intro!: safe_tame_bind reg_assign_safe)
  show "safe F (\<lambda>s'. at_frame f t (fst s')) (op_debugr H d s)"
    using assms by (auto simp: op_debugr_def at_frame_call_back intro!: safe_tame_bind)
  show "safe F (\<lambda>s'. at_frame f t (fst s')) (op_self d s)" "safe F (\<lambda>s'. at_frame f t (fst s')) (op_parent d s)"
    unfolding op_self_def op_parent_def using assms
    by - (((rule steps safe_tame_bind; (assumption | (simp; fail))?) | (simp; fail))+)
  show "tame F (jump_cond d s)" unfolding jump_cond_def using assms
    by - (((rule steps tame_bind; (assumption | (simp; fail))?) | (simp; fail))+)
qed

lemma op_getglobal_safe:
  assumes "at_frame f t (fst s)" "f + int (unat d) \<le> t" "f + int (unat r) \<le> t"
  shows "safe F (\<lambda>s'. at_frame f t (fst s')) (op_getglobal d r s)"
  unfolding op_getglobal_def name_of_def using assms
  by - (((rule steps safe_tame_bind tame_bind; (assumption | (simp; fail))?) | (simp; fail))+)

section \<open>The stack\<close>

lemma op_push_safe:
  assumes "at_frame f t (fst s)" "f + int (unat r) \<le> t"
  shows "safe F (\<lambda>s'. at_frame f (t + 1) (fst s')) (op_push H r s)"
proof -
  obtain c w where s: "s = (c, w)" by (cases s)
  have t: "sp c = t" and f: "f \<le> t + 1" using assms(1) at_frame_bounds [OF assms(1)] by (auto simp: s at_frame_def)
  have "at_frame f (t + 1) c'" if "cell_put (t + 1) (CVal v) (c\<lparr>sp := t + 1\<rparr>) = Inr c'" for v c'
    using at_frame_put [of f t c "t + 1", OF _ f _ that] assms(1) by (simp add: s max_def)
  then have set: "safe F (\<lambda>s'. at_frame f (t + 1) (fst s')) (cell_set (t + 1) v (c\<lparr>sp := t + 1\<rparr>, w))" for v
    unfolding cell_set_def by (auto intro!: safe_tame_bind)
  have "tame F (print_reg H r (c, w))" using assms by (simp add: s)
  then show ?thesis
    unfolding op_push_def s Let_def prod.case t by (rule safe_tame_bind) (rule safe_bind [OF set inc_val_safe])
qed

lemma op_pop_safe:
  fixes s :: "'a store_scheme st"
  assumes "at_frame f t (fst s)" "f + int (unat d) \<le> t"
  shows "safe F (\<lambda>s'. at_frame f (t - 1) (fst s')) (op_pop d s)"
  unfolding op_pop_def
proof (rule reg_clear_step [OF assms])
  fix s1 :: "'a store_scheme st" assume s1: "at_frame f t (fst s1)"
  have t: "sp (fst s1) = t" using s1 by (simp add: at_frame_def)
  have f: "f \<le> t" using assms(2) by linarith
  have "safe F (\<lambda>s'. at_frame f (t - 1) (fst s')) (rbind (reg_set d v s1) (\<lambda>(c, w). Inr (c\<lparr>sp := sp c - 1\<rparr>, w)))" for v
    using reg_set_safe [OF s1 assms(2), of v]
  proof (rule safe_bind)
    fix x assume x: "at_frame f t (fst x)"
    then have "sp (fst x) = t" by (simp add: at_frame_def)
    then show "safe F (\<lambda>s'. at_frame f (t - 1) (fst s')) (case x of (c, w) \<Rightarrow> Inr (c\<lparr>sp := sp c - 1\<rparr>, w))"
      using at_frame_drop [OF x f] by (cases x) simp
  qed
  then show "safe F (\<lambda>s'. at_frame f (t - 1) (fst s'))
     (rbind (val_at (fst s1) (sp (fst s1))) (\<lambda>v. rbind (reg_set d v s1) (\<lambda>(c, w). Inr (c\<lparr>sp := sp c - 1\<rparr>, w))))"
    unfolding t by (rule safe_tame_bind [OF tame_val_at [OF s1 f order_refl]])
qed

lemma init_locals_safe:
  "at_frame f (t + int i) (c\<lparr>sp := t + int i\<rparr>) \<Longrightarrow> sp c = t \<Longrightarrow>
     safe F (\<lambda>s'. at_frame f (t + int (i + n)) ((fst s')\<lparr>sp := t + int (i + n)\<rparr>) \<and> sp (fst s') = t) (init_locals i n (c, w))"
proof (induction n arbitrary: i c)
  case (Suc n)
  have b: "f \<le> t + int i + 1" using at_frame_bounds [OF Suc.prems(1)] by simp
  have step: "at_frame f (t + int (Suc i)) (c'\<lparr>sp := t + int (Suc i)\<rparr>) \<and> sp c' = t"
    if p: "cell_put (t + int i + 1) (CVal v) c = Inr c'" for c' v
  proof -
    have q: "cell_put (t + int i + 1) (CVal v) (c\<lparr>sp := t + int (Suc i)\<rparr>) = Inr (c'\<lparr>sp := t + int (Suc i)\<rparr>)"
      using p by (auto simp: cell_put_def split: if_splits)
    have m: "max (t + int i) (t + int i + 1) = t + int (Suc i)" by simp
    from at_frame_put [OF Suc.prems(1) b _ q] show ?thesis using m cell_put_frame [OF p] Suc.prems(2) by simp
  qed
  have "safe F (\<lambda>s'. at_frame f (t + int (i + Suc n)) ((fst s')\<lparr>sp := t + int (i + Suc n)\<rparr>) \<and> sp (fst s') = t)
      (init_locals (Suc i) n (c', w))" if "cell_put (t + int i + 1) (CVal val_init) c = Inr c'" for c'
    using Suc.IH [of "Suc i" c'] step [OF that] by simp
  then show ?case using Suc.prems(2) by (auto simp: cell_set_def rbind_assoc intro!: safe_tame_bind)
qed simp

lemma op_args_locals_safe:
  assumes "at_frame f t (fst s)"
  shows "safe F (\<lambda>s'. at_frame f (t + int (unat m)) (fst s')) (op_args_locals n m s)"
proof -
  obtain c w where s: "s = (c, w)" by (cases s)
  have t: "sp c = t" "c\<lparr>sp := t\<rparr> = c" using assms by (auto simp: s at_frame_def)
  have "safe F (\<lambda>s'. at_frame f (t + int (unat m)) ((fst s')\<lparr>sp := t + int (unat m)\<rparr>) \<and> sp (fst s') = t) (init_locals 0 (unat m) (c, w))"
    using init_locals_safe [of f t 0 c "unat m" w] assms t by (simp add: s)
  then show ?thesis unfolding op_args_locals_def s by (rule safe_bind) auto
qed

lemma halt_safe: "at_frame 1 t (fst s) \<Longrightarrow> safe F (\<lambda>s'. at_frame 1 0 (fst s')) (halt_loop s)"
proof (induction s arbitrary: t rule: halt_loop.induct)
  case (1 c w)
  have t: "sp c = t" "0 \<le> t" using "1.prems" at_frame_bounds [OF "1.prems"] by (auto simp: at_frame_def)
  show ?case
  proof (cases "t = 0")
    case False
    have cl: "safe F (\<lambda>s'. at_frame 1 t (fst s')) (cell_clear t (c, w))"
      by (rule cell_clear_safe) (use "1.prems" False t in auto)
    have "safe F (\<lambda>s'. at_frame 1 0 (fst s')) (halt_loop (c'\<lparr>sp := t - 1\<rparr>, w'))"
      if "cell_clear t (c, w) = Inr (c', w')" "at_frame 1 t c'" for c' w'
      using "1.IH" [of "(c', w')" c' w' "t - 1"] that t False at_frame_drop [OF that(2)] by auto
    then have "safe F (\<lambda>s'. at_frame 1 0 (fst s')) (rbind (cell_clear t (c, w)) (\<lambda>(c', w). halt_loop (c'\<lparr>sp := t - 1\<rparr>, w)))"
      by (intro safe_bind [OF cl]) auto
    then show ?thesis using t False by (subst halt_loop.simps) simp
  qed (use t "1.prems" in \<open>subst halt_loop.simps, simp\<close>)
qed

section \<open>Returning\<close>

lemma tame_cell_clear:
  "cell_get c i = Inr x \<Longrightarrow> (\<And>p. x \<noteq> CCode p) \<Longrightarrow> x \<noteq> Uninit \<Longrightarrow> tame F (cell_clear i (c, w))"
  by (cases x) (auto simp: cell_clear_def intro!: tame_bind)

lemma tame_return_loop:
  "(\<And>j. b < j \<Longrightarrow> j \<le> sp (fst s) \<Longrightarrow> \<exists>x. cell_get (fst s) j = Inr x \<and> (\<forall>p. x \<noteq> CCode p) \<and> x \<noteq> Uninit) \<Longrightarrow>
     tame F (return_loop b s)"
proof (induction b s rule: return_loop.induct)
  case (1 b c w)
  show ?case
  proof (cases "sp c \<le> b")
    case False
    obtain x where "cell_get c (sp c) = Inr x" "\<forall>p. x \<noteq> CCode p" "x \<noteq> Uninit" using "1.prems" [of "sp c"] False by auto
    then have "tame F (cell_clear (sp c) (c, w))" by (intro tame_cell_clear) auto
    moreover have "tame F (return_loop b (c'\<lparr>sp := sp c - 1\<rparr>, w'))" if cl: "cell_clear (sp c) (c, w) = Inr (c', w')" for c' w'
    proof (rule "1.IH" [OF False cl refl])
      fix j assume "b < j" "j \<le> sp (fst (c'\<lparr>sp := sp c - 1\<rparr>, w'))"
      then show "\<exists>x. cell_get (fst (c'\<lparr>sp := sp c - 1\<rparr>, w')) j = Inr x \<and> (\<forall>p. x \<noteq> CCode p) \<and> x \<noteq> Uninit"
        using "1.prems" [of j] cell_clear_cells(1) [OF cl, of j] by simp
    qed
    ultimately have "tame F (rbind (cell_clear (sp c) (c, w)) (\<lambda>(c', w). return_loop b (c'\<lparr>sp := sp c - 1\<rparr>, w)))"
      by (auto intro!: tame_bind)
    then show ?thesis using False by (subst return_loop.simps) simp
  qed (subst return_loop.simps, simp)
qed

end

lemma return_loop_length: "return_loop b s = Inr s' \<Longrightarrow> length (stack (fst s')) = length (stack (fst s))"
proof (induction b s rule: return_loop.induct)
  case (1 b c w)
  consider "s' = (c, w)" | c1 w1 where "\<not> sp c \<le> b" "cell_clear (sp c) (c, w) = Inr (c1, w1)" "return_loop b (c1\<lparr>sp := sp c - 1\<rparr>, w1) = Inr s'"
    using "1.prems" by (subst (asm) return_loop.simps) (auto simp: res_simps split: if_splits)
  then show ?case
  proof cases
    case 2
    then show ?thesis using "1.IH" [OF 2(1,2) refl] cell_put_length [OF cell_clear_put [OF 2(2)]] by simp
  qed simp
qed

text \<open>The caller's frame, when its callee has returned into it.\<close>

lemma returned_frame:
  assumes c: "at_frame f t c" "frames (cell_get c) f' (f - 4)"
    and c1: "cell_put (f - 3) (CVal v) (c\<lparr>cur_obj := ob, fp := f'\<rparr>) = Inr c1"
    and l: "return_loop (f - 2) (c1, w1) = Inr (c2, w2)" and c3: "cell_put (f - 2) (CVal u) c2 = Inr c3"
  shows "conforms c3"
proof -
  note p1 = cell_put_get [OF c1] cell_put_frame [OF c1] cell_put_length [OF c1]
    and p3 = cell_put_get [OF c3] cell_put_frame [OF c3] cell_put_length [OF c3]
  have b: "1 \<le> f" "f - 1 \<le> t" "sp c = t" "ctx_ok c" using at_frame_bounds [OF c(1)] c(1) by (auto simp: at_frame_def conforms_def)
  have lc: "sp c2 = f - 2" "fp c2 = f'" "\<And>j. j \<le> f - 2 \<Longrightarrow> cell_get c2 j = cell_get c1 j"
    using return_loop_cells [OF l] b p1 by auto
  have get: "cell_get c3 j = (if j = f - 2 then Inr (CVal u) else if j = f - 3 then Inr (CVal v) else cell_get c j)"
    if "j \<le> f - 2" for j using that p3(1) [of j] p1(1) [of j] lc(3) [of j] by (simp add: cell_get_def)
  have v: "value_at (cell_get c) j" if "f' \<le> j" "j \<le> f - 4" for j
    using c(2) that by cases auto
  have "frames (cell_get c3) f' (f - 2)"
    by (rule frames_top [OF c(2)]) (use get v frames_bounds [OF c(2)] in \<open>auto simp: value_at_def\<close>)
  moreover have "ctx_ok c3"
    using b p1 p3 lc(1) return_loop_length [OF l] frames_bounds [OF c(2)] by (auto simp: ctx_ok_def)
  ultimately show ?thesis using p3 lc by (simp add: conforms_def)
qed

context cell_faults
begin

lemma op_return_safe:
  assumes "at_frame f t (fst s)" "f \<noteq> 1" "f + int (unat r) \<le> t"
  shows "safe F (\<lambda>(ip, s'). conforms (fst s')) (op_return r s)"
proof -
  obtain c w where s: "s = (c, w)" by (cases s)
  have c: "at_frame f t c" "sp c = t" "fp c = f" "frames (cell_get c) f t" using assms(1) by (auto simp: s at_frame_def conforms_def)
  obtain f' ip ob where fr: "frames (cell_get c) f' (f - 4)" "cell_get c (f - 3) = Inr (CFp f')" "cell_get c (f - 2) = Inr (CCode ip)"
      "cell_get c (f - 1) = Inr (CObj ob)" using c(4) assms(2) by cases auto
  let ?c = "c\<lparr>cur_obj := ob, fp := f'\<rparr>"
  have loop: "tame F (return_loop (f - 2) (c1, w1))" if c1: "cell_put (f - 3) (CVal v) ?c = Inr c1" for c1 w1 v
  proof (rule tame_return_loop)
    fix j assume j: "f - 2 < j" "j \<le> sp (fst (c1, w1))"
    have "cell_get c1 j = cell_get c j" using cell_put_get [OF c1, of j] j by (simp add: cell_get_def)
    then show "\<exists>x. cell_get (fst (c1, w1)) j = Inr x \<and> (\<forall>p. x \<noteq> CCode p) \<and> x \<noteq> Uninit"
      using j c(2) cell_put_frame [OF c1] fr(4) at_frame_value [OF c(1), of j] by (cases "j = f - 1") auto
  qed
  have "tame F (reg_val s r)" by (rule tame_reg_val [OF assms(1,3)])
  then show ?thesis unfolding op_return_def
  proof (rule safe_tame_bind)
    fix v
    show "safe F (\<lambda>(ip, s'). conforms (fst s')) (let (c, w) = s; old_fp = fp c in
       rbind (obj_at c (old_fp - 1)) (\<lambda>ob. rbind (code_at c (old_fp - 2)) (\<lambda>ip. rbind (se_at c (old_fp - 3)) (\<lambda>f.
       rbind (cell_set (old_fp - 3) v (c\<lparr>cur_obj := ob, fp := f\<rparr>, w)) (\<lambda>s. rbind (inc_val v s) (\<lambda>s.
       rbind (return_loop (old_fp - 2) s) (\<lambda>s. rbind (cell_set (old_fp - 2) val_make_nil s) (\<lambda>s. Inr (ip, s)))))))))"
      using fr(2-4) loop returned_frame [OF c(1) fr(1)]
      by (auto simp: s c obj_at_def code_at_def se_at_def cell_set_def inc_val_def rbind_assoc split_beta intro!: safe_tame_bind)
  qed
qed

section \<open>The store\<close>

lemma tame_entries [simp]: "tame F (lobject_upd lo g h)" "tame F (bucket c i)" "tame F (ce_upd e k c)"
  by (auto simp: lobject_upd_def bucket_def ce_upd_def intro!: tame_bind)

lemma tame_chain_find [simp]: "tame F (chain_find c h i es)"
  by (induction es) (auto intro!: tame_bind)

lemma tame_lru_remove [simp]: "tame F (lru_remove e c)"
  by (auto simp: lru_remove_def ce_upd_opt_def intro!: tame_bind split: option.splits)

lemma tame_cache [simp]: "tame F (cache_get_object i (c, h))" "tame F (cache_put_object lo (c, h))"
  by (auto simp: cache_get_object_def cache_put_object_def lobject_pin_def cache_resize_def Let_def
      intro!: tame_bind split: option.splits)

lemma tame_find_object [simp]: "tame F (find_object h oid ls)"
  by (induction ls) (auto intro!: tame_bind)

lemma tame_wrap_object [simp]: "tame F (wrap_object a w)"
  by (auto simp: wrap_object_def lobject_set_object_def lobject_set_lock_def intro!: tame_bind split: prod.splits)

lemma tame_find [simp]: "tame F (find_cached oid w)" "tame F (tx_note_locked tx lo w)"
  by (auto simp: find_cached_def persist_get_def tx_note_locked_def Let_def intro!: tame_bind split: option.splits)

end

text \<open>Locking reads arrays that may not have been written yet.\<close>

locale member_faults = cell_faults +
  assumes no_uninit [simp]: "Uninit_read \<notin> F"
begin

lemma tame_arrays [simp]:
  "tame F (wg_get i gs)" "tame F (store_tx_get_sid tx s)" "tame F (store_tx_get_cid tx s)" "tame F (array_get es n)"
  "tame F (array_put n a es)" "tame F (wfg_edge s x y)" "tame F (wfg_set x y s)"
  by (auto simp: wg_get_def store_tx_get_sid_def store_tx_get_cid_def array_get_def array_put_def wfg_edge_def wfg_set_def
      intro!: tame_bind split: option.splits)

lemma tame_candidate [simp]: "tame F (wfg_candidate s y)"
  by (auto simp: wfg_candidate_def intro!: tame_bind)

lemma tame_graph [simp]: "tame F (wfg_wait_for tx n es s)" "tame F (wfg_scan s root_cid fs x ys)"
proof -
  show "tame F (wfg_wait_for tx n es s)" by (induction tx n es s rule: wfg_wait_for.induct) (auto intro!: tame_bind)
  show "tame F (wfg_scan s root_cid fs x ys)"
    by (induction s root_cid fs x ys rule: wfg_scan.induct) (auto intro!: tame_bind split: nat.splits option.splits)
qed

lemma tame_waiting [simp]: "tame F (lock_wait l g tx s)" "tame F (join_wait l g s)"
proof -
  have "tame F (wg_unlink g gs)" for g gs by (auto simp: wg_unlink_def split: list.splits)
  then have "tame F (lock_leave l g tx s)"
    by (auto simp: lock_leave_def Let_def intro!: tame_bind split: option.splits)
  then show "tame F (lock_wait l g tx s)" "tame F (join_wait l g s)"
    by (auto simp: lock_wait_def join_wait_def intro!: tame_bind)
qed

lemma tame_lock_enter [simp]: "tame F (lock_enter l m tx s)"
proof -
  have last: "tame F (last_group lk)" for lk by (auto simp: last_group_def intro!: tame_bind split: option.splits)
  moreover have "tame F (lock_enqueue l m tx lk fg s)" for lk fg
    by (auto simp: lock_enqueue_def Let_def note_blocked_def mark_deadlocked_def wfg_dfs_def last intro!: tame_bind split: option.splits)
  ultimately show ?thesis
    by (auto simp: lock_enter_def lock_join_def Let_def intro!: tame_bind split: list.splits option.splits)
qed

lemma tame_lock_lock [simp]: "tame F (lock_lock env l m tx w)"
  by (auto simp: lock_lock_def Let_def intro!: tame_bind split: lock_outcome.splits option.splits)

lemma tame_store_objects [simp]: "tame F (store_get_object env tx oid w)" "tame F (store_make_object env tx oid w)"
  by (auto simp: store_get_object_def store_make_object_def Let_def intro!: tame_bind)

lemma tame_get_code [simp]: "tame F (eval_get_code_recursive H lo name tx w)"
proof -
  have loop: "\<forall>p w. tame F (search p w) \<Longrightarrow> tame F (parent_loop H search tx lo ns r w)" for search lo ns r w
    by (induction H search tx lo ns r w rule: parent_loop.induct) (auto intro!: tame_bind split: option.splits)
  have "tame F (get_code_frames n H lo name tx w)" for n
    by (induction n arbitrary: lo w) (auto intro!: tame_bind loop)
  then show ?thesis by (simp add: eval_get_code_recursive_def)
qed

section \<open>Calls and objects\<close>

lemma tame_drop_cell: "cell_get c i = Inr (CVal v) \<Longrightarrow> tame F (drop_cell i x (c, w))"
  by (auto simp: drop_cell_def val_at_def intro!: tame_bind)

lemma tame_op_call:
  assumes "at_frame f t (fst s)" "f \<le> t - int (unat n) - 2"
  shows "tame F (op_call H n ip s)"
proof -
  obtain c w where s: "s = (c, w)" by (cases s)
  define base where "base = sp c - int (unat n)"
  have t: "sp c = t" using assms(1) by (simp add: s at_frame_def)
  have a: "at_frame f t c" using assms(1) by (simp add: s)
  have v: "\<exists>v. cell_get c j = Inr (CVal v)" if h: "base - 2 \<le> j" "j \<le> base" for j
    by (rule at_frame_value [OF a]) (use assms(2) h t base_def in linarith)+
  obtain u1 u2 u3 where u: "cell_get c (base - 2) = Inr (CVal u1)" "cell_get c (base - 1) = Inr (CVal u2)" "cell_get c base = Inr (CVal u3)"
    using v [of "base - 2"] v [of "base - 1"] v [of base] by auto
  have d1: "tame F (drop_cell (base - 2) x1 (c, w1))" for x1 w1 by (rule tame_drop_cell [OF u(1)])
  have d2: "tame F (drop_cell (base - 1) x2 s2)" if "drop_cell (base - 2) x1 (c, w1) = Inr s2" for x1 x2 w1 s2
    using drop_cell_effect(1) [of "base - 2" x1 c w1 "fst s2" "snd s2" "base - 1"] that u(2)
    by (cases s2) (simp add: tame_drop_cell)
  have d3: "tame F (drop_cell base x3 s3)"
    if "drop_cell (base - 2) x1 (c, w1) = Inr s2" "drop_cell (base - 1) x2 s2 = Inr s3" for x1 x2 x3 w1 s2 s3
    using drop_cell_effect(1) [of "base - 2" x1 c w1 "fst s2" "snd s2" base]
      drop_cell_effect(1) [of "base - 1" x2 "fst s2" "snd s2" "fst s3" "snd s3" base] that u(3)
    by (cases s3) (simp add: tame_drop_cell)
  have "tame F (val_at c (base - 2))" "tame F (val_at c (base - 1))" using u by (simp_all add: val_at_def)
  then show ?thesis using d1 d2 d3
    unfolding op_call_def s Let_def prod.case base_def [symmetric]
    by (auto intro!: tame_bind split: option.splits)
qed

lemma op_call_safe:
  assumes "at_frame f t (fst s)" "f \<le> t - int (unat n) - 2"
  shows "safe F (\<lambda>(ip, s'). conforms (fst s')) (op_call H n ip s)"
proof (rule safe_tame [OF tame_op_call [OF assms]], clarify)
  fix code i c' w' assume call: "op_call H n ip s = Inr ((code, i), c', w')"
  note cf = call_frame [OF call, unfolded fst_conv]
  have c: "ctx_ok (fst s)" "frames (cell_get (fst s)) f t" "fp (fst s) = f" "sp (fst s) = t"
    using assms(1) by (auto simp: at_frame_def conforms_def)
  let ?b = "t - int (unat n)"
  have "frames (cell_get c') f (?b - 3)"
  proof (rule frames_top [OF c(2)])
    show "cell_get c' j = cell_get (fst s) j" if "j < f" for j using cf(7) [of j] that assms(2) c(4) by simp
    show "\<forall>j \<in> {f..?b - 3}. value_at (cell_get c') j"
    proof
      fix j assume "j \<in> {f..?b - 3}"
      then have j: "f \<le> j" "j \<le> ?b - 3" by auto
      then have "j \<le> t" "j < sp (fst s) - int (unat n) - 2" using c(4) by linarith+
      then show "value_at (cell_get c') j" using cf(7) [of j] at_frame_value [OF assms(1) j(1)] by (simp add: value_at_def)
    qed
  qed (use assms(2) in simp)
  moreover have "value_at (cell_get c') j" if h: "?b + 1 \<le> j" "j \<le> t" for j
    using cf(7) [of j] h at_frame_value [OF assms(1), of j] assms(2) c by (auto simp: value_at_def)
  ultimately have "frames (cell_get c') (?b + 1) t"
    using frames.called [of "cell_get c'" f "?b + 1" t ip "cur_obj (fst s)"] cf(1-3) c(3,4) by simp
  then show "conforms (fst (c', w'))" using cf(4,5,8) c by (simp add: conforms_def ctx_ok_def)
qed

lemma op_setglobal_safe:
  assumes "at_frame f t (fst s)" "f + int (unat n) \<le> t" "f + int (unat v) \<le> t"
  shows "safe F (\<lambda>(ok, s'). at_frame f t (fst s')) (op_setglobal H n v s)"
proof -
  obtain c w where s: "s = (c, w)" by (cases s)
  have "tame F (reg_val (c, w') n)" "tame F (reg_val (c, w') v)" for w' using assms by (auto simp: s intro: tame_reg_val)
  then show ?thesis using assms
    by (auto simp: op_setglobal_def name_of_def s Let_def intro!: safe_tame_bind tame_bind split: option.splits)
qed

lemma op_make_obj_safe:
  assumes "at_frame f t (fst s)" "f + int (unat d) \<le> t" "f + int (unat r) \<le> t"
  shows "safe F (\<lambda>s'. at_frame f t (fst s')) (op_make_obj H d r s)"
  unfolding op_make_obj_def Let_def using assms
  by - (((rule steps safe_tame_bind; (assumption | (simp; fail))?) | (simp; fail))+)

end

text \<open>The three sets of faults that are of interest.\<close>

interpretation cell: cell_faults "{Wrong_member, Uninit_read}"
  by unfold_locales simp

interpretation mem: member_faults "{Wrong_member}"
  by unfold_locales auto

interpretation any: member_faults "{}"
  by unfold_locales auto

section \<open>System calls\<close>

lemma drop_args_frame:
  "at_frame f t (fst s) \<Longrightarrow> f \<le> t - int k + 1 \<Longrightarrow> drop_args k s = Inr s' \<Longrightarrow> at_frame f (t - int k) (fst s')"
proof (induction k s arbitrary: t rule: drop_args.induct)
  case (2 n s)
  have t: "sp (fst s) = t" "f \<le> t" using "2.prems" by (auto simp: at_frame_def)
  obtain c w where cl: "cell_clear t s = Inr (c, w)" "drop_args n (c\<lparr>sp := sp c - 1\<rparr>, w) = Inr s'"
    using "2.prems"(3) t by (auto elim!: rbind_InrE)
  have a: "at_frame f t c" using any.cell_clear_safe [OF "2.prems"(1) t(2) order_refl] cl(1) by simp
  then have "sp c = t" by (simp add: at_frame_def)
  then have "at_frame f (t - 1) (fst (c\<lparr>sp := sp c - 1\<rparr>, w))" using at_frame_drop [OF a t(2)] by simp
  from "2.IH" [OF _ _ this _ cl(2)] show ?case using "2.prems"(2) cl(1) t by (auto simp: algebra_simps)
qed simp

lemma any_bind: "(\<And>x. m = Inr x \<Longrightarrow> safe {} P (k x)) \<Longrightarrow> safe {} P (rbind m k)"
  by (cases m) auto

lemma op_syscall_frame:
  assumes "at_frame f t (fst s)" "f \<le> t - int (unat n)"
  shows "safe {} (\<lambda>s'. conforms (fst s')) (op_syscall n s)"
proof -
  obtain c w where s: "s = (c, w)" by (cases s)
  have inv: "fst s1 = c" if "invoke_syscall tb e k (c, w) = Inr s1" for tb e k s1
    using that by (auto simp: invoke_syscall_def res_simps split: if_splits)
  have drop: "safe {} (\<lambda>s'. conforms (fst s')) (drop_args (Suc (unat n)) s1)" if "fst s1 = c" for s1
    using drop_args_frame [of f t s1 "Suc (unat n)"] assms that
    by (auto simp: s safe_def at_frame_def split: sum.split simp del: drop_args.simps)
  have c: "conforms c" using assms(1) by (simp add: s at_frame_def)
  show ?thesis
    unfolding op_syscall_def s Let_def prod.case
  proof (intro any_bind any.safe_if any.safe_split)
    fix len d
    show "safe {} (\<lambda>s'. conforms (fst s')) (case ev_syscalls c of None \<Rightarrow> Inl Null_deref
      | Some tb \<Rightarrow> rbind (case find_syscall (unat n) (cstr (take len d)) (syscalls tb) of
            Some e \<Rightarrow> invoke_syscall tb e (unat n) (c, w) | None \<Rightarrow> Inr (c, w)) (drop_args (unat n + 1)))"
      by (auto intro!: any_bind drop dest!: inv split: option.splits simp del: drop_args.simps)
  qed (use c in simp)
qed

section \<open>All instructions\<close>

text \<open>An instruction is well placed if its registers are in the frame and it does not reach below it:
  \<^verbatim>\<open>CALL\<close> and \<^verbatim>\<open>SYSCALL\<close> find what they need on the stack of the frame, \<^verbatim>\<open>RETURN\<close> has a caller, and \<^verbatim>\<open>HALT\<close>,
  which clears the whole stack, is executed in the outermost frame only.\<close>

fun operands :: "instr \<Rightarrow> reg list" where
  "operands (JUMP_IF r n) = [r]"
| "operands i = regs_of i"

fun stays_inside :: "'w eval_ctx \<Rightarrow> instr \<Rightarrow> bool" where
  "stays_inside c HALT \<longleftrightarrow> fp c = 1"
| "stays_inside c (RETURN r) \<longleftrightarrow> fp c \<noteq> 1"
| "stays_inside c (CALL n) \<longleftrightarrow> fp c \<le> sp c - int (unat n) - 2"
| "stays_inside c (SYSCALL n) \<longleftrightarrow> fp c \<le> sp c - int (unat n)"
| "stays_inside c i \<longleftrightarrow> True"

definition well_placed :: "'w eval_ctx \<Rightarrow> instr \<Rightarrow> bool" where
  "well_placed c i \<longleftrightarrow> stays_inside c i \<and> (\<forall>r \<in> set (operands i). reg_ix c r \<le> sp c)"

text \<open>The faults of cells that an instruction cannot have. The functions behind a system call are not known,
  and locks read arrays of their own.\<close>

fun excluded :: "instr \<Rightarrow> fault set" where
  "excluded (SYSCALL n) = {}"
| "excluded (CALL n) = {Wrong_member}"
| "excluded (SETGLOBAL n v) = {Wrong_member}"
| "excluded (MAKE_OBJ d p) = {Wrong_member}"
| "excluded i = {Wrong_member, Uninit_read}"

lemma go_safe: "safe F (\<lambda>s'. at_frame f t (fst s')) m \<Longrightarrow> safe F (\<lambda>(tr, s'). conforms (fst s')) (go ip m)"
  by (auto simp: go_def at_frame_def elim: safe_bind)

lemma go_to_safe: "safe F (\<lambda>(ip, s'). conforms (fst s')) m \<Longrightarrow> safe F (\<lambda>(tr, s'). conforms (fst s')) (go_to m)"
  by (auto simp: go_to_def elim!: safe_bind)

lemma go_conforms: "safe F (\<lambda>s'. conforms (fst s')) m \<Longrightarrow> safe F (\<lambda>(tr, s'). conforms (fst s')) (go ip m)"
  by (auto simp: go_def elim: safe_bind)

lemma exec_instr_conforms:
  assumes "conforms (fst s)" "well_placed (fst s) i"
  shows "safe (excluded i) (\<lambda>(tr, s'). conforms (fst s')) (exec_instr H i ip s)"
proof -
  define f t where "f = fp (fst s)" and "t = sp (fst s)"
  have a: "at_frame f t (fst s)" using assms(1) by (simp add: at_frame_def f_def t_def)
  have r: "\<forall>r \<in> set (operands i). f + int (unat r) \<le> t" and j: "stays_inside (fst s) i"
    using assms(2) by (simp_all add: well_placed_def reg_ix_def f_def t_def)
  show ?thesis
  proof (cases i)
    case HALT
    then have "at_frame 1 t (fst s)" using a j by (simp add: f_def)
    from cell.halt_safe [OF this] show ?thesis using HALT
      by (auto simp: op_halt_def at_frame_def elim: safe_bind)
  next
    case (CALL n)
    then show ?thesis using mem.op_call_safe [OF a] j by (simp add: go_to_safe f_def t_def)
  next
    case (RETURN d)
    then show ?thesis using cell.op_return_safe [OF a] r j by (simp add: go_to_safe f_def)
  next
    case (SYSCALL n)
    then show ?thesis using op_syscall_frame [OF a] j by (simp add: go_conforms f_def t_def)
  next
    case (SETGLOBAL n v)
    then have "safe {Wrong_member} (\<lambda>(ok, s'). at_frame f t (fst s')) (op_setglobal H n v s)"
      using mem.op_setglobal_safe [OF a] r by simp
    then show ?thesis using SETGLOBAL by (auto simp: at_frame_def elim!: safe_bind)
  next
    case (MAKE_OBJ d p)
    then show ?thesis using mem.op_make_obj_safe [OF a] r by (simp add: go_safe [of _ f t])
  next
    case (JUMP_IF d n)
    then show ?thesis using cell.one_operand_safe(9) [OF a] r assms(1) by (auto intro!: safe_tame_bind)
  next
    case (PUSH d)
    then show ?thesis using cell.op_push_safe [OF a] r by (simp add: go_safe [of _ f "t + 1"])
  next
    case (POP d)
    then show ?thesis using cell.op_pop_safe [OF a] r by (simp add: go_safe [of _ f "t - 1"])
  next
    case (ARGS_LOCALS n m)
    then show ?thesis by (simp add: go_safe [OF cell.op_args_locals_safe [OF a]])
  next
    case (DEBUGI n)
    have "at_frame f t (fst (call_back (val_make_int n) s))" using a by (simp add: cell.at_frame_call_back)
    then show ?thesis using DEBUGI by (simp add: go_def op_debugi_def at_frame_def)
  qed (use r a assms(1) in \<open>simp_all add: cell.op_mov_safe cell.three_operands_safe cell.one_operand_safe cell.op_getglobal_safe
      op_add_def op_sub_def op_mul_def go_safe [of _ f t]\<close>)
qed

lemma new_ctx_conforms: "conforms (eval_new_ctx t x)"
  by (auto simp: conforms_def ctx_ok_def eval_new_ctx_def INITIAL_STACK_SIZE_def intro!: frames.outermost)

lemma outermost_conforms:
  assumes "ctx_ok c" "fp c = 1" "\<forall>j \<in> {1..sp c}. value_at (cell_get c) j"
  shows "conforms c"
  using frames.outermost [of "sp c" "cell_get c"] assms by (auto simp: conforms_def ctx_ok_def)

text \<open>Runs of well placed instructions.\<close>

inductive placed_run :: "'a store_scheme host \<Rightarrow> codeptr \<Rightarrow> 'a store_scheme st \<Rightarrow> codeptr \<Rightarrow> 'a store_scheme st \<Rightarrow> bool"
  for H ip0 s0 where
  start: "placed_run H ip0 s0 ip0 s0"
| step: "placed_run H ip0 s0 ip s \<Longrightarrow> fetch ip = Inr (i, ip1) \<Longrightarrow> well_placed (fst s) i \<Longrightarrow>
    eval_step H ip s = Inr (Next ip2, s') \<Longrightarrow> placed_run H ip0 s0 ip2 s'"

lemma eval_step_conforms:
  assumes "conforms (fst s)" "fetch ip = Inr (i, ip')" "well_placed (fst s) i"
  shows "safe (excluded i) (\<lambda>(tr, s'). conforms (fst s')) (eval_step H ip s)"
  using exec_instr_conforms [OF assms(1,3)] assms(2) by (simp add: eval_step_def)

lemma placed_run_conforms: "placed_run H ip0 s0 ip s \<Longrightarrow> conforms (fst s0) \<Longrightarrow> conforms (fst s)"
proof (induction rule: placed_run.induct)
  case (step ip s i ip1 ip2 s')
  then show ?case using eval_step_conforms [of s ip i ip1 H] by (auto simp: safe_def)
qed

end
