(* ===== verification/Cmoo_Call_Props.thy ===== *)
theory Cmoo_Call_Props
  imports Cmoo_Eval_Props Cmoo_Eval_Types
begin

text \<open>Calls, returns, method lookup and the termination of code in the virtual machine.\<close>

section \<open>Calls and returns\<close>

text \<open>C25: \<^verbatim>\<open>RETURN\<close> undoes \<^verbatim>\<open>CALL\<close>. Let a call of a method with \<open>n\<close> arguments lead from \<open>s\<close> to \<open>s1\<close>, and
  let the callee be about to return register \<open>r\<close> in \<open>s2\<close>, with the three cells of its frame as the call
  left them, values above them, and exact reference counts. Then \<^verbatim>\<open>RETURN\<close> succeeds and continues behind
  the call, with the frame pointer and the current object of the caller. The returned value is in the
  cell that held the object reference, everything below is untouched. The stack pointer is left one
  above it, on a cell with nil (\<^verbatim>\<open>eval.h\<close> says that it is set to the returned value).\<close>

theorem return_undoes_call:
  assumes call: "op_call H n ip s = Inr (q, s1)"
    and fp: "fp (fst s2) = fp (fst s1)" "fp (fst s1) - 1 \<le> sp (fst s2)" "4 \<le> fp (fst s1)"
    and frame: "\<forall>j \<in> {fp (fst s1) - 3 .. fp (fst s1) - 1}. cell_get (fst s2) j = cell_get (fst s1) j"
    and vals: "\<forall>j \<in> {fp (fst s1) .. sp (fst s2)}. \<exists>v. val_at (fst s2) j = Inr v"
    and refs: "refs_ok (strs (snd s2)) (all_refs s2 + M)" "ctx_ok (fst s2)"
    and ret: "reg_val s2 r = Inr v" "in_use (fst s2) (reg_ix (fst s2) r)"
      "val_type v = TYPE_STRING \<longrightarrow> count (all_refs s2 + M) v < 65535"
  shows "\<exists>s3. op_return r s2 = Inr (ip, s3) \<and> fp (fst s3) = fp (fst s) \<and> cur_obj (fst s3) = cur_obj (fst s)
    \<and> sp (fst s3) = sp (fst s) - int (unat n) - 1 \<and> val_at (fst s3) (sp (fst s3) - 1) = Inr v
    \<and> val_at (fst s3) (sp (fst s3)) = Inr val_make_nil \<and> refs_ok (strs (snd s3)) (all_refs s3 + M)
    \<and> (\<forall>j < sp (fst s3) - 1. cell_get (fst s3) j = cell_get (fst s2) j)"
proof -
  obtain c w where s2: "s2 = (c, w)" by (cases s2)
  let ?f = "fp c" and ?o = "cur_obj (fst s)" and ?g = "fp (fst s)"
  note cf = call_frame [OF call]
  have f: "?f = sp (fst s) - int (unat n) + 1" "?f = fp (fst s1)" using cf(4) fp(1) by (simp_all add: s2)
  have fr: "cell_get c (?f - 3) = Inr (CFp ?g)" "cell_get c (?f - 2) = Inr (CCode ip)" "cell_get c (?f - 1) = Inr (CObj ?o)"
    using frame cf(1-3) f by (auto simp: s2)
  let ?c = "c\<lparr>cur_obj := ?o, fp := ?g\<rparr>"
  have e: "all_refs (?c, w) = all_refs s2" by (simp add: all_refs_def s2 stack_refs_def used_def)
  have i: "intact (?c, w) M" using refs e by (simp add: intact_def counted_def s2 ctx_ok_def)
  have use: "in_use ?c (?f - 3)" "in_use ?c (?f - 2)" using fp f(2) by (simp_all add: in_use_def s2)
  have vm: "v \<in># all_refs (?c, w) + M"
    using val_at_in_use(2) [OF _ ret(2) refs(2)] ret(1) e by (simp add: reg_val_def s2 all_refs_def)
  have "stack ?c ! nat (?f - 3) = CFp ?g"
    using fr(1) cell_get_in_use [of c "?f - 3"] refs(2) use(1) by (simp add: s2 in_use_def)
  then have "no_string (stack ?c ! nat (?f - 3))" by (simp only: no_string_def cell.case)
  then obtain c1 w1 where m: "cell_set (?f - 3) v (?c, w) = Inr (c1, w)" "inc_val v (c1, w) = Inr (c1, w1)"
      and p: "cell_put (?f - 3) (CVal v) ?c = Inr c1" and i1: "intact (c1, w1) M"
    using cell_set_counted [OF i use(1) _ vm] ret(3) e by auto
  have get1: "cell_get c1 j = (if j = ?f - 3 then Inr (CVal v) else cell_get c j)" for j
    using cell_put_get [OF p, of j] by (simp add: cell_get_def)
  have sp1: "sp c1 = sp c" using cell_put_frame [OF p] by simp
  have top: "\<exists>x. cell_get c1 j = Inr x \<and> (\<forall>p. x \<noteq> CCode p) \<and> x \<noteq> Uninit" if "?f - 2 < j" "j \<le> sp c1" for j
    using that vals fr(3) get1 [of j] val_at_cell [of c j] f(2) sp1 by (cases "j = ?f - 1") (fastforce simp: s2)+
  have b: "0 \<le> ?f - 2" "1 \<le> ?f - 2" "?f - 2 \<le> sp c1" using use fp f(2) sp1 by (auto simp: in_use_def s2)
  obtain c4 w4 where l: "return_loop (?f - 2) (c1, w1) = Inr (c4, w4)"
    using return_loop_total [OF i1 b(1)] top by (metis fst_conv surj_pair)
  note lc = return_loop_cells [OF l, simplified, OF b(3)]
  have i4: "intact (c4, w4) M" using return_loop_intact [OF l i1 b(1)] b(3) by simp
  have u4: "in_use c4 (?f - 2)" using lc b by (simp add: in_use_def)
  have "stack c4 ! nat (?f - 2) = CCode ip"
    using cell_get_in_use [OF _ u4] i4 lc get1 [of "?f - 2"] fr(2) by (simp add: intact_def)
  then have "no_string (stack c4 ! nat (?f - 2))" by (simp only: no_string_def cell.case)
  then obtain c5 where m5: "cell_set (?f - 2) val_make_nil (c4, w4) = Inr (c5, w4)"
      and p5: "cell_put (?f - 2) (CVal val_make_nil) c4 = Inr c5" and i5: "intact (c5, w4) M"
    by (rule cell_set_plain [OF i4 u4, of val_make_nil]) (simp_all add: val_make_nil_def)
  have "op_return r s2 = Inr (ip, c5, w4)"
    using ret(1) fr m l m5 by (simp add: op_return_def s2 Let_def obj_at_def code_at_def se_at_def)
  moreover have "fp c5 = ?g" "cur_obj c5 = ?o" "sp c5 = ?f - 2"
    using cell_put_frame [OF p5] lc cell_put_frame [OF p] by simp_all
  ultimately show ?thesis using f lc get1 i5 cell_put_get [OF p5]
    by (auto simp: s2 val_at_def intact_def counted_def)
qed

text \<open>An object 7 with a method \<^verbatim>\<open>m\<close> that returns its argument, called with the argument 5.\<close>

definition call_store :: store where
  "call_store = demo_store
     \<lparr>strs := \<lparr>cells = [16 \<mapsto> \<lparr>ref_count = 1, hs_length = 1, hs_data = lit ''m'' @ [0]\<rparr>], avail = []\<rparr>,
      heap := \<lparr>objs = [Some (obj_new\<lparr>obj_id := 7, methods := [(lit ''m'', [OP_RETURN, 0])]\<rparr>)],
               lobjs = [Some \<lparr>lo_obj = Some 0, lo_lock = Some 0, lo_pin = 0\<rparr>]\<rparr>,
      lks := (snd (lock_new (locks_new_ctx 4 8)))\<lparr>txs := [Some \<lparr>tx_sid = 0, tx_cid = Some 0, tx_locked = []\<rparr>]\<rparr>,
      s_cache := \<lparr>table = [[0]], ces = [Some \<lparr>ce_object = 0, newer = None, older = None\<rparr>], newest = Some 0,
        oldest = Some 0, csize = 1, slots_used = 1, entries = 1\<rparr>\<rparr>"

definition call_state :: "store st" where
  "call_state = (demo_ctx [117, 20, 0, val_make_int 5], call_store)"

lemma call_store_simps:
  "strs call_store = \<lparr>cells = [16 \<mapsto> \<lparr>ref_count = 1, hs_length = 1, hs_data = lit ''m'' @ [0]\<rparr>], avail = []\<rparr>"
  "objs (heap call_store) = [Some (obj_new\<lparr>obj_id := 7, methods := [(lit ''m'', [OP_RETURN, 0])]\<rparr>)]"
  by (simp_all add: call_store_def)

lemma call_state_intact: "intact call_state {#}"
proof -
  have r: "all_refs call_state = {#20, 117, 0, val_make_int 5#}"
    by (simp add: call_state_def all_refs_def stack_refs_def demo_ctx_simps call_store_simps object_refs_def global_refs_def obj_new_def)
  obtain v h where v: "val_make_string 1 (lit ''m'') \<lparr>cells = Map.empty, avail = [16]\<rparr> = Inr (v, h)" "v = 20" "h = strs call_store"
    by (simp add: val_make_string_def string_malloc_def lit_def call_store_simps)
  have "refs_ok \<lparr>cells = Map.empty, avail = [16]\<rparr> {#}" by (simp add: refs_ok_empty avail_ok_def)
  then have "refs_ok (strs call_store) {#20#}" using make_string_ok [OF _ v(1)] v(2,3) by simp
  then have "refs_ok (strs call_store) (add_mset 117 (add_mset 0 (add_mset (val_make_int 5) {#20#})))"
    by (simp add: refs_ok_nonstring val_type_def [of 117])
  then have "refs_ok (strs (snd call_state)) (all_refs call_state)" unfolding r by (simp add: call_state_def add_mset_commute)
  then show ?thesis
    by (simp add: intact_def counted_def) (simp add: call_state_def ctx_ok_def demo_ctx_simps INITIAL_STACK_SIZE_def)
qed

theorem return_undoes_call_witness:
  "\<exists>q s1 s3. op_call demo_host 1 ([], 9) call_state = Inr (q, s1) \<and> op_return 0 s1 = Inr (([], 9), s3) \<and>
     fp (fst s3) = 1 \<and> sp (fst s3) = 2 \<and> val_at (fst s3) 1 = Inr (val_make_int 5)"
proof -
  have "case op_call demo_host 1 ([], 9) call_state of Inl _ \<Rightarrow> False | Inr (q, s1) \<Rightarrow>
      fp (fst s1) = 4 \<and> sp (fst s1) = 4 \<and> val_at (fst s1) 4 = Inr (val_make_int 5)"
    by code_simp
  then obtain q s1 where c: "op_call demo_host 1 ([], 9) call_state = Inr (q, s1)"
      "fp (fst s1) = 4" "sp (fst s1) = 4" "val_at (fst s1) 4 = Inr (val_make_int 5)"
    by (auto split: sum.splits)
  have st: "sp (fst call_state) = 4" "fp (fst call_state) = 1" by (simp_all add: call_state_def demo_ctx_simps)
  have i: "intact s1 {#}"
    by (rule op_call_intact [OF c(1) call_state_intact]) (simp_all add: demo_host_def in_use_def st)
  have "reg_val s1 0 = Inr (val_make_int 5)" "in_use (fst s1) (reg_ix (fst s1) 0)"
    using c by (simp_all add: reg_val_def reg_ix_def in_use_def)
  moreover have "\<forall>j \<in> {fp (fst s1) .. sp (fst s1)}. \<exists>v. val_at (fst s1) j = Inr v" using c by auto
  ultimately obtain s3 where "op_return 0 s1 = Inr (([], 9), s3)" "fp (fst s3) = fp (fst call_state)"
      "sp (fst s3) = sp (fst call_state) - int (unat (1 :: byte)) - 1" "val_at (fst s3) (sp (fst s3) - 1) = Inr (val_make_int 5)"
    using return_undoes_call [OF c(1), of s1 "{#}" 0 "val_make_int 5"] c i by (auto simp: intact_def counted_def)
  then show ?thesis using c(1) st by (intro exI [of _ q] exI [of _ s1] exI [of _ s3]) simp
qed

section \<open>The discipline of the stack\<close>




section \<open>Code that only goes forward\<close>














end
