(* ===== verification/Cmoo_Store_Props.thy ===== *)
theory Cmoo_Store_Props
  imports Cmoo_Store_Lemmas
begin

text \<open>The properties of the store: transaction ids, the release of the locks at the end of a
  transaction, and getting objects.\<close>

section \<open>Transaction ids\<close>

definition live_tx :: "'a store_scheme \<Rightarrow> nat \<Rightarrow> store_tx \<Rightarrow> bool" where
  "live_tx w tx t \<longleftrightarrow> tx < length (txs (lks w)) \<and> txs (lks w) ! tx = Some t"

text \<open>The cids in use are those of the live transactions, each of one of them.\<close>

definition cids_ok :: "'a store_scheme \<Rightarrow> bool" where
  "cids_ok w \<longleftrightarrow> length (cid_used w) = max_tasks (lks w) \<and>
     (\<forall>tx t. live_tx w tx t \<longrightarrow> (\<exists>c. tx_cid t = Some c \<and> c < max_tasks (lks w) \<and> cid_used w ! c)) \<and>
     (\<forall>tx t tx' t'. live_tx w tx t \<longrightarrow> live_tx w tx' t' \<longrightarrow> tx_cid t = tx_cid t' \<longrightarrow> tx = tx') \<and>
     (\<forall>c < max_tasks (lks w). cid_used w ! c \<longrightarrow> (\<exists>tx t. live_tx w tx t \<and> tx_cid t = Some c))"

lemma first_free_Some: "first_free us = Some c \<Longrightarrow> c < length us \<and> \<not> us ! c \<and> (\<forall>d < c. us ! d)"
proof (induction us arbitrary: c)
  case (Cons u us)
  then show ?case by (cases u) (auto simp: nth_Cons split: nat.splits)
qed simp

lemma first_free_None: "first_free us = None \<longleftrightarrow> (\<forall>c < length us. us ! c)"
  by (induction us) (auto simp: nth_Cons split: nat.splits)

lemma live_tx_snoc:
  "live_tx (w\<lparr>lks := (lks w)\<lparr>txs := txs (lks w) @ [Some t0]\<rparr>, sid_seq := n, cid_used := us\<rparr>) tx t \<longleftrightarrow>
     live_tx w tx t \<or> (tx = length (txs (lks w)) \<and> t = t0)"
  by (auto simp: live_tx_def nth_append)

lemma store_new_cids: "cids_ok (store_new p n frames h sh)"
  by (simp add: cids_ok_def store_new_def locks_new_ctx_def live_tx_def)

text \<open>A transaction that takes a free cid, and one that gives its cid back.\<close>

lemma cids_ok_add:
  assumes "cids_ok w" "c < max_tasks (lks w)" "\<not> cid_used w ! c" "tx_cid t0 = Some c"
  shows "cids_ok (w\<lparr>lks := (lks w)\<lparr>txs := txs (lks w) @ [Some t0]\<rparr>, sid_seq := n, cid_used := (cid_used w)[c := True]\<rparr>)"
proof -
  let ?w = "w\<lparr>lks := (lks w)\<lparr>txs := txs (lks w) @ [Some t0]\<rparr>, sid_seq := n, cid_used := (cid_used w)[c := True]\<rparr>"
  let ?live = "\<lambda>tx t. live_tx w tx t \<or> tx = length (txs (lks w)) \<and> t = t0"
  have len: "length (cid_used w) = max_tasks (lks w)" using assms(1) by (simp add: cids_ok_def)
  have old: "\<exists>d. tx_cid t = Some d \<and> d < max_tasks (lks w) \<and> cid_used w ! d \<and> d \<noteq> c" if "live_tx w tx t" for tx t
    using assms(1,3) that unfolding cids_ok_def by blast
  have "\<exists>d. tx_cid t = Some d \<and> d < max_tasks (lks w) \<and> (cid_used w)[c := True] ! d" if "?live tx t" for tx t
    using that old [of tx t] assms(2,4) len by (auto simp: nth_list_update)
  moreover have "tx = tx'" if "?live tx t" "?live tx' t'" "tx_cid t = tx_cid t'" for tx t tx' t'
    using that old [of tx t] old [of tx' t'] assms(1,4) unfolding cids_ok_def by auto
  moreover have "\<exists>tx t. ?live tx t \<and> tx_cid t = Some d" if h: "d < max_tasks (lks w)" "(cid_used w)[c := True] ! d" for d
  proof (cases "d = c")
    case False
    then obtain tx t where "live_tx w tx t" "tx_cid t = Some d" using h assms(1) unfolding cids_ok_def by auto
    then show ?thesis by blast
  qed (use assms(4) in blast)
  ultimately show ?thesis unfolding cids_ok_def live_tx_snoc by (simp add: len)
qed

lemma cids_ok_remove:
  assumes "cids_ok w" "live_tx w tx t" "tx_cid t = Some c" "\<And>tx' t'. live_tx w' tx' t' \<longleftrightarrow> live_tx w tx' t' \<and> tx' \<noteq> tx"
    "cid_used w' = (cid_used w)[c := False]" "max_tasks (lks w') = max_tasks (lks w)"
  shows "cids_ok w'"
proof -
  have len: "length (cid_used w) = max_tasks (lks w)" using assms(1) by (simp add: cids_ok_def)
  have inj: "tx' = tx" if "live_tx w tx' t'" "tx_cid t' = Some c" for tx' t'
    using assms(1,2,3) that unfolding cids_ok_def by metis
  have "\<exists>d. tx_cid t' = Some d \<and> d < max_tasks (lks w) \<and> (cid_used w)[c := False] ! d" if h: "live_tx w tx' t'" "tx' \<noteq> tx" for tx' t'
  proof -
    obtain d where d: "tx_cid t' = Some d" "d < max_tasks (lks w)" "cid_used w ! d"
      using assms(1) h(1) unfolding cids_ok_def by blast
    then have "d \<noteq> c" using inj h by blast
    then show ?thesis using d by simp
  qed
  moreover have "\<exists>tx' t'. (live_tx w tx' t' \<and> tx' \<noteq> tx) \<and> tx_cid t' = Some d"
    if d: "d < max_tasks (lks w)" "(cid_used w)[c := False] ! d" for d
  proof -
    have dc: "d \<noteq> c" using d len by (auto simp: nth_list_update)
    then obtain tx' t' where h: "live_tx w tx' t'" "tx_cid t' = Some d" using assms(1) d unfolding cids_ok_def by auto
    then have "tx' \<noteq> tx" using assms(2,3) dc by (auto simp: live_tx_def)
    then show ?thesis using h by blast
  qed
  moreover have "a = b" if "live_tx w a t1" "live_tx w b t2" "tx_cid t1 = tx_cid t2" for a t1 b t2
    using assms(1) that unfolding cids_ok_def by blast
  ultimately show ?thesis unfolding cids_ok_def assms(4-6) using len by (simp add: assms(5)) blast
qed

text \<open>C28: starting a transaction. As long as fewer than \<^verbatim>\<open>max_tasks\<close> transactions are live, the new one
  gets the smallest cid that no live transaction has, and the next sid. If all cids are in use,
  \<^verbatim>\<open>store_start_tx\<close> reads a cid that was never written (its assertion cannot be relied upon). The
  bookkeeping of the cids stays consistent.\<close>

theorem start_tx_gives_free_cid:
  assumes "cids_ok w"
  shows "case store_start_tx w of
      Inl f \<Rightarrow> f = Uninit_read \<and> (\<forall>c < max_tasks (lks w). \<exists>tx t. live_tx w tx t \<and> tx_cid t = Some c)
    | Inr (tx, w') \<Rightarrow> cids_ok w' \<and> sid_seq w' = sid_seq w + 1 \<and> (\<exists>c. live_tx w' tx \<lparr>tx_sid = sid_seq w, tx_cid = Some c, tx_locked = []\<rparr> \<and>
        (\<forall>tx' t'. live_tx w tx' t' \<longrightarrow> live_tx w' tx' t' \<and> tx' \<noteq> tx \<and> tx_cid t' \<noteq> Some c) \<and>
        (\<forall>d < c. \<exists>tx' t'. live_tx w tx' t' \<and> tx_cid t' = Some d))"
proof (cases "first_free (cid_used w)")
  case None
  then have "store_start_tx w = Inl Uninit_read" by (simp add: store_start_tx_def Let_def)
  moreover have "\<exists>tx t. live_tx w tx t \<and> tx_cid t = Some c" if "c < max_tasks (lks w)" for c
    using None assms that by (auto simp: first_free_None cids_ok_def)
  ultimately show ?thesis by simp
next
  case (Some c)
  note c = first_free_Some [OF Some]
  have len: "length (cid_used w) = max_tasks (lks w)" using assms by (simp add: cids_ok_def)
  let ?t = "\<lparr>tx_sid = sid_seq w, tx_cid = Some c, tx_locked = []\<rparr>"
  let ?w = "w\<lparr>lks := (lks w)\<lparr>txs := txs (lks w) @ [Some ?t]\<rparr>, sid_seq := sid_seq w + 1, cid_used := (cid_used w)[c := True]\<rparr>"
  have st: "store_start_tx w = Inr (length (txs (lks w)), ?w)"
    using Some c len by (simp add: store_start_tx_def Let_def)
  have old: "\<exists>d. tx_cid t = Some d \<and> d < max_tasks (lks w) \<and> cid_used w ! d" if "live_tx w tx t" for tx t
    using assms that unfolding cids_ok_def by blast
  have surj: "\<exists>tx t. live_tx w tx t \<and> tx_cid t = Some d" if "d < max_tasks (lks w)" "cid_used w ! d" for d
    using assms that unfolding cids_ok_def by blast
  have "cids_ok ?w" by (rule cids_ok_add) (use assms c len in auto)
  moreover have "\<forall>d < c. \<exists>tx' t'. live_tx w tx' t' \<and> tx_cid t' = Some d"
    using c len surj by (metis less_trans)
  moreover have "tx' \<noteq> length (txs (lks w)) \<and> tx_cid t' \<noteq> Some c" if "live_tx w tx' t'" for tx' t'
    using old [OF that] that c by (auto simp: live_tx_def)
  ultimately show ?thesis by (simp add: st live_tx_snoc) (metis (no_types, lifting))
qed

theorem start_tx_gives_free_cid_witness:
  "\<exists>w'. store_start_tx (store_new \<lparr>objects = []\<rparr> 4 8 \<lparr>objs = [], lobjs = []\<rparr> \<lparr>cells = Map.empty, avail = []\<rparr>) = Inr (0, w') \<and>
     cids_ok w' \<and> live_tx w' 0 \<lparr>tx_sid = 0, tx_cid = Some 0, tx_locked = []\<rparr>"
proof -
  let ?w = "store_new \<lparr>objects = []\<rparr> 4 8 \<lparr>objs = [], lobjs = []\<rparr> \<lparr>cells = Map.empty, avail = []\<rparr>"
  obtain w' where s: "store_start_tx ?w = Inr (0, w')"
    by (simp add: store_start_tx_def store_new_def locks_new_ctx_def Let_def numeral_eq_Suc)
  then have l: "live_tx w' 0 \<lparr>tx_sid = 0, tx_cid = Some 0, tx_locked = []\<rparr>"
    by (auto simp: store_start_tx_def store_new_def locks_new_ctx_def Let_def numeral_eq_Suc live_tx_def)
  have "cids_ok w'" using start_tx_gives_free_cid [OF store_new_cids, of "\<lparr>objects = []\<rparr>" 4 8 "\<lparr>objs = [], lobjs = []\<rparr>" "\<lparr>cells = Map.empty, avail = []\<rparr>"] s
    by simp
  then show ?thesis using s l by blast
qed

section \<open>The end of a transaction\<close>

lemma lobject_unpin_frame:
  assumes "lobject_unpin lo h = Inr h'"
  shows "lobj_lock a h' = lobj_lock a h" "lobj_id a h' = lobj_id a h"
proof -
  show "lobj_id a h' = lobj_id a h" using assms by simp
  show "lobj_lock a h' = lobj_lock a h"
    using assms by (cases "a = lo")
      (auto simp: lobject_unpin_def res_simps lobj_lock_def lobject_get_lock_def heap_get_def heap_put_def)
qed

lemma cache_release_frame:
  assumes "cache_release_object lo (c, h) = Inr (c', h')"
  shows "lobj_lock a h' = lobj_lock a h" "lobj_id a h' = lobj_id a h"
proof -
  have "lobject_unpin lo h = Inr h'"
    using assms by (auto simp: cache_release_object_def res_simps Let_def split: option.splits)
  then show "lobj_lock a h' = lobj_lock a h" "lobj_id a h' = lobj_id a h" using lobject_unpin_frame by auto
qed

lemma lock_unlock_queues:
  assumes "locks_wf s" "lock_unlock l tx s = Inr s'"
  shows "locks_wf s'" "queues s' k = (if k = l then map_option (spec_release tx) (queues s k) else queues s k)"
    "txs s' = txs s" "max_tasks s' = max_tasks s"
proof -
  obtain lk where lk: "heap_get (locks s) l = Inr lk" using assms(2) by (auto simp: lock_unlock_def elim: rbind_InrE)
  then obtain q where q: "queues s l = Some q" by (simp add: queues_def)
  from lock_unlock_refines [OF assms(1) q assms(2)] q
  show "locks_wf s'" "queues s' k = (if k = l then map_option (spec_release tx) (queues s k) else queues s k)" by auto
  have mt: "wfg_released tx es s0 = Inr s1 \<Longrightarrow> max_tasks s1 = max_tasks s0" for es s0 s1
    by (induction tx es s0 rule: wfg_released.induct) (auto simp: res_simps wfg_set_def split: if_splits)
  show "txs s' = txs s" "max_tasks s' = max_tasks s"
    using assms(2) lk
    by (cases "wait_groups lk"; auto simp: lock_unlock_def lock_put_def dest: wfg_released_frame mt split: if_splits)+
qed

text \<open>How often a lock is released: once for every listed object it belongs to.\<close>

definition releases :: "oheap \<Rightarrow> nat list \<Rightarrow> nat \<Rightarrow> nat" where
  "releases h los l = length (filter (\<lambda>lo. lobj_lock lo h = Inr l) los)"

lemma release_all_queues:
  assumes "release_all tx los w = Inr w'" "locks_wf (lks w)"
  shows "locks_wf (lks w') \<and> txs (lks w') = txs (lks w) \<and> max_tasks (lks w') = max_tasks (lks w) \<and> cid_used w' = cid_used w
    \<and> queues (lks w') l = map_option (spec_release tx ^^ releases (heap w) los l) (queues (lks w) l)"
  using assms
proof (induction los arbitrary: w)
  case Nil
  then show ?case by (simp add: releases_def option.map_id0 [unfolded id_def])
next
  case (Cons lo los)
  obtain k s c h where m: "lobj_lock lo (heap w) = Inr k" "lock_unlock k tx (lks w) = Inr s"
      "cache_release_object lo (s_cache w, heap w) = Inr (c, h)"
      "release_all tx los (w\<lparr>lks := s, s_cache := c, heap := h\<rparr>) = Inr w'"
    using Cons.prems(1) by (auto elim!: rbind_InrE)
  note u = lock_unlock_queues [OF Cons.prems(2) m(2)]
  have rel: "releases h los l = releases (heap w) los l"
    by (simp add: releases_def cache_release_frame [OF m(3)])
  have "releases (heap w) (lo # los) l = (if l = k then Suc (releases (heap w) los l) else releases (heap w) los l)"
    using m(1) by (auto simp: releases_def)
  then show ?case using Cons.IH [OF m(4)] u rel
    by (auto simp: option.map_comp funpow_Suc_right simp del: funpow.simps)
qed

text \<open>The steps of \<^verbatim>\<open>store_finish_tx\<close>, and what becomes of the transactions.\<close>

lemma finish_tx_steps:
  assumes "store_finish_tx tx w = Inr w'"
  obtains t w1 c where "heap_get (txs (lks w)) tx = Inr t" "release_all tx (tx_locked t) w = Inr w1" "tx_cid t = Some c"
    "c < length (cid_used w1)"
    "w' = w1\<lparr>cid_used := (cid_used w1)[c := False], lks := (lks w1)\<lparr>txs := heap_free tx (txs (lks w1))\<rparr>\<rparr>"
  using assms by (auto simp: store_finish_tx_def res_simps split: option.splits if_splits)

lemma finish_tx_live:
  assumes "cids_ok w" "locks_wf (lks w)" "store_finish_tx tx w = Inr w'"
  shows "locks_wf (lks w') \<and> cids_ok w' \<and> (\<forall>tx' t'. live_tx w' tx' t' \<longleftrightarrow> live_tx w tx' t' \<and> tx' \<noteq> tx)"
  using assms(3)
proof (cases rule: finish_tx_steps)
  case (1 t w1 c)
  have e: "locks_wf (lks w1)" "txs (lks w1) = txs (lks w)" "max_tasks (lks w1) = max_tasks (lks w)" "cid_used w1 = cid_used w"
    using release_all_queues [OF 1(2) assms(2)] by auto
  have lt: "live_tx w tx t" using 1(1) by (auto simp: live_tx_def res_simps)
  have live: "live_tx w' tx' t' \<longleftrightarrow> live_tx w tx' t' \<and> tx' \<noteq> tx" for tx' t'
    by (cases "tx' = tx") (auto simp: 1(5) live_tx_def heap_free_def e(2))
  have "cids_ok w'" by (rule cids_ok_remove [OF assms(1) lt 1(3) live]) (simp_all add: 1(5) e)
  moreover have "locks_wf (lks w')" using e(1) by (simp add: 1(5) locks_wf_def)
  ultimately show ?thesis using live by blast
qed

text \<open>C29: the end of a transaction. \<^verbatim>\<open>store_finish_tx\<close> releases the lock of every object that the
  transaction has listed, as often as it is listed, each with the effect of the abstract release (so a
  lock without other holders goes to the next group), and touches no other lock. The transaction is
  gone, its cid can be taken again, and the other transactions are as before.\<close>

theorem finish_tx_releases_locks:
  assumes "cids_ok w" and "locks_wf (lks w)" and "store_finish_tx tx w = Inr w'"
  shows "\<exists>t c. live_tx w tx t \<and> tx_cid t = Some c \<and> \<not> cid_used w' ! c \<and> cids_ok w' \<and> locks_wf (lks w')
    \<and> (\<forall>tx' t'. live_tx w' tx' t' \<longleftrightarrow> live_tx w tx' t' \<and> tx' \<noteq> tx)
    \<and> (\<forall>l. queues (lks w') l = map_option (spec_release tx ^^ releases (heap w) (tx_locked t) l) (queues (lks w) l))"
  using assms(3)
proof (cases rule: finish_tx_steps)
  case (1 t w1 c)
  have "queues (lks w') l = map_option (spec_release tx ^^ releases (heap w) (tx_locked t) l) (queues (lks w) l)" for l
    using release_all_queues [OF 1(2) assms(2), of l] by (simp add: 1(5) queues_def)
  moreover have "live_tx w tx t" "\<not> cid_used w' ! c" using 1(1,4) by (auto simp: live_tx_def res_simps 1(5))
  ultimately show ?thesis using 1(3) finish_tx_live [OF assms] by blast
qed

section \<open>Getting an object\<close>

lemma chain_find_id: "chain_find c h i es = Inr (Some e) \<Longrightarrow> \<exists>lo. ce_obj c e = Inr lo \<and> lobj_id lo h = Inr i"
  by (induction es) (auto simp: ce_obj_def res_simps split: if_splits)

lemma cache_peek_id: "cache_peek c h i = Inr (Some lo) \<Longrightarrow> lobj_id lo h = Inr i"
  by (auto simp: cache_peek_def res_simps split: option.splits dest!: chain_find_id)

lemma cache_inv_grow:
  assumes "cache_inv c h" "\<And>a i. lobj_id a h = Inr i \<Longrightarrow> lobj_id a h' = Inr i"
  shows "cache_inv c h'"
  using assms unfolding cache_inv_def by metis

lemma find_object_id: "find_object h i as = Inr (Some a) \<Longrightarrow> \<exists>ob. heap_get (objs h) a = Inr ob \<and> obj_get_id ob = i"
  by (induction h i as rule: find_object.induct) (auto simp: res_simps split: if_splits)

lemma persist_get_id: "persist_get p i h = Inr (Some a) \<Longrightarrow> \<exists>ob. heap_get (objs h) a = Inr ob \<and> obj_get_id ob = i"
  unfolding persist_get_def by (rule find_object_id)

lemma lobject_pin_frame':
  assumes "lobject_pin lo h = Inr h'"
  shows "lobj_lock a h' = lobj_lock a h" "lobj_id a h' = lobj_id a h"
proof -
  show "lobj_id a h' = lobj_id a h" using assms by simp
  show "lobj_lock a h' = lobj_lock a h"
    using assms by (cases "a = lo")
      (auto simp: lobject_pin_def res_simps lobj_lock_def lobject_get_lock_def heap_get_def heap_put_def)
qed

lemma cache_put_frame:
  assumes "cache_put_object lo (c, h) = Inr (c', h')"
  shows "lobj_lock a h' = lobj_lock a h" "lobj_id a h' = lobj_id a h"
proof -
  have "lobject_pin lo h = Inr h'" using assms by (auto simp: cache_put_object_def res_simps Let_def)
  then show "lobj_lock a h' = lobj_lock a h" "lobj_id a h' = lobj_id a h" using lobject_pin_frame' by auto
qed

text \<open>A new wrapper, on every branch: the cache fails, or takes it.\<close>

definition new_lobject :: "nat \<Rightarrow> 'a store_scheme \<Rightarrow> lobject" where
  "new_lobject a w = \<lparr>lo_obj = Some a, lo_lock = Some (length (locks (lks w))), lo_pin = 1\<rparr>"

definition new_slots :: "nat \<Rightarrow> cache \<Rightarrow> nat" where
  "new_slots b c = (if table c ! b = [] then slots_used c + 1 else slots_used c)"

lemma wrap_object_grows:
  assumes "cache_inv (s_cache w) (heap w)" "heap_get (objs (heap w)) a = Inr ob"
    "h' = (heap w)\<lparr>lobjs := lobjs (heap w) @ [Some \<lparr>lo_obj = Some a, lo_lock = l, lo_pin = p\<rparr>]\<rparr>"
  shows "lobj_id (length (lobjs (heap w))) h' = Inr (obj_get_id ob)" "lobj_id x (heap w) = Inr i \<Longrightarrow> lobj_id x h' = Inr i"
    "cache_inv (s_cache w) h'"
proof -
  show "lobj_id (length (lobjs (heap w))) h' = Inr (obj_get_id ob)"
    using assms(2) by (simp add: assms(3) lobj_id_def lobj_object_def lobject_get_object_def deref_def)
  have old: "lobj_id x h' = Inr i" if "lobj_id x (heap w) = Inr i" for x i
  proof -
    have "x < length (lobjs (heap w))" using lobj_id_live [OF that] by (auto simp: res_simps)
    then show ?thesis using that by (simp add: assms(3) lobj_id_def lobj_object_def lobject_get_object_def)
  qed
  then show "lobj_id x (heap w) = Inr i \<Longrightarrow> lobj_id x h' = Inr i" .
  show "cache_inv (s_cache w) h'" by (rule cache_inv_grow [OF assms(1) old])
qed

lemma wrap_object_eq:
  assumes "cache_inv (s_cache w) (heap w)" "heap_get (objs (heap w)) a = Inr ob"
    "b = unat (obj_get_id ob) mod csize (s_cache w)"
  shows "wrap_object a w =
    (if load_exceeded (new_slots b (s_cache w)) (csize (s_cache w)) then Inl Assert_failed
     else Inr (length (lobjs (heap w)), w\<lparr>lks := snd (lock_new (lks w)),
       heap := (heap w)\<lparr>lobjs := lobjs (heap w) @ [Some (new_lobject a w)]\<rparr>,
       s_cache := put_state (s_cache w) b (length (lobjs (heap w))) (new_slots b (s_cache w))\<rparr>))"
proof -
  let ?lo = "length (lobjs (heap w))" and ?l = "length (locks (lks w))"
  let ?h3 = "(heap w)\<lparr>lobjs := lobjs (heap w) @ [Some \<lparr>lo_obj = Some a, lo_lock = Some ?l, lo_pin = 0\<rparr>]\<rparr>"
  note g = wrap_object_grows [OF assms(1,2) refl, where l = "Some ?l" and p = 0]
  obtain h' where "lobject_pin ?lo ?h3 = Inr h'"
    "cache_put_object ?lo (s_cache w, ?h3) = (if load_exceeded (new_slots b (s_cache w)) (csize (s_cache w)) then Inl Assert_failed
      else Inr (put_state (s_cache w) b ?lo (new_slots b (s_cache w)), h'))"
    using cache_put_eq [OF g(3,1)] by (auto simp: new_slots_def assms(3))
  moreover from this(1) have "h' = (heap w)\<lparr>lobjs := lobjs (heap w) @ [Some (new_lobject a w)]\<rparr>"
    by (simp add: lobject_pin_def lobject_upd_def heap_put_def new_lobject_def)
  ultimately show ?thesis
    by (simp add: wrap_object_def lobject_new_def lock_new_def lobject_set_object_def lobject_set_lock_def lobject_upd_def heap_put_def)
qed

text \<open>It is found under the id of its object from then on.\<close>

lemma wrap_object_effect:
  assumes "wrap_object a w = Inr (lo, w')" "cache_inv (s_cache w) (heap w)" "heap_get (objs (heap w)) a = Inr ob"
  shows "lobj_id lo (heap w') = Inr (obj_get_id ob)" "cache_peek (s_cache w') (heap w') (obj_get_id ob) = Inr (Some lo)"
    "cache_inv (s_cache w') (heap w')" "lobj_lock lo (heap w') = Inr (length (locks (lks w)))" "lks w' = snd (lock_new (lks w))"
    "cache_peek (s_cache w') (heap w') j = (if j = obj_get_id ob then Inr (Some lo) else cache_peek (s_cache w) (heap w') j)"
proof -
  define b where "b = unat (obj_get_id ob) mod csize (s_cache w)"
  let ?lo = "length (lobjs (heap w))" and ?h = "(heap w)\<lparr>lobjs := lobjs (heap w) @ [Some (new_lobject a w)]\<rparr>"
  let ?c = "put_state (s_cache w) b ?lo (new_slots b (s_cache w))"
  have w': "lo = ?lo" "w' = w\<lparr>lks := snd (lock_new (lks w)), heap := ?h, s_cache := ?c\<rparr>"
    and room: "\<not> load_exceeded (new_slots b (s_cache w)) (csize (s_cache w))"
    using assms(1) wrap_object_eq [OF assms(2,3) b_def] by (auto split: if_splits)
  note g = wrap_object_grows [OF assms(2,3), of ?h, unfolded new_lobject_def, OF refl, folded new_lobject_def]
  obtain h4 where h4: "cache_put_object ?lo (s_cache w, ?h) = Inr (?c, h4)" "lobject_pin ?lo ?h = Inr h4"
    using cache_put_eq [OF g(3,1)] room by (auto simp: new_slots_def b_def)
  have "h4 = ?h" using h4(2) by (simp add: lobject_pin_def lobject_upd_def heap_put_def new_lobject_def)
  then have p: "cache_put_object ?lo (s_cache w, ?h) = Inr (?c, ?h)" using h4(1) by simp
  show "lobj_id lo (heap w') = Inr (obj_get_id ob)" "cache_peek (s_cache w') (heap w') (obj_get_id ob) = Inr (Some lo)"
    "cache_inv (s_cache w') (heap w')" "lks w' = snd (lock_new (lks w))"
    "cache_peek (s_cache w') (heap w') j = (if j = obj_get_id ob then Inr (Some lo) else cache_peek (s_cache w) (heap w') j)"
    using cache_put_peek [OF g(3,1) p] g(1) by (simp_all add: w')
  show "lobj_lock lo (heap w') = Inr (length (locks (lks w)))"
    by (simp add: w' lobj_lock_def lobject_get_lock_def new_lobject_def)
qed

lemma find_cached_effect:
  assumes "find_cached oid w = Inr (lo, w')" "cache_inv (s_cache w) (heap w)"
  shows "lobj_id lo (heap w') = Inr oid" "cache_peek (s_cache w') (heap w') oid = Inr (Some lo)"
    "cache_inv (s_cache w') (heap w')" "lks w' = lks w \<or> lks w' = snd (lock_new (lks w))"
proof -
  obtain r c h where g: "cache_get_object oid (s_cache w, heap w) = Inr (r, c, h)" "cache_peek (s_cache w) (heap w) oid = Inr r"
      "cache_inv c h" "\<And>j. cache_peek c h j = cache_peek (s_cache w) (heap w) j"
    using cache_get_ok [OF assms(2), of oid] by metis
  let ?w = "w\<lparr>s_cache := c, heap := h\<rparr>"
  have "lobj_id lo (heap w') = Inr oid \<and> cache_peek (s_cache w') (heap w') oid = Inr (Some lo) \<and>
    cache_inv (s_cache w') (heap w') \<and> (lks w' = lks w \<or> lks w' = snd (lock_new (lks w)))"
  proof (cases r)
    case (Some x)
    then have "lo = x" "w' = ?w" using assms(1) g(1) by (auto simp: find_cached_def)
    then show ?thesis using g Some cache_peek_id [of c h oid x] by simp
  next
    case None
    then obtain a where p: "persist_get (s_persist ?w) oid (heap ?w) = Inr (Some a)" "wrap_object a ?w = Inr (lo, w')"
      using assms(1) g(1) by (auto simp: find_cached_def res_simps split: option.splits)
    obtain ob where ob: "heap_get (objs (heap ?w)) a = Inr ob" "obj_get_id ob = oid" using persist_get_id [OF p(1)] by blast
    have "cache_inv (s_cache ?w) (heap ?w)" using g(3) by simp
    from wrap_object_effect [OF p(2) this ob(1)] ob(2) show ?thesis by simp
  qed
  then show "lobj_id lo (heap w') = Inr oid" "cache_peek (s_cache w') (heap w') oid = Inr (Some lo)"
    "cache_inv (s_cache w') (heap w')" "lks w' = lks w \<or> lks w' = snd (lock_new (lks w))" by auto
qed

lemma lock_new_wf: "locks_wf s \<Longrightarrow> locks_wf (snd (lock_new s))"
  by (auto simp: locks_wf_def lock_new_def heap_get_def nth_append lock_wf_def queue_ok_def split: if_splits option.splits)

lemma lock_enter_txs: "lock_enter l m tx s = Inr (r, s') \<Longrightarrow> txs s' = txs s"
proof -
  assume e: "lock_enter l m tx s = Inr (r, s')"
  have wait: "txs s2 = txs s1" if "lock_wait l i tx s1 = Inr (r1, s2)" for i s1 r1 s2
    using that by (auto simp: lock_wait_def lock_leave_def lock_put_def res_simps Let_def split: if_splits option.splits)
  have join: "txs s2 = txs s1" if "lock_join l tx lk i s1 = Inr (r1, s2)" for lk i s1 r1 s2
    using that by (auto simp: lock_join_def join_wait_def lock_put_def res_simps Let_def split: if_splits)
  have mark: "txs s2 = txs s1" if "mark_deadlocked r0 s1 = Inr s2" for r0 s1 s2
    using that by (auto simp: mark_deadlocked_def lock_put_def res_simps)
  have enq: "txs s2 = txs s1" if "lock_enqueue l m1 tx lk fg s1 = Inr (r1, s2)" for m1 lk fg s1 r1 s2
    using that by (auto simp: lock_enqueue_def lock_put_def res_simps Let_def split: option.splits
        dest!: wait wfg_wait_for_frame note_blocked_frame mark)
  obtain lk where lk: "heap_get (locks s) l = Inr lk" using e by (auto simp: lock_enter_def elim: rbind_InrE)
  show "txs s' = txs s"
  proof (cases "wait_groups lk")
    case Nil
    then show ?thesis using e lk by (auto simp: lock_enter_def lock_put_def)
  next
    case (Cons g rest)
    then show ?thesis using e lk
      by (cases g) (auto simp: lock_enter_def res_simps lock_put_def dest: join enq split: if_splits option.splits)
  qed
qed

lemma lock_lock_alone:
  assumes "lock_lock (\<lambda>_. None) l m tx w = Inr (c, w')"
  obtains s where "lock_enter l m tx (lks w) = Inr (Returned c, s)" "w' = w\<lparr>lks := s\<rparr>"
proof -
  obtain r s where e: "lock_enter l m tx (lks w) = Inr (r, s)" using assms by (auto simp: lock_lock_def elim: rbind_InrE)
  then show ?thesis using assms that by (cases r) (auto simp: lock_lock_def)
qed

lemma shared_returns_taken: "spec_acquire n LOCK_SHARED tx q = (Returned c, q') \<Longrightarrow> c = LOCK_TAKEN"
  by (cases q) (auto simp: Let_def split: if_splits prod.splits)

text \<open>The steps of a call that does not have to wait: the lobject, its lock, the queue of the lock afterwards.\<close>

lemma get_object_steps:
  assumes "store_get_object (\<lambda>_. None) tx oid w = Inr (r, w')" "cache_inv (s_cache w) (heap w)" "locks_wf (lks w)"
  obtains lo w1 l q s t where "find_cached oid w = Inr (lo, w1)" "lobj_lock lo (heap w1) = Inr l" "r = Some lo"
    "queues s = (queues (lks w1))(l \<mapsto> q)" "tx \<in> holders q" "locks_wf s" "txs s = txs (lks w)" "heap_get (txs s) tx = Inr t"
    "w' = w1\<lparr>lks := s\<lparr>txs := heap_put tx (t\<lparr>tx_locked := lo # tx_locked t\<rparr>) (txs s)\<rparr>\<rparr>"
proof -
  obtain lo w1 l c w2 where m: "find_cached oid w = Inr (lo, w1)" "lobj_lock lo (heap w1) = Inr l"
      "lock_lock (\<lambda>_. None) l LOCK_SHARED tx w1 = Inr (c, w2)"
    and res: "(if c \<noteq> LOCK_TAKEN then Inr (None, w2) else rbind (tx_note_locked tx lo w2) (\<lambda>w. Inr (Some lo, w))) = Inr (r, w')"
    using assms(1) unfolding store_get_object_def by (auto elim!: rbind_InrE simp del: if_split)
  note f = find_cached_effect [OF m(1) assms(2)]
  have wf1: "locks_wf (lks w1)" "txs (lks w1) = txs (lks w)" using f(4) assms(3) lock_new_wf by (auto simp: lock_new_def)
  obtain s where s: "lock_enter l LOCK_SHARED tx (lks w1) = Inr (Returned c, s)" "w2 = w1\<lparr>lks := s\<rparr>"
    by (rule lock_lock_alone [OF m(3)])
  obtain lk where "heap_get (locks (lks w1)) l = Inr lk" using s(1) by (auto simp: lock_enter_def elim: rbind_InrE)
  then obtain q0 where q0: "queues (lks w1) l = Some q0" by (simp add: queues_def)
  obtain q where q: "spec_acquire (next_wg (lks w1)) LOCK_SHARED tx q0 = (Returned c, q)"
      "queues s = (queues (lks w1))(l \<mapsto> q)" and wf2: "locks_wf s"
    using lock_enter_refines [OF wf1(1) q0 s(1)] by blast
  have c: "c = LOCK_TAKEN" by (rule shared_returns_taken [OF q(1)])
  then have hold: "tx \<in> holders q" using spec_acquire_granted q(1) by blast
  obtain t where "heap_get (txs s) tx = Inr t" "r = Some lo"
    "w' = w1\<lparr>lks := s\<lparr>txs := heap_put tx (t\<lparr>tx_locked := lo # tx_locked t\<rparr>) (txs s)\<rparr>\<rparr>"
    using res c s(2) by (auto simp: tx_note_locked_def elim!: rbind_InrE)
  then show ?thesis using that [OF m(1,2) _ q(2) hold wf2] lock_enter_txs [OF s(1)] wf1(2) by simp
qed

lemma txs_upd_locks: "queues (s\<lparr>txs := x\<rparr>) = queues s" "locks_wf (s\<lparr>txs := x\<rparr>) = locks_wf s"
  by (auto simp: fun_eq_iff queues_def locks_wf_def)

lemma get_object_wf:
  assumes "store_get_object (\<lambda>_. None) tx oid w = Inr (r, w')" "cache_inv (s_cache w) (heap w)" "locks_wf (lks w)"
  shows "locks_wf (lks w')"
  by (rule get_object_steps [OF assms]) (simp add: txs_upd_locks)



text \<open>A store with an object 7 in its cache.\<close>

definition cached_store :: store where
  "cached_store =
     \<lparr>strs = \<lparr>cells = Map.empty, avail = []\<rparr>,
      heap = \<lparr>objs = [Some (obj_new\<lparr>obj_id := 7\<rparr>)], lobjs = [Some \<lparr>lo_obj = Some 0, lo_lock = Some 0, lo_pin = 0\<rparr>]\<rparr>,
      lks = (snd (lock_new (locks_new_ctx 4 8)))\<lparr>txs := [Some \<lparr>tx_sid = 0, tx_cid = Some 0, tx_locked = []\<rparr>]\<rparr>,
      s_cache = \<lparr>table = [[0]], ces = [Some \<lparr>ce_object = 0, newer = None, older = None\<rparr>], newest = Some 0,
        oldest = Some 0, csize = 1, slots_used = 1, entries = 1\<rparr>,
      s_persist = \<lparr>objects = [0]\<rparr>, alloc_id = 1000, sid_seq = 1, cid_used = [True, False, False, False]\<rparr>"

lemma cached_store_wf: "locks_wf (lks cached_store)" "cids_ok cached_store"
proof -
  have "heap_get (locks (lks cached_store)) l = Inr lk \<Longrightarrow> lk = \<lparr>wait_groups = [], last_wait_group = None\<rparr>" for l lk
    by (auto simp: cached_store_def lock_new_def locks_new_ctx_def res_simps)
  then show "locks_wf (lks cached_store)"
    unfolding locks_wf_def by (fastforce simp: lock_wf_def queue_ok_def)
  have l: "live_tx cached_store tx t \<longleftrightarrow> tx = 0 \<and> t = \<lparr>tx_sid = 0, tx_cid = Some 0, tx_locked = []\<rparr>" for tx t
    by (auto simp: live_tx_def cached_store_def lock_new_def locks_new_ctx_def)
  have "\<forall>c < 4. cid_used cached_store ! c \<longrightarrow> c = 0"
    by (auto simp: cached_store_def nth_Cons numeral_eq_Suc split: nat.splits)
  then show "cids_ok cached_store" unfolding cids_ok_def l
    by (auto simp: cached_store_def lock_new_def locks_new_ctx_def)
qed


lemma cached_store_inv: "cache_inv (s_cache cached_store) (heap cached_store)"
proof -
  have "lobj_id 0 (heap cached_store) = Inr 7"
    by (simp add: cached_store_def lobj_id_def lobj_object_def lobject_get_object_def deref_def heap_get_def obj_get_id_def)
  then show ?thesis
    by (simp add: cache_inv_def cached_store_def link_ok_def)
qed

lemma cached_store_get:
  obtains w w' where "store_get_object (\<lambda>_. None) 0 7 cached_store = Inr (Some 0, w)" "queues (lks w) 0 = Some [(0, LOCK_SHARED, [0])]"
    "store_finish_tx 0 w = Inr w'" "lobj_lock 0 (heap w) = Inr 0" "cid_used w = cid_used cached_store"
    "max_tasks (lks w) = max_tasks (lks cached_store)" "txs (lks w) = [Some \<lparr>tx_sid = 0, tx_cid = Some 0, tx_locked = [0]\<rparr>]"
proof -
  have "case store_get_object (\<lambda>_. None) 0 7 cached_store of
      Inr (Some lo, w) \<Rightarrow> lo = 0 \<and> queues (lks w) 0 = Some [(0, LOCK_SHARED, [0])] \<and>
        lobj_lock 0 (heap w) = Inr 0 \<and> cid_used w = cid_used cached_store \<and> max_tasks (lks w) = max_tasks (lks cached_store) \<and>
        txs (lks w) = [Some \<lparr>tx_sid = 0, tx_cid = Some 0, tx_locked = [0]\<rparr>] \<and>
        \<not> isl (store_finish_tx 0 w)
    | _ \<Rightarrow> False" by code_simp
  then have "\<exists>w. store_get_object (\<lambda>_. None) 0 7 cached_store = Inr (Some 0, w) \<and>
      queues (lks w) 0 = Some [(0, LOCK_SHARED, [0])] \<and> \<not> isl (store_finish_tx 0 w) \<and>
      lobj_lock 0 (heap w) = Inr 0 \<and> cid_used w = cid_used cached_store \<and> max_tasks (lks w) = max_tasks (lks cached_store) \<and>
      txs (lks w) = [Some \<lparr>tx_sid = 0, tx_cid = Some 0, tx_locked = [0]\<rparr>]"
    by (cases "store_get_object (\<lambda>_. None) 0 7 cached_store") (auto split: option.splits)
  then obtain w where w: "store_get_object (\<lambda>_. None) 0 7 cached_store = Inr (Some 0, w)"
      "queues (lks w) 0 = Some [(0, LOCK_SHARED, [0])]" "\<not> isl (store_finish_tx 0 w)"
      "lobj_lock 0 (heap w) = Inr 0" "cid_used w = cid_used cached_store" "max_tasks (lks w) = max_tasks (lks cached_store)"
      "txs (lks w) = [Some \<lparr>tx_sid = 0, tx_cid = Some 0, tx_locked = [0]\<rparr>]" by blast
  obtain w' where "store_finish_tx 0 w = Inr w'" using w(3) by (metis sum.collapse(2) w(3))
  then show ?thesis using that w by blast
qed


lemma cids_ok_note:
  assumes "cids_ok w" "live_tx w tx t" "live_tx w' tx t'" "tx_cid t' = tx_cid t"
    "\<forall>tx' t'. tx' \<noteq> tx \<longrightarrow> live_tx w' tx' t' = live_tx w tx' t'" "cid_used w' = cid_used w" "max_tasks (lks w') = max_tasks (lks w)"
  shows "cids_ok w'"
proof -
  have "(\<exists>u. live_tx w' a u \<and> tx_cid u = x) \<longleftrightarrow> (\<exists>u. live_tx w a u \<and> tx_cid u = x)" for a x
    using assms(2-5) by (cases "a = tx") (auto simp: live_tx_def)
  then have c: "live_tx w' a u \<Longrightarrow> \<exists>u'. live_tx w a u' \<and> tx_cid u' = tx_cid u"
      "live_tx w a u \<Longrightarrow> \<exists>u'. live_tx w' a u' \<and> tx_cid u' = tx_cid u" for a u by blast+
  show ?thesis
    using assms(1) unfolding cids_ok_def assms(6,7)
    by (intro conjI allI impI) (metis c)+
qed

theorem finish_tx_releases_locks_witness:
  "\<exists>w w'. store_get_object (\<lambda>_. None) 0 7 cached_store = Inr (Some 0, w) \<and> queues (lks w) 0 = Some [(0, LOCK_SHARED, [0])] \<and>
     store_finish_tx 0 w = Inr w' \<and> queues (lks w') 0 = Some []"
proof -
  obtain w w' where w: "store_get_object (\<lambda>_. None) 0 7 cached_store = Inr (Some 0, w)"
      "queues (lks w) 0 = Some [(0, LOCK_SHARED, [0])]" "store_finish_tx 0 w = Inr w'" "lobj_lock 0 (heap w) = Inr 0"
      "cid_used w = cid_used cached_store" "max_tasks (lks w) = max_tasks (lks cached_store)"
      "txs (lks w) = [Some \<lparr>tx_sid = 0, tx_cid = Some 0, tx_locked = [0]\<rparr>]"
    by (rule cached_store_get)
  have wf: "locks_wf (lks w)" by (rule get_object_wf [OF w(1) cached_store_inv cached_store_wf(1)])
  have t: "live_tx cached_store tx t \<longleftrightarrow> tx = 0 \<and> t = \<lparr>tx_sid = 0, tx_cid = Some 0, tx_locked = []\<rparr>" for tx t
    by (auto simp: live_tx_def cached_store_def lock_new_def locks_new_ctx_def)
  have t': "live_tx w tx t \<longleftrightarrow> tx = 0 \<and> t = \<lparr>tx_sid = 0, tx_cid = Some 0, tx_locked = [0]\<rparr>" for tx t
    by (auto simp: live_tx_def w(7))
  have "cids_ok w"
    by (rule cids_ok_note [OF cached_store_wf(2), of 0 "\<lparr>tx_sid = 0, tx_cid = Some 0, tx_locked = []\<rparr>" w
          "\<lparr>tx_sid = 0, tx_cid = Some 0, tx_locked = [0]\<rparr>"]) (use w(5,6) t t' in auto)
  from finish_tx_releases_locks [OF this wf w(3)]
  have "queues (lks w') 0 = Some []" using w(2,4) t' by (auto simp: releases_def)
  then show ?thesis using w by (intro exI [of _ w] exI [of _ w']) simp
qed

end
