(* ===== verification/Cmoo_Queue.thy ===== *)
theory Cmoo_Queue
  imports Cmoo_Base
begin

text \<open>
  The singly linked lists with a pointer to the first and one to the last member, which
  \<^verbatim>\<open>src/src/net.c\<close> and \<^verbatim>\<open>src/src/tasks.c\<close> use for their work items, \<^verbatim>\<open>net.c\<close> for the output
  buffers of a socket and \<^verbatim>\<open>ntx.c\<close> for the operations of a network transaction. The members
  are kept in a heap of their own, at the addresses of their allocation. \<open>fifo\<close> is what the
  users of such a list rely on.
\<close>

section \<open>State\<close>

record 'a node =
  elem :: 'a
  nxt :: "nat option"

record 'a chain =
  nodes :: "'a node option list"
  front :: "nat option"
  rear :: "nat option"

definition chain_new :: "'a chain" where
  "chain_new = \<lparr>nodes = [], front = None, rear = None\<rparr>"

text \<open>Allocating a member whose \<^verbatim>\<open>next\<close> is \<^verbatim>\<open>NULL\<close>, and storing to the \<^verbatim>\<open>next\<close> of one.\<close>

definition chain_alloc :: "'a \<Rightarrow> 'a chain \<Rightarrow> nat \<times> 'a chain" where
  "chain_alloc x c = (length (nodes c), c\<lparr>nodes := nodes c @ [Some \<lparr>elem = x, nxt = None\<rparr>]\<rparr>)"

definition chain_set_next :: "nat \<Rightarrow> nat option \<Rightarrow> 'a chain \<Rightarrow> 'a chain res" where
  "chain_set_next a p c =
     rbind (heap_get (nodes c) a) (\<lambda>n. Inr (c\<lparr>nodes := heap_put a (n\<lparr>nxt := p\<rparr>) (nodes c)\<rparr>))"

definition chain_free :: "nat \<Rightarrow> 'a chain \<Rightarrow> 'a chain res" where
  "chain_free a c = rbind (heap_get (nodes c) a) (\<lambda>_. Inr (c\<lparr>nodes := heap_free a (nodes c)\<rparr>))"

text \<open>The body of \<^verbatim>\<open>tasks_enqueue_item\<close> and of \<^verbatim>\<open>net_enqueue_item\<close>.\<close>

definition chain_link :: "nat \<Rightarrow> 'a chain \<Rightarrow> 'a chain res" where
  "chain_link a c =
     rbind (case rear c of
              Some b \<Rightarrow> chain_set_next b (Some a) c
            | None \<Rightarrow> Inr (c\<lparr>front := Some a\<rparr>)) (\<lambda>c.
     Inr (c\<lparr>rear := Some a\<rparr>))"

definition chain_add :: "'a \<Rightarrow> 'a chain \<Rightarrow> 'a chain res" where
  "chain_add x c = (let (a, c) = chain_alloc x c in chain_link a c)"

text \<open>Picking off the first member, which stays allocated: \<^verbatim>\<open>tasks_thread_func\<close> and
  \<^verbatim>\<open>queue_event_callback\<close>.\<close>

definition chain_take :: "'a chain \<Rightarrow> ((nat \<times> 'a) option \<times> 'a chain) res" where
  "chain_take c =
     (case front c of
        None \<Rightarrow> Inr (None, c)
      | Some a \<Rightarrow>
          rbind (heap_get (nodes c) a) (\<lambda>n.
          rbind (chain_set_next a None (c\<lparr>front := nxt n\<rparr>)) (\<lambda>c.
            Inr (Some (a, elem n), if front c = None then c\<lparr>rear := None\<rparr> else c))))"

text \<open>Both ends of the work of a consumer: take the first item, free it.\<close>

definition chain_pop :: "'a chain \<Rightarrow> ('a option \<times> 'a chain) res" where
  "chain_pop c =
     rbind (chain_take c) (\<lambda>(r, c).
     case r of None \<Rightarrow> Inr (None, c) | Some (a, x) \<Rightarrow> rbind (chain_free a c) (\<lambda>c. Inr (Some x, c)))"

section \<open>The list that a chain holds\<close>

text \<open>\<open>linked h p as xs q\<close>: from the pointer \<open>p\<close>, over the members at \<open>as\<close>, which hold \<open>xs\<close>, to the
  pointer \<open>q\<close>.\<close>

fun linked :: "'a node option list \<Rightarrow> nat option \<Rightarrow> nat list \<Rightarrow> 'a list \<Rightarrow> nat option \<Rightarrow> bool" where
  "linked h p [] [] q \<longleftrightarrow> p = q"
| "linked h p (a # as) (x # xs) q \<longleftrightarrow>
     p = Some a \<and> (case heap_get h a of Inl _ \<Rightarrow> False | Inr n \<Rightarrow> elem n = x \<and> linked h (nxt n) as xs q)"
| "linked h p _ _ q \<longleftrightarrow> False"

definition last_of :: "'a list \<Rightarrow> 'a option" where
  "last_of xs = (if xs = [] then None else Some (last xs))"

definition chain_at :: "'a chain \<Rightarrow> nat list \<Rightarrow> 'a list \<Rightarrow> bool" where
  "chain_at c as xs \<longleftrightarrow> distinct as \<and> linked (nodes c) (front c) as xs None \<and> rear c = last_of as"

definition holds :: "'a chain \<Rightarrow> 'a list \<Rightarrow> bool" where
  "holds c xs \<longleftrightarrow> (\<exists>as. chain_at c as xs)"

named_theorems chain_simps

lemmas [chain_simps] = chain_new_def chain_alloc_def chain_set_next_def chain_free_def chain_link_def
  chain_add_def chain_take_def chain_pop_def Let_def

lemma linked_Cons [simp]:
  "linked h p (a # as) (x # xs) q \<longleftrightarrow>
     p = Some a \<and> (\<exists>n. heap_get h a = Inr n \<and> elem n = x \<and> linked h (nxt n) as xs q)"
  by (auto split: sum.splits)

declare linked.simps(2) [simp del]

lemma linked_lengths: "linked h p as xs q \<Longrightarrow> length as = length xs"
  by (induction as arbitrary: p xs) (case_tac [!] xs, auto)

lemma linked_alloc: "linked h p as xs q \<Longrightarrow> a \<in> set as \<Longrightarrow> a < length h \<and> h ! a \<noteq> None"
  by (induction as arbitrary: p xs) (case_tac [!] xs, auto simp: res_simps)

lemma linked_other:
  assumes "\<And>a. a \<in> set as \<Longrightarrow> heap_get h' a = heap_get h a"
  shows "linked h' p as xs q = linked h p as xs q"
  using assms by (induction as arbitrary: p xs) (case_tac [!] xs, auto)

lemma linked_put [simp]: "b \<notin> set as \<Longrightarrow> linked (heap_put b n h) p as xs q = linked h p as xs q"
  by (rule linked_other) (metis heap_get_put_other)

lemma linked_free [simp]: "b \<notin> set as \<Longrightarrow> linked (heap_free b h) p as xs q = linked h p as xs q"
  by (rule linked_other) (metis heap_get_free_other)

lemma linked_snoc:
  "linked h p (as @ [a]) ys q \<longleftrightarrow>
     (\<exists>xs x. ys = xs @ [x] \<and> linked h p as xs (Some a) \<and>
        (\<exists>n. heap_get h a = Inr n \<and> elem n = x \<and> nxt n = q))"
proof (induction as arbitrary: p ys)
  case Nil
  have "linked h p [] xs (Some a) \<longleftrightarrow> xs = [] \<and> p = Some a" for xs :: "'a list" by (cases xs) auto
  moreover have "linked h p' [] xs q \<longleftrightarrow> xs = [] \<and> p' = q" for p' and xs :: "'a list" by (cases xs) auto
  ultimately show ?case by (cases ys) auto
next
  case (Cons b as)
  show ?case
    by (cases ys) (auto simp: Cons.IH Cons_eq_append_conv)
qed

lemma last_of_simps [simp]: "last_of [] = None" "last_of (xs @ [x]) = Some x"
  by (simp_all add: last_of_def)

lemma last_of_eq_None [simp]: "last_of xs = None \<longleftrightarrow> xs = []"
  by (simp add: last_of_def)

lemma holds_new: "holds chain_new []"
  unfolding holds_def by (rule exI [of _ "[]"]) (simp add: chain_at_def chain_new_def)

lemma linked_append_heap: "linked h p as xs q \<Longrightarrow> linked (h @ k) p as xs q"
  using linked_alloc [of h p as xs q] by (subst linked_other) auto

lemma chain_link_at:
  assumes "chain_at c as xs" "a \<notin> set as" "heap_get (nodes c) a = Inr \<lparr>elem = x, nxt = None\<rparr>"
  shows "\<exists>c'. chain_link a c = Inr c' \<and> chain_at c' (as @ [a]) (xs @ [x])"
proof (cases as rule: rev_cases)
  case Nil
  then have "xs = []" "rear c = None" using assms(1) linked_lengths by (fastforce simp: chain_at_def)+
  then show ?thesis using assms Nil by (auto simp: chain_at_def chain_simps last_of_def)
next
  case (snoc bs b)
  obtain ys y n where l: "xs = ys @ [y]" "linked (nodes c) (front c) bs ys (Some b)" "heap_get (nodes c) b = Inr n" "elem n = y" "nxt n = None"
    using assms(1) by (auto simp: chain_at_def snoc linked_snoc)
  have d: "b \<notin> set bs" "a \<noteq> b" "rear c = Some b" using assms(1,2) by (auto simp: chain_at_def snoc)
  have b: "b < length (nodes c)" using l(3) by (simp add: res_simps)
  let ?h = "heap_put b (n\<lparr>nxt := Some a\<rparr>) (nodes c)"
  have "linked ?h (front c) bs ys (Some b)" using l(2) d by simp
  moreover have "heap_get ?h b = Inr (n\<lparr>nxt := Some a\<rparr>)" "heap_get ?h a = Inr \<lparr>elem = x, nxt = None\<rparr>"
    using assms(3) b d by simp_all
  ultimately have "linked ?h (front c) ((bs @ [b]) @ [a]) ((ys @ [y]) @ [x]) None"
    using l(4) unfolding linked_snoc by auto
  then show ?thesis using assms(1,2) d l(1,3) snoc by (simp add: chain_at_def chain_simps last_of_def)
qed

lemma chain_add_holds:
  assumes "holds c xs"
  shows "\<exists>c'. chain_add x c = Inr c' \<and> holds c' (xs @ [x])"
proof -
  obtain as where c: "chain_at c as xs" using assms by (auto simp: holds_def)
  let ?c = "c\<lparr>nodes := nodes c @ [Some \<lparr>elem = x, nxt = None\<rparr>]\<rparr>"
  have "chain_at ?c as xs" using c linked_append_heap by (auto simp: chain_at_def)
  moreover have "length (nodes c) \<notin> set as" using c linked_alloc by (fastforce simp: chain_at_def)
  ultimately obtain c' where "chain_link (length (nodes c)) ?c = Inr c'" "chain_at c' (as @ [length (nodes c)]) (xs @ [x])"
    using chain_link_at [of ?c as xs "length (nodes c)" x] by auto
  then show ?thesis by (auto simp: chain_add_def chain_alloc_def holds_def)
qed

lemma chain_take_at:
  assumes "chain_at c (a # as) (x # xs)"
  shows "\<exists>c'. chain_take c = Inr (Some (a, x), c') \<and> chain_at c' as xs \<and> heap_get (nodes c') a = Inr \<lparr>elem = x, nxt = None\<rparr> \<and> a \<notin> set as"
proof -
  obtain n where n: "front c = Some a" "heap_get (nodes c) a = Inr n" "elem n = x" "linked (nodes c) (nxt n) as xs None"
    and d: "a \<notin> set as" "distinct as" "rear c = Some (last (a # as))"
    using assms by (auto simp: chain_at_def last_of_def)
  have a: "a < length (nodes c)" using n(2) by (simp add: res_simps)
  let ?h = "heap_put a (n\<lparr>nxt := None\<rparr>) (nodes c)"
  have l: "linked ?h (nxt n) as xs None" using n(4) d(1) by simp
  have e: "nxt n = None \<longleftrightarrow> as = []" using n(4) by (cases as; cases xs) auto
  have "n\<lparr>nxt := None\<rparr> = \<lparr>elem = x, nxt = None\<rparr>" using n(3) by (cases n) simp
  then show ?thesis using n l e d a by (auto simp: chain_simps chain_at_def last_of_def)
qed

lemma chain_free_at:
  assumes "chain_at c as xs" "a \<notin> set as" "heap_get (nodes c) a = Inr n"
  shows "\<exists>c'. chain_free a c = Inr c' \<and> chain_at c' as xs"
  using assms by (simp add: chain_at_def chain_free_def)

lemma chain_pop_holds:
  assumes "holds c xs"
  shows "\<exists>c'. chain_pop c = Inr (case xs of [] \<Rightarrow> None | x # _ \<Rightarrow> Some x, c') \<and> holds c' (tl xs)"
proof (cases xs)
  case Nil
  then obtain as where "chain_at c as []" using assms by (auto simp: holds_def)
  then have "front c = None" using linked_lengths by (fastforce simp: chain_at_def)
  then show ?thesis using assms Nil by (simp add: chain_simps)
next
  case (Cons x ys)
  then obtain as where c: "chain_at c as (x # ys)" using assms by (auto simp: holds_def)
  then obtain a bs where as: "as = a # bs" by (cases as) (auto simp: chain_at_def)
  obtain c1 where t: "chain_take c = Inr (Some (a, x), c1)" "chain_at c1 bs ys" "heap_get (nodes c1) a = Inr \<lparr>elem = x, nxt = None\<rparr>" "a \<notin> set bs"
    using chain_take_at [of c a bs x ys] c as by auto
  obtain c2 where "chain_free a c1 = Inr c2" "chain_at c2 bs ys" using chain_free_at [OF t(2,4,3)] by blast
  then show ?thesis using t Cons by (auto simp: chain_pop_def holds_def)
qed

text \<open>The number of members in memory: taking keeps it, freeing lowers it.\<close>

fun allocated :: "'a option list \<Rightarrow> nat" where
  "allocated [] = 0"
| "allocated (x # h) = of_bool (x \<noteq> None) + allocated h"

lemma allocated_put: "a < length h \<Longrightarrow> h ! a = Some y \<Longrightarrow> allocated (heap_put a x h) = allocated h"
  unfolding heap_put_def by (induction h arbitrary: a) (auto simp: nth_Cons split: nat.splits)

lemma allocated_free: "a < length h \<Longrightarrow> h ! a = Some y \<Longrightarrow> allocated (heap_free a h) < allocated h"
  unfolding heap_free_def by (induction h arbitrary: a) (auto simp: nth_Cons split: nat.splits)

lemma chain_take_allocated: "chain_take c = Inr (r, c') \<Longrightarrow> allocated (nodes c') = allocated (nodes c)"
  by (auto simp: chain_take_def chain_set_next_def res_simps allocated_put split: option.splits)

lemma chain_free_allocated: "chain_free a c = Inr c' \<Longrightarrow> allocated (nodes c') < allocated (nodes c)"
  by (auto simp: chain_free_def res_simps allocated_free)

section \<open>The contract of a queue\<close>

datatype 'a queue_op = Enq 'a | Deq

text \<open>\<open>rep s xs\<close>: the state \<open>s\<close> holds the items \<open>xs\<close>, oldest first.\<close>

locale fifo =
  fixes rep :: "'s \<Rightarrow> 'a list \<Rightarrow> bool"
    and enq :: "'a \<Rightarrow> 's \<Rightarrow> 's res"
    and deq :: "'s \<Rightarrow> ('a option \<times> 's) res"
  assumes enq_rep: "rep s xs \<Longrightarrow> \<exists>s'. enq x s = Inr s' \<and> rep s' (xs @ [x])"
    and deq_rep: "rep s xs \<Longrightarrow> \<exists>s'. deq s = Inr (case xs of [] \<Rightarrow> None | x # _ \<Rightarrow> Some x, s') \<and> rep s' (tl xs)"
begin

text \<open>A sequence of operations of any producers and consumers, with the items handed out.\<close>

fun run :: "'a queue_op list \<Rightarrow> 's \<Rightarrow> ('a list \<times> 's) res" where
  "run [] s = Inr ([], s)"
| "run (Enq x # ops) s = rbind (enq x s) (run ops)"
| "run (Deq # ops) s = rbind (deq s) (\<lambda>(r, s).
     rbind (run ops s) (\<lambda>(ys, s). Inr ((case r of None \<Rightarrow> ys | Some y \<Rightarrow> y # ys), s)))"

fun added :: "'a queue_op list \<Rightarrow> 'a list" where
  "added [] = []"
| "added (Enq x # ops) = x # added ops"
| "added (Deq # ops) = added ops"

text \<open>No item is lost, doubled or overtaken, whatever the interleaving.\<close>

lemma run_fifo:
  "rep s xs \<Longrightarrow> \<exists>ys s' zs. run ops s = Inr (ys, s') \<and> rep s' zs \<and> ys @ zs = xs @ added ops"
proof (induction ops arbitrary: s xs)
  case (Cons op ops)
  show ?case
  proof (cases op)
    case (Enq x)
    obtain s1 where s1: "enq x s = Inr s1" "rep s1 (xs @ [x])" using enq_rep [OF Cons.prems] by blast
    from Cons.IH [OF s1(2)] show ?thesis using s1(1) Enq by auto
  next
    case Deq
    obtain s1 where s1: "deq s = Inr (case xs of [] \<Rightarrow> None | x # _ \<Rightarrow> Some x, s1)" "rep s1 (tl xs)" using deq_rep [OF Cons.prems] by blast
    from Cons.IH [OF s1(2)] obtain ys s' zs where "run ops s1 = Inr (ys, s')" "rep s' zs" "ys @ zs = tl xs @ added ops" by blast
    then show ?thesis using s1(1) Deq by (cases xs) auto
  qed
qed auto

lemma deq_all: "rep s xs \<Longrightarrow> \<exists>s'. run (replicate (length xs) Deq) s = Inr (xs, s') \<and> rep s' []"
proof (induction xs arbitrary: s)
  case (Cons x xs)
  obtain s1 where s1: "deq s = Inr (Some x, s1)" "rep s1 xs" using deq_rep [OF Cons.prems] by auto
  from Cons.IH [OF s1(2)] show ?case using s1(1) by auto
qed auto

end

interpretation chain_fifo: fifo holds chain_add chain_pop
  by unfold_locales (rule chain_add_holds chain_pop_holds; assumption)+

end
