(* ===== verification/Cmoo_Net.thy ===== *)
theory Cmoo_Net
  imports Cmoo_Queue
begin

text \<open>
  The network subsystem of \<^verbatim>\<open>src/src/net.c\<close>. \<open>net_ctx\<close> holds the queue of requests to the network
  thread, the listeners, the open sockets and \<open>io\<close>, the sequence of everything the module has done
  to its surroundings so far: the calls of libev and of the operating system, and the callbacks.
  What the operating system answers is an argument of the handlers. Function pointers are
  elements of a type \<open>'f\<close>, data pointers of the callers are words. A buffer is the sequence of its
  bytes, of which the source keeps the address and the number. The latches are not modelled: what
  happens under one is one step.
\<close>

section \<open>State\<close>

datatype 'f request =
    STOP
  | NEW_LISTENER "32 word" "'f option" "'f option" addr addr
  | STOP_LISTENER "32 word"
  | FREE_SOCKET addr
  | INIT_SOCKET addr "'f option" "'f option" addr addr
  | WRITE_SOCKET addr "byte list"

datatype 'f io =
    Async_send
  | Unloop
  | Start_accept int nat
  | Start_read addr
  | Stop_read addr
  | Start_write addr
  | Stop_write addr
  | Set_nonblock int
  | Os_shutdown int
  | Os_close int
  | Written int "byte list"
  | On_error 'f "32 word" addr addr
  | On_accept 'f addr addr addr
  | On_read 'f addr "byte list" addr addr
  | On_closed 'f addr addr addr

record sbuf =
  sb_data :: "byte list"
  sb_level :: nat

text \<open>\<open>watch_fd\<close> is the descriptor in the two libev watchers of a socket.\<close>

record 'f net_socket =
  sk_fd :: int
  refcount :: int
  read_callback :: "'f option"
  closed_callback :: "'f option"
  sk_data1 :: addr
  sk_data2 :: addr
  watch_fd :: int
  buffers :: "sbuf chain"
  task_data :: "addr option"

record 'f listener =
  l_port :: "32 word"
  l_fd :: int
  accept_callback :: "'f option"
  l_data1 :: addr
  l_data2 :: addr

record 'f net_ctx =
  n_queue :: "'f request chain"
  stop_flag :: bool
  lctxs :: "'f listener option list"
  listeners :: "nat list"
  socks :: "addr \<Rightarrow> 'f net_socket option"
  open_sockets :: "addr list"
  io :: "'f io list"

definition net_new_ctx :: "'f net_ctx" where
  "net_new_ctx =
     \<lparr>n_queue = chain_new, stop_flag = False, lctxs = [], listeners = [], socks = Map.empty,
      open_sockets = [], io = []\<rparr>"

definition does :: "'f io list \<Rightarrow> 'f net_ctx \<Rightarrow> 'f net_ctx" where
  "does es n = n\<lparr>io := io n @ es\<rparr>"

definition sock_get :: "addr \<Rightarrow> 'f net_ctx \<Rightarrow> 'f net_socket res" where
  "sock_get s n = (case socks n s of None \<Rightarrow> Inl Use_after_free | Some k \<Rightarrow> Inr k)"

definition sock_put :: "addr \<Rightarrow> 'f net_socket \<Rightarrow> 'f net_ctx \<Rightarrow> 'f net_ctx" where
  "sock_put s k n = n\<lparr>socks := (socks n)(s \<mapsto> k)\<rparr>"

section \<open>Requests\<close>

definition net_enqueue_item :: "'f request \<Rightarrow> 'f net_ctx \<Rightarrow> 'f net_ctx res" where
  "net_enqueue_item r n =
     rbind (chain_add r (n_queue n)) (\<lambda>q. Inr (does [Async_send] (n\<lparr>n_queue := q\<rparr>)))"

definition net_start :: "'f net_ctx \<Rightarrow> 'f net_ctx" where
  "net_start n = n\<lparr>stop_flag := False\<rparr>"

definition net_stop :: "'f net_ctx \<Rightarrow> 'f net_ctx res" where
  "net_stop n = net_enqueue_item STOP n"

definition net_make_listener ::
  "32 word \<Rightarrow> 'f option \<Rightarrow> 'f option \<Rightarrow> addr \<Rightarrow> addr \<Rightarrow> 'f net_ctx \<Rightarrow> 'f net_ctx res" where
  "net_make_listener port err acc d1 d2 n = net_enqueue_item (NEW_LISTENER port err acc d1 d2) n"

definition net_shutdown_listener :: "32 word \<Rightarrow> 'f net_ctx \<Rightarrow> 'f net_ctx res" where
  "net_shutdown_listener port n = net_enqueue_item (STOP_LISTENER port) n"

definition net_socket_init ::
  "addr \<Rightarrow> 'f option \<Rightarrow> 'f option \<Rightarrow> addr \<Rightarrow> addr \<Rightarrow> 'f net_ctx \<Rightarrow> 'f net_ctx res" where
  "net_socket_init s rd cl d1 d2 n =
     rbind (sock_get s n) (\<lambda>_. net_enqueue_item (INIT_SOCKET s rd cl d1 d2) n)"

definition net_socket_write :: "addr \<Rightarrow> byte list \<Rightarrow> 'f net_ctx \<Rightarrow> 'f net_ctx res" where
  "net_socket_write s buf n = rbind (sock_get s n) (\<lambda>_. net_enqueue_item (WRITE_SOCKET s buf) n)"

definition net_socket_dec_refcount :: "addr \<Rightarrow> 'f net_ctx \<Rightarrow> 'f net_ctx res" where
  "net_socket_dec_refcount s n =
     rbind (sock_get s n) (\<lambda>k.
       if refcount k = - (2 ^ 31) then Inl Signed_overflow
       else
         let n = sock_put s (k\<lparr>refcount := refcount k - 1\<rparr>) n in
         if refcount k - 1 = 0 then net_enqueue_item (FREE_SOCKET s) n else Inr n)"

definition net_socket_free :: "addr \<Rightarrow> 'f net_ctx \<Rightarrow> 'f net_ctx res" where
  "net_socket_free s n = net_socket_dec_refcount s n"

text \<open>What \<^verbatim>\<open>net_socket_close\<close>, \<^verbatim>\<open>net_read_cb\<close> and \<^verbatim>\<open>net_free_ctx\<close> do to the watchers.\<close>

definition stop_events :: "addr \<Rightarrow> 'f net_socket \<Rightarrow> 'f io list" where
  "stop_events s k = Stop_read s # (if front (buffers k) \<noteq> None then [Stop_write s] else [])"

definition net_socket_close :: "addr \<Rightarrow> 'f net_ctx \<Rightarrow> 'f net_ctx res" where
  "net_socket_close s n =
     rbind (sock_get s n) (\<lambda>k.
       Inr (sock_put s (k\<lparr>sk_fd := 0\<rparr>)
         (does ([Os_shutdown (sk_fd k), Os_close (sk_fd k)] @ stop_events s k) n)))"

definition net_socket_set_taskdata :: "addr \<Rightarrow> addr \<Rightarrow> 'f net_ctx \<Rightarrow> 'f net_ctx res" where
  "net_socket_set_taskdata s td n =
     rbind (sock_get s n) (\<lambda>k. Inr (sock_put s (k\<lparr>task_data := Some td\<rparr>) n))"

definition net_socket_get_taskdata :: "addr \<Rightarrow> 'f net_ctx \<Rightarrow> addr res" where
  "net_socket_get_taskdata s n =
     rbind (sock_get s n) (\<lambda>k. case task_data k of None \<Rightarrow> Inl Uninit_read | Some td \<Rightarrow> Inr td)"

section \<open>Output buffers\<close>

text \<open>Appending to the buffers of a socket, as the handler of \<open>WRITE_SOCKET\<close> does; the flag says that
  the list had no first member.\<close>

definition buf_add :: "byte list \<Rightarrow> sbuf chain \<Rightarrow> (bool \<times> sbuf chain) res" where
  "buf_add d c =
     (let (a, c) = chain_alloc \<lparr>sb_data = d, sb_level = 0\<rparr> c in
      rbind (case rear c of Some b \<Rightarrow> chain_set_next b (Some a) c | None \<Rightarrow> Inr c) (\<lambda>c.
      let c = c\<lparr>rear := Some a\<rparr> in
      if front c = None then Inr (True, c\<lparr>front := Some a\<rparr>) else Inr (False, c)))"

definition buf_put :: "nat \<Rightarrow> sbuf \<Rightarrow> sbuf chain \<Rightarrow> sbuf chain res" where
  "buf_put a b c = rbind (heap_get (nodes c) a) (\<lambda>x. Inr (c\<lparr>nodes := heap_put a (x\<lparr>elem := b\<rparr>) (nodes c)\<rparr>))"

text \<open>Unlinking and freeing the first buffer; the flag says that it was the last one.\<close>

definition buf_drop :: "sbuf chain \<Rightarrow> (bool \<times> sbuf chain) res" where
  "buf_drop c =
     (case front c of
        None \<Rightarrow> Inl Null_deref
      | Some a \<Rightarrow>
          rbind (heap_get (nodes c) a) (\<lambda>x.
          let c = c\<lparr>front := nxt x\<rparr>;
              c = (if nxt x = None then c\<lparr>rear := None\<rparr> else c) in
          rbind (chain_free a c) (\<lambda>c. Inr (nxt x = None, c))))"

text \<open>\<^verbatim>\<open>net_write_cb\<close>: \<open>r\<close> is the result of \<^verbatim>\<open>write\<close>, \<open>None\<close> for an error.\<close>

definition net_write_cb :: "addr \<Rightarrow> nat option \<Rightarrow> 'f net_ctx \<Rightarrow> 'f net_ctx res" where
  "net_write_cb s r n =
     rbind (sock_get s n) (\<lambda>k.
     case front (buffers k) of
       None \<Rightarrow> Inl Null_deref
     | Some a \<Rightarrow>
         rbind (heap_get (nodes (buffers k)) a) (\<lambda>x.
         case r of
           None \<Rightarrow> Inr (does [Stop_write s] n)
         | Some cnt \<Rightarrow>
             let b = elem x; level = sb_level b + cnt;
                 n = does [Written (watch_fd k) (take cnt (drop (sb_level b) (sb_data b)))] n in
             rbind (buf_put a (b\<lparr>sb_level := level\<rparr>) (buffers k)) (\<lambda>c.
             if level = length (sb_data b) then
               rbind (buf_drop c) (\<lambda>(empty, c).
                 Inr (sock_put s (k\<lparr>buffers := c\<rparr>) (if empty then does [Stop_write s] n else n)))
             else Inr (sock_put s (k\<lparr>buffers := c\<rparr>) n))))"

section \<open>Reading and accepting\<close>

text \<open>\<^verbatim>\<open>net_read_cb\<close>: \<open>r\<close> is what \<^verbatim>\<open>read\<close> delivers, \<open>None\<close> for an error, \<open>[]\<close> at the end.\<close>

definition net_read_cb :: "addr \<Rightarrow> byte list option \<Rightarrow> 'f net_ctx \<Rightarrow> 'f net_ctx res" where
  "net_read_cb s r n =
     rbind (sock_get s n) (\<lambda>k.
       if r = None \<or> r = Some [] then
         net_socket_dec_refcount s
           (does (case closed_callback k of None \<Rightarrow> [] | Some f \<Rightarrow> [On_closed f s (sk_data1 k) (sk_data2 k)])
             (sock_put s (k\<lparr>sk_fd := 0\<rparr>) (does (Os_close (sk_fd k) # stop_events s k) n)))
       else Inr (case read_callback k of
           None \<Rightarrow> n
         | Some f \<Rightarrow> does [On_read f s (the r) (sk_data1 k) (sk_data2 k)] n))"

text \<open>\<^verbatim>\<open>net_accept_cb\<close> for the listener \<open>l\<close>: \<open>fd\<close> is the result of \<^verbatim>\<open>accept\<close>, which is not looked
  at, and \<open>s\<close> the address of the new socket.\<close>

definition net_accept_cb :: "nat \<Rightarrow> int \<Rightarrow> addr \<Rightarrow> 'f net_ctx \<Rightarrow> 'f net_ctx res" where
  "net_accept_cb l fd s n =
     rbind (heap_get (lctxs n) l) (\<lambda>lc.
     let k = \<lparr>sk_fd = fd, refcount = 2, read_callback = None, closed_callback = None, sk_data1 = 0, sk_data2 = 0,
              watch_fd = fd, buffers = chain_new, task_data = None\<rparr>;
         n = sock_put s k (does [Set_nonblock fd] n);
         n = n\<lparr>open_sockets := s # open_sockets n\<rparr> in
     case accept_callback lc of
       None \<Rightarrow> Inl Null_deref
     | Some f \<Rightarrow> Inr (does [On_accept f s (l_data1 lc) (l_data2 lc)] n))"

section \<open>The work of the network thread\<close>

text \<open>What the operating system answers when a listener is set up.\<close>

record os_listen =
  r_socket :: int
  r_setsockopt :: int
  r_bind :: int
  r_listen :: int
  r_errno :: "32 word"

definition make_listener ::
  "os_listen \<Rightarrow> 32 word \<Rightarrow> 'f option \<Rightarrow> 'f option \<Rightarrow> addr \<Rightarrow> addr \<Rightarrow> 'f net_ctx \<Rightarrow> 'f net_ctx" where
  "make_listener os port err acc d1 d2 n =
     (let failed = does (case err of None \<Rightarrow> [] | Some f \<Rightarrow> [On_error f (r_errno os) d1 d2]) n;
          l = length (lctxs n) in
      if r_socket os = - 1 then failed
      else if r_setsockopt os = - 1 then n
      else if r_bind os = - 1 then failed
      else if r_listen os = - 1 then failed
      else does [Start_accept (r_socket os) l]
        (n\<lparr>lctxs := lctxs n @ [Some \<lparr>l_port = port, l_fd = r_socket os, accept_callback = acc, l_data1 = d1, l_data2 = d2\<rparr>],
           listeners := l # listeners n\<rparr>))"

text \<open>The search for the first listener of a port, with what is left of the list.\<close>

fun unlink_listener :: "'f listener option list \<Rightarrow> 32 word \<Rightarrow> nat list \<Rightarrow> (nat option \<times> nat list) res" where
  "unlink_listener h port [] = Inr (None, [])"
| "unlink_listener h port (l # ls) =
     rbind (heap_get h l) (\<lambda>lc.
       if l_port lc = port then Inr (Some l, ls)
       else rbind (unlink_listener h port ls) (\<lambda>(r, ls). Inr (r, l # ls)))"

definition stop_listener :: "32 word \<Rightarrow> 'f net_ctx \<Rightarrow> 'f net_ctx res" where
  "stop_listener port n =
     rbind (unlink_listener (lctxs n) port (listeners n)) (\<lambda>(r, ls).
       Inr (case r of
           None \<Rightarrow> n
         | Some l \<Rightarrow> n\<lparr>listeners := ls, lctxs := heap_free l (lctxs n)\<rparr>))"

text \<open>The loop of \<^verbatim>\<open>net_free_socket\<close> over the buffers.\<close>

fun free_buffers :: "nat \<Rightarrow> nat option \<Rightarrow> sbuf chain \<Rightarrow> sbuf chain res" where
  "free_buffers n None c = Inr c"
| "free_buffers 0 (Some a) c = Inl Use_after_free"
| "free_buffers (Suc n) (Some a) c =
     rbind (heap_get (nodes c) a) (\<lambda>x.
     rbind (chain_free a (c\<lparr>front := nxt x\<rparr>)) (free_buffers n (nxt x)))"

definition net_free_socket :: "addr \<Rightarrow> 'f net_ctx \<Rightarrow> 'f net_ctx res" where
  "net_free_socket s n =
     rbind (sock_get s n) (\<lambda>k.
     rbind (free_buffers (length (nodes (buffers k))) (front (buffers k)) (buffers k)) (\<lambda>_.
       Inr (n\<lparr>socks := (socks n)(s := None)\<rparr>)))"

definition handle_request :: "os_listen \<Rightarrow> 'f request \<Rightarrow> 'f net_ctx \<Rightarrow> 'f net_ctx res" where
  "handle_request os r n =
     (case r of
        STOP \<Rightarrow> Inr (does [Unloop] (n\<lparr>stop_flag := True\<rparr>))
      | NEW_LISTENER port err acc d1 d2 \<Rightarrow> Inr (make_listener os port err acc d1 d2 n)
      | STOP_LISTENER port \<Rightarrow> stop_listener port n
      | FREE_SOCKET s \<Rightarrow>
          if s \<in> set (open_sockets n)
          then net_free_socket s (n\<lparr>open_sockets := remove1 s (open_sockets n)\<rparr>)
          else Inr n
      | INIT_SOCKET s rd cl d1 d2 \<Rightarrow>
          rbind (sock_get s n) (\<lambda>k.
            Inr (does [Start_read s]
              (sock_put s (k\<lparr>read_callback := rd, closed_callback := cl, sk_data1 := d1, sk_data2 := d2\<rparr>) n)))
      | WRITE_SOCKET s buf \<Rightarrow>
          rbind (sock_get s n) (\<lambda>k.
          rbind (buf_add buf (buffers k)) (\<lambda>(first, c).
            Inr (does (if first then [Start_write s] else []) (sock_put s (k\<lparr>buffers := c\<rparr>) n)))))"

text \<open>\<^verbatim>\<open>queue_event_callback\<close>: the requests are handled in turn until the queue is empty; \<open>os\<close> answers
  for the operating system, in the state and for the port it is asked about. Each turn frees a
  member of the queue, and no handler adds one.\<close>

lemma does_simps [simp]: "n_queue (does es n) = n_queue n" "n_queue (sock_put s k n) = n_queue n"
    "io (does es n) = io n @ es" "socks (does es n) = socks n" "io (sock_put s k n) = io n"
    "socks (sock_put s k n) = (socks n)(s \<mapsto> k)" "open_sockets (does es n) = open_sockets n"
    "listeners (does es n) = listeners n" "lctxs (does es n) = lctxs n" "stop_flag (does es n) = stop_flag n"
    "open_sockets (sock_put s k n) = open_sockets n" "listeners (sock_put s k n) = listeners n"
    "lctxs (sock_put s k n) = lctxs n" "stop_flag (sock_put s k n) = stop_flag n"
  by (simp_all add: does_def sock_put_def)

lemma handle_request_queue: "handle_request os r n = Inr n' \<Longrightarrow> n_queue n' = n_queue n"
  by (cases r) (auto simp: handle_request_def make_listener_def stop_listener_def net_free_socket_def Let_def res_simps
      split: if_splits option.splits)

function queue_loop :: "('f net_ctx \<Rightarrow> 32 word \<Rightarrow> os_listen) \<Rightarrow> 'f net_ctx \<Rightarrow> 'f net_ctx res" where
  "queue_loop os n =
     rbind (chain_take (n_queue n)) (\<lambda>(r, q).
     case r of
       None \<Rightarrow> Inr n
     | Some (a, rq) \<Rightarrow>
         let n = n\<lparr>n_queue := q\<rparr>;
             answer = (case rq of NEW_LISTENER port _ _ _ _ \<Rightarrow> os n port | _ \<Rightarrow> os n 0) in
         rbind (handle_request answer rq n) (\<lambda>n.
         rbind (chain_free a (n_queue n)) (\<lambda>q. queue_loop os (n\<lparr>n_queue := q\<rparr>))))"
  by pat_completeness auto
termination
  by (relation "measure (\<lambda>(os, n). allocated (nodes (n_queue n)))")
    (auto dest!: handle_request_queue chain_take_allocated chain_free_allocated)

declare queue_loop.simps [simp del]

definition queue_event_callback :: "('f net_ctx \<Rightarrow> 32 word \<Rightarrow> os_listen) \<Rightarrow> 'f net_ctx \<Rightarrow> 'f net_ctx res" where
  "queue_event_callback os n = queue_loop os n"

section \<open>Taking the subsystem down\<close>

fun close_sockets :: "addr list \<Rightarrow> 'f net_ctx \<Rightarrow> 'f net_ctx res" where
  "close_sockets [] n = Inr n"
| "close_sockets (s # ss) n =
     rbind (sock_get s n) (\<lambda>k.
     rbind (if sk_fd k \<noteq> 0 then net_socket_close s n else Inr n) (\<lambda>n.
     rbind (net_free_socket s n) (close_sockets ss)))"

fun free_listeners :: "nat list \<Rightarrow> 'f listener option list \<Rightarrow> 'f listener option list res" where
  "free_listeners [] h = Inr h"
| "free_listeners (l # ls) h = rbind (heap_get h l) (\<lambda>_. free_listeners ls (heap_free l h))"

definition net_free_ctx :: "'f net_ctx \<Rightarrow> 'f net_ctx res" where
  "net_free_ctx n =
     rbind (close_sockets (open_sockets n) n) (\<lambda>n.
     rbind (free_listeners (listeners n) (lctxs n)) (\<lambda>h. Inr (n\<lparr>lctxs := h\<rparr>)))"

end
