(* ===== verification/Cmoo_Ntx.thy ===== *)
theory Cmoo_Ntx
  imports Cmoo_Net
begin

text \<open>
  The batches of network operations of \<^verbatim>\<open>src/src/ntx.c\<close>. A transaction is a list of operations with
  pointers to the first and the last one; \<open>ntx_commit_tx\<close> passes them on to the network, while
  \<open>ntx_rollback_tx\<close> discards them.
\<close>

section \<open>State and operations\<close>

datatype ntx_op = SOCKET_CLOSE addr | SOCKET_WRITE addr "byte list"

type_synonym ntx_tx = "ntx_op chain"

text \<open>\<^verbatim>\<open>ntx_new_tx\<close> allocates the size of the global context, 8 bytes, for the 24 bytes of a transaction.
  \<open>usable n\<close> is how many bytes an allocation of \<open>n\<close> bytes really has.\<close>

definition ntx_new_tx :: "(nat \<Rightarrow> nat) \<Rightarrow> ntx_tx res" where
  "ntx_new_tx usable = (if usable 8 < 24 then Inl Heap_corruption else Inr chain_new)"

definition ntx_add_op :: "ntx_op \<Rightarrow> ntx_tx \<Rightarrow> ntx_tx res" where
  "ntx_add_op x t =
     (let (a, t) = chain_alloc x t in
      case rear t of
        Some b \<Rightarrow> chain_set_next b (Some a) t
      | None \<Rightarrow> Inr (t\<lparr>front := Some a, rear := Some a\<rparr>))"

definition ntx_socket_close :: "addr \<Rightarrow> ntx_tx \<Rightarrow> ntx_tx res" where
  "ntx_socket_close s t = ntx_add_op (SOCKET_CLOSE s) t"

definition ntx_socket_write :: "addr \<Rightarrow> byte list \<Rightarrow> ntx_tx \<Rightarrow> ntx_tx res" where
  "ntx_socket_write s buf t = ntx_add_op (SOCKET_WRITE s buf) t"

definition perform_op :: "ntx_op \<Rightarrow> 'f net_ctx \<Rightarrow> 'f net_ctx res" where
  "perform_op x n =
     (case x of SOCKET_WRITE s buf \<Rightarrow> net_socket_write s buf n | SOCKET_CLOSE s \<Rightarrow> net_socket_close s n)"

text \<open>The loops go along the list and free its members; each turn frees another one.\<close>

fun commit_loop :: "nat \<Rightarrow> nat option \<Rightarrow> ntx_tx \<times> 'f net_ctx \<Rightarrow> (ntx_tx \<times> 'f net_ctx) res" where
  "commit_loop k None (t, n) = Inr (t, n)"
| "commit_loop 0 (Some a) (t, n) = Inl Use_after_free"
| "commit_loop (Suc k) (Some a) (t, n) =
     rbind (heap_get (nodes t) a) (\<lambda>x.
     rbind (perform_op (elem x) n) (\<lambda>n.
     rbind (chain_free a t) (\<lambda>t. commit_loop k (nxt x) (t, n))))"

definition ntx_commit_tx :: "ntx_tx \<Rightarrow> 'f net_ctx \<Rightarrow> (ntx_tx \<times> 'f net_ctx) res" where
  "ntx_commit_tx t n =
     rbind (commit_loop (length (nodes t)) (front t) (t, n)) (\<lambda>(t, n).
       Inr (t\<lparr>front := None, rear := None\<rparr>, n))"

fun rollback_loop :: "nat \<Rightarrow> nat option \<Rightarrow> ntx_tx \<Rightarrow> ntx_tx res" where
  "rollback_loop k None t = Inr t"
| "rollback_loop 0 (Some a) t = Inl Use_after_free"
| "rollback_loop (Suc k) (Some a) t =
     rbind (heap_get (nodes t) a) (\<lambda>x. rbind (chain_free a t) (rollback_loop k (nxt x)))"

definition ntx_rollback_tx :: "ntx_tx \<Rightarrow> ntx_tx res" where
  "ntx_rollback_tx t =
     rbind (rollback_loop (length (nodes t)) (front t) t) (\<lambda>t. Inr (t\<lparr>front := None, rear := None\<rparr>))"

section \<open>What a batch keeps\<close>

fun add_ops :: "ntx_op list \<Rightarrow> ntx_tx \<Rightarrow> ntx_tx res" where
  "add_ops [] t = Inr t"
| "add_ops (x # xs) t = rbind (ntx_add_op x t) (add_ops xs)"

fun perform :: "ntx_op list \<Rightarrow> 'f net_ctx \<Rightarrow> 'f net_ctx res" where
  "perform [] n = Inr n"
| "perform (x # xs) n = rbind (perform_op x n) (perform xs)"

definition kept_ops :: "ntx_op list \<Rightarrow> ntx_op list" where
  "kept_ops xs = (case xs of [] \<Rightarrow> [] | [x] \<Rightarrow> [x] | x # y # ys \<Rightarrow> [x, last (y # ys)])"

lemma kept_ops_snoc: "kept_ops (xs @ [y]) = (case xs of [] \<Rightarrow> [y] | x # _ \<Rightarrow> [x, y])"
  by (cases xs; cases "tl xs") (auto simp: kept_ops_def)

text \<open>The list that can be reached: \<^verbatim>\<open>last\<close> stays at the first member.\<close>

definition batch :: "ntx_tx \<Rightarrow> ntx_op list \<Rightarrow> bool" where
  "batch t xs \<longleftrightarrow> (\<exists>as. distinct as \<and> linked (nodes t) (front t) as (kept_ops xs) None \<and>
     rear t = (if as = [] then None else Some (hd as)))"

lemma add_op_batch:
  assumes "batch t xs"
  shows "\<exists>t'. ntx_add_op y t = Inr t' \<and> batch t' (xs @ [y])"
proof -
  obtain as where as: "distinct as" "linked (nodes t) (front t) as (kept_ops xs) None" "rear t = (if as = [] then None else Some (hd as))"
    using assms by (auto simp: batch_def)
  let ?a = "length (nodes t)" and ?h = "nodes t @ [Some \<lparr>elem = y, nxt = None\<rparr>]"
  have new: "?a \<notin> set as" using as(2) linked_alloc by fastforce
  show ?thesis
  proof (cases xs)
    case Nil
    then have "as = []" using as(2) linked_lengths by (fastforce simp: kept_ops_def)
    then have "ntx_add_op y t = Inr (t\<lparr>nodes := ?h, front := Some ?a, rear := Some ?a\<rparr>)"
      using as(3) by (simp add: ntx_add_op_def chain_alloc_def)
    then show ?thesis using Nil by (auto simp: batch_def kept_ops_def intro!: exI [of _ "[?a]"])
  next
    case (Cons x zs)
    obtain rs where "kept_ops xs = x # rs" using Cons by (cases zs) (auto simp: kept_ops_def)
    then obtain b bs n where b: "as = b # bs" "front t = Some b" "heap_get (nodes t) b = Inr n" "elem n = x"
      using as(2) by (cases as) auto
    have "b < ?a" "?a \<noteq> b" using b(3) by (auto simp: res_simps)
    let ?g = "heap_put b (n\<lparr>nxt := Some ?a\<rparr>) ?h"
    have g: "heap_get ?g b = Inr (n\<lparr>nxt := Some ?a\<rparr>)" "heap_get ?g ?a = Inr \<lparr>elem = y, nxt = None\<rparr>"
      using \<open>b < ?a\<close> by auto
    have e: "ntx_add_op y t = Inr (t\<lparr>nodes := ?g\<rparr>)"
      using as(3) b \<open>b < ?a\<close> by (simp add: ntx_add_op_def chain_alloc_def chain_set_next_def)
    have "linked ?g (front t) [b, ?a] [x, y] None" using b(2,4) g by auto
    moreover have "kept_ops (xs @ [y]) = [x, y]" using Cons by (simp only: kept_ops_snoc list.case)
    ultimately have "batch (t\<lparr>nodes := ?g\<rparr>) (xs @ [y])"
      using as(3) b(1) \<open>?a \<noteq> b\<close> unfolding batch_def by (intro exI [of _ "[b, ?a]"]) simp
    then show ?thesis using e by blast
  qed
qed

lemma add_ops_batch: "batch t xs \<Longrightarrow> \<exists>t'. add_ops ys t = Inr t' \<and> batch t' (xs @ ys)"
proof (induction ys arbitrary: t xs)
  case (Cons y ys)
  obtain t1 where t1: "ntx_add_op y t = Inr t1" "batch t1 (xs @ [y])" using add_op_batch [OF Cons.prems] by blast
  from Cons.IH [OF t1(2)] show ?case using t1(1) by auto
qed auto

lemma commit_loop_linked:
  assumes "linked (nodes t) p as xs None" "distinct as" "length as \<le> k"
  shows "\<exists>t'. (\<forall>n :: 'f net_ctx. commit_loop k p (t, n) = rbind (perform xs n) (\<lambda>n. Inr (t', n))) \<and> rollback_loop k p t = Inr t'"
  using assms
proof (induction as arbitrary: k p t xs)
  case Nil
  then show ?case by (cases xs) auto
next
  case (Cons a as)
  then obtain j y ys n where k: "k = Suc j" and x: "xs = y # ys" "p = Some a" "heap_get (nodes t) a = Inr n" "elem n = y"
      "linked (nodes t) (nxt n) as ys None"
    by (cases k; cases xs) auto
  let ?t = "t\<lparr>nodes := heap_free a (nodes t)\<rparr>"
  have "linked (nodes ?t) (nxt n) as ys None" using x(5) Cons.prems(2) by simp
  moreover have "distinct as" "length as \<le> j" using Cons.prems(2,3) k by auto
  ultimately obtain t' where "\<forall>m :: 'f net_ctx. commit_loop j (nxt n) (?t, m) = rbind (perform ys m) (\<lambda>m. Inr (t', m))" "rollback_loop j (nxt n) ?t = Inr t'"
    using Cons.IH by blast
  then show ?case using k x by (auto simp: chain_free_def rbind_assoc)
qed

lemma batch_walk:
  assumes "batch t xs"
  shows "\<exists>t'. (\<forall>n. commit_loop (length (nodes t)) (front t) (t, n) = rbind (perform (kept_ops xs) n) (\<lambda>n. Inr (t', n))) \<and>
    rollback_loop (length (nodes t)) (front t) t = Inr t'"
proof -
  obtain as where as: "distinct as" "linked (nodes t) (front t) as (kept_ops xs) None" using assms by (auto simp: batch_def)
  have "set as \<subseteq> {..<length (nodes t)}" using linked_alloc [OF as(2)] by auto
  then have "length as \<le> length (nodes t)"
    using card_mono [of "{..<length (nodes t)}" "set as"] distinct_card [OF as(1)] by simp
  from commit_loop_linked [OF as(2,1) this] show ?thesis .
qed

lemma batch_new: "batch chain_new []"
  unfolding batch_def by (rule exI [of _ "[]"]) (simp add: chain_new_def kept_ops_def)

end
