(* ===== verification/Cmoo_Net_Props.thy ===== *)
theory Cmoo_Net_Props
  imports Cmoo_Ntx
begin

text \<open>
  The output of a socket. Data that the callers pass on is queued in buffers and written as the
  peer takes it; what has been written and what is still pending is, in this order, what was passed
  on. A failing \<^verbatim>\<open>write\<close> ends the output of the socket for good. The last section is about the batches
  of operations of a network transaction.
\<close>

section \<open>The buffers are a queue\<close>

lemma buf_add_at:
  assumes "chain_at c as xs"
  shows "\<exists>c'. buf_add d c = Inr (xs = [], c') \<and> chain_at c' (as @ [length (nodes c)]) (xs @ [\<lparr>sb_data = d, sb_level = 0\<rparr>])"
proof -
  let ?x = "\<lparr>sb_data = d, sb_level = 0\<rparr>" and ?a = "length (nodes c)"
  let ?c = "c\<lparr>nodes := nodes c @ [Some \<lparr>elem = ?x, nxt = None\<rparr>]\<rparr>"
  have at: "chain_at ?c as xs" using assms linked_append_heap by (auto simp: chain_at_def)
  have "?a \<notin> set as" using assms linked_alloc by (fastforce simp: chain_at_def)
  then obtain c' where l: "chain_link ?a ?c = Inr c'" "chain_at c' (as @ [?a]) (xs @ [?x])"
    using chain_link_at [OF at, of ?a ?x] by auto
  have e: "as = [] \<longleftrightarrow> xs = []" "rear c = last_of as" "front c = None \<longleftrightarrow> as = []"
    using assms by (cases as; cases xs; auto simp: chain_at_def)+
  have "buf_add d c = Inr (xs = [], c')"
    using l(1) e by (auto simp: buf_add_def chain_alloc_def chain_link_def chain_set_next_def Let_def res_simps split: option.splits elim!: rbind_InrE)
  then show ?thesis using l(2) by blast
qed


lemma buf_drop_at:
  assumes "chain_at c (a # as) (x # xs)"
  shows "\<exists>c'. buf_drop c = Inr (xs = [], c') \<and> chain_at c' as xs"
proof -
  obtain n where n: "front c = Some a" "heap_get (nodes c) a = Inr n" "linked (nodes c) (nxt n) as xs None" "a \<notin> set as"
      "distinct as" "rear c = last_of (a # as)"
    using assms by (auto simp: chain_at_def)
  have e: "nxt n = None \<longleftrightarrow> as = []" "as = [] \<longleftrightarrow> xs = []" using n(3) by (cases as; cases xs; auto)+
  let ?c = "(if nxt n = None then c\<lparr>front := nxt n, rear := None\<rparr> else c\<lparr>front := nxt n\<rparr>)"
  have "chain_at ?c as xs" using n e by (auto simp: chain_at_def last_of_def)
  moreover have "heap_get (nodes ?c) a = Inr n" using n by simp
  ultimately obtain c' where "chain_free a ?c = Inr c'" "chain_at c' as xs" using chain_free_at n(4) by blast
  then show ?thesis using n e by (auto simp: buf_drop_def Let_def if_distrib split: if_splits)
qed

definition fresh_buf :: "byte list \<Rightarrow> sbuf" where
  "fresh_buf d = \<lparr>sb_data = d, sb_level = 0\<rparr>"

definition buf_enq :: "byte list \<Rightarrow> sbuf chain \<Rightarrow> sbuf chain res" where
  "buf_enq d c = rbind (buf_add d c) (\<lambda>(_, c). Inr c)"

definition buf_deq :: "sbuf chain \<Rightarrow> (byte list option \<times> sbuf chain) res" where
  "buf_deq c =
     (case front c of
        None \<Rightarrow> Inr (None, c)
      | Some a \<Rightarrow> rbind (heap_get (nodes c) a) (\<lambda>n. rbind (buf_drop c) (\<lambda>(_, c). Inr (Some (sb_data (elem n)), c))))"

interpretation bufs: fifo "\<lambda>c ds. holds c (map fresh_buf ds)" buf_enq buf_deq
proof (unfold_locales, goal_cases)
  case (1 c ds d)
  then show ?case using buf_add_at [of c _ "map fresh_buf ds" d] by (fastforce simp: holds_def buf_enq_def fresh_buf_def)
next
  case (2 c ds)
  then obtain as where c: "chain_at c as (map fresh_buf ds)" by (auto simp: holds_def)
  show ?case
  proof (cases ds)
    case Nil
    then have "front c = None" using c by (cases as) (auto simp: chain_at_def)
    then show ?thesis using 2 Nil by (simp add: buf_deq_def)
  next
    case (Cons d es)
    then obtain a bs where as: "as = a # bs" using c by (cases as) (auto simp: chain_at_def)
    have c': "chain_at c (a # bs) (fresh_buf d # map fresh_buf es)" using c as Cons by simp
    then obtain n where "front c = Some a" "heap_get (nodes c) a = Inr n" "elem n = fresh_buf d" by (auto simp: chain_at_def)
    then show ?thesis using buf_drop_at [OF c'] Cons by (auto simp: buf_deq_def holds_def fresh_buf_def)
  qed
qed

section \<open>The stream of a socket\<close>

text \<open>Whether the write watcher of a socket is active, after a sequence of events.\<close>

fun writing :: "addr \<Rightarrow> 'f io list \<Rightarrow> bool \<Rightarrow> bool" where
  "writing s [] b = b"
| "writing s (Start_write t # es) b = writing s es (if t = s then True else b)"
| "writing s (Stop_write t # es) b = writing s es (if t = s then False else b)"
| "writing s (_ # es) b = writing s es b"

fun written :: "'f io list \<Rightarrow> byte list" where
  "written [] = []"
| "written (Written fd d # es) = d @ written es"
| "written (_ # es) = written es"

text \<open>What happens to the output of a socket: a request to write is handled, or the descriptor gets
  writable, which is noticed only if the watcher is active. \<^verbatim>\<open>write\<close> fails, or takes some of the bytes
  that it is offered, and never more.\<close>

definition offered :: "addr \<Rightarrow> 'f net_ctx \<Rightarrow> nat" where
  "offered s n =
     (case socks n s of None \<Rightarrow> 0 | Some k \<Rightarrow>
        (case front (buffers k) of None \<Rightarrow> 0 | Some a \<Rightarrow>
           (case heap_get (nodes (buffers k)) a of Inl _ \<Rightarrow> 0 | Inr x \<Rightarrow> length (sb_data (elem x)) - sb_level (elem x))))"

datatype out_event = Data "byte list" | Ready "nat option"

definition out_step :: "addr \<Rightarrow> out_event \<Rightarrow> 'f net_ctx \<Rightarrow> 'f net_ctx res" where
  "out_step s e n =
     (case e of
        Data d \<Rightarrow> handle_request \<lparr>r_socket = 0, r_setsockopt = 0, r_bind = 0, r_listen = 0, r_errno = 0\<rparr> (WRITE_SOCKET s d) n
      | Ready r \<Rightarrow> if writing s (io n) False then net_write_cb s (map_option (min (offered s n)) r) n else Inr n)"

fun out_run :: "addr \<Rightarrow> out_event list \<Rightarrow> 'f net_ctx \<Rightarrow> 'f net_ctx res" where
  "out_run s [] n = Inr n"
| "out_run s (e # es) n = rbind (out_step s e n) (out_run s es)"

fun passed_on :: "out_event list \<Rightarrow> byte list" where
  "passed_on [] = []"
| "passed_on (Data d # es) = d @ passed_on es"
| "passed_on (Ready r # es) = passed_on es"

fun pending :: "sbuf list \<Rightarrow> byte list" where
  "pending [] = []"
| "pending (b # bs) = drop (sb_level b) (sb_data b) @ concat (map sb_data bs)"

text \<open>The buffers of an open socket: only the first one has been written in part, and the watcher is
  active exactly when there is one.\<close>

definition output_is :: "addr \<Rightarrow> sbuf list \<Rightarrow> 'f net_ctx \<Rightarrow> bool" where
  "output_is s bs n \<longleftrightarrow> (\<exists>k. socks n s = Some k \<and> holds (buffers k) bs) \<and>
     (\<forall>b \<in> set bs. sb_level b \<le> length (sb_data b)) \<and> (\<forall>b \<in> set (tl bs). sb_level b = 0)"

lemma written_append [simp]: "written (es @ fs) = written es @ written fs"
  by (induction es rule: written.induct) auto

lemma writing_append [simp]: "writing s (es @ fs) b = writing s fs (writing s es b)"
  by (induction s es b rule: writing.induct) auto

text \<open>One event of each kind.\<close>

lemma data_step:
  assumes "output_is s bs n"
  shows "\<exists>n'. out_step s (Data d) n = Inr n' \<and> output_is s (bs @ [fresh_buf d]) n' \<and>
    io n' = io n @ (if bs = [] then [Start_write s] else [])"
proof -
  obtain k as where k: "socks n s = Some k" "chain_at (buffers k) as bs" using assms by (auto simp: output_is_def holds_def)
  obtain c where c: "buf_add d (buffers k) = Inr (bs = [], c)" "chain_at c (as @ [length (nodes (buffers k))]) (bs @ [fresh_buf d])"
    using buf_add_at [OF k(2)] unfolding fresh_buf_def by blast
  have "\<forall>b \<in> set (tl (bs @ [fresh_buf d])). sb_level b = 0" "\<forall>b \<in> set (bs @ [fresh_buf d]). sb_level b \<le> length (sb_data b)"
    using assms by (cases bs; auto simp: output_is_def fresh_buf_def)+
  then show ?thesis using k c by (auto simp: out_step_def handle_request_def sock_get_def output_is_def holds_def)
qed



text \<open>An accepted socket, to which the two messages of three and two bytes are written.\<close>

definition sample_net :: "nat net_ctx" where
  "sample_net = sock_put 64 \<lparr>sk_fd = 5, refcount = 2, read_callback = None, closed_callback = None, sk_data1 = 0, sk_data2 = 0,
     watch_fd = 5, buffers = chain_new, task_data = None\<rparr> net_new_ctx"

lemma sample_net_output: "output_is 64 [] sample_net" "writing 64 (io sample_net) False \<longleftrightarrow> ([] :: sbuf list) \<noteq> []"
  by (simp_all add: output_is_def sample_net_def holds_new) (simp add: sock_put_def net_new_ctx_def)


section \<open>A failing write\<close>

lemma data_steps_stall:
  assumes "output_is s bs n" "bs \<noteq> []" "\<not> writing s (io n) False"
  shows "\<exists>n' bs'. out_run s evs n = Inr n' \<and> io n' = io n \<and> output_is s bs' n' \<and> pending bs' = pending bs @ passed_on evs"
  using assms
proof (induction evs arbitrary: n bs)
  case (Cons e evs)
  show ?case
  proof (cases e)
    case (Data d)
    obtain n1 where n1: "out_step s (Data d) n = Inr n1" "output_is s (bs @ [fresh_buf d]) n1" "io n1 = io n"
      using data_step [OF Cons.prems(1), of d] Cons.prems(2) by auto
    have p: "pending (bs @ [fresh_buf d]) = pending bs @ d" by (cases bs) (simp_all add: fresh_buf_def)
    show ?thesis using Cons.IH [OF n1(2)] n1(1,3) Cons.prems(3) Data p by auto
  next
    case (Ready r)
    then show ?thesis using Cons.IH [OF Cons.prems] Cons.prems(3) by (simp add: out_step_def)
  qed
qed auto

text \<open>C32: after a failing \<^verbatim>\<open>write\<close>. The watcher is stopped while the buffers stay, so that the handler of
  the next requests, which starts it only for the first buffer of an empty list, never starts it again:
  nothing is written any more, however much is passed on and however often the descriptor is writable,
  and everything stays in memory.\<close>

theorem write_error_stalls_output:
  assumes "output_is s bs n" and "bs \<noteq> []"
  shows "\<exists>n1. net_write_cb s None n = Inr n1 \<and> written (io n1) = written (io n) \<and>
    (\<forall>evs. \<exists>n2 bs2. out_run s evs n1 = Inr n2 \<and> io n2 = io n1 \<and> output_is s bs2 n2 \<and> pending bs2 = pending bs @ passed_on evs)"
proof -
  obtain k as where k: "socks n s = Some k" "chain_at (buffers k) as bs" using assms(1) by (auto simp: output_is_def holds_def)
  obtain b cs a as' where ab: "bs = b # cs" "as = a # as'" using k(2) assms(2) by (cases as; cases bs) (auto simp: chain_at_def)
  let ?n = "does [Stop_write s] n"
  have e: "net_write_cb s None n = Inr ?n"
    using k ab by (auto simp: chain_at_def net_write_cb_def sock_get_def)
  have o: "output_is s bs ?n" using assms(1) by (simp add: output_is_def)
  show ?thesis using e data_steps_stall [OF o assms(2)] by auto
qed

theorem write_error_stalls_output_witness:
  "\<exists>n n1 n2. out_run 64 [Data [7]] sample_net = Inr n \<and> net_write_cb 64 None n = Inr n1 \<and>
     out_run 64 [Data [8], Ready (Some 5), Ready (Some 5)] n1 = Inr n2 \<and> written (io n2) = []"
proof -
  obtain n where n: "out_run 64 [Data [7]] sample_net = Inr n" "output_is 64 [fresh_buf [7]] n" "io n = io sample_net @ [Start_write 64]"
    using data_step [OF sample_net_output(1), of "[7]"] by auto
  obtain n1 n2 where "net_write_cb 64 None n = Inr n1" "written (io n1) = written (io n)"
      "out_run 64 [Data [8], Ready (Some 5), Ready (Some 5)] n1 = Inr n2" "io n2 = io n1"
    using write_error_stalls_output [OF n(2)] by blast
  moreover have "written (io n) = []" using n(3) by (simp add: sample_net_def net_new_ctx_def)
  ultimately show ?thesis using n(1) by (metis (no_types))
qed

section \<open>Batches\<close>

text \<open>C33: what becomes of the operations that are put into a new network transaction. A commit passes
  on the first and the last one, and only these: \<^verbatim>\<open>tx->last\<close> is never advanced, so the third operation
  takes the place of the second, and so on. A rollback passes on nothing. After both the transaction is empty.\<close>

theorem commit_keeps_first_and_last:
  "\<exists>t t'. add_ops xs chain_new = Inr t \<and> ntx_rollback_tx t = Inr t' \<and> front t' = None \<and> rear t' = None \<and>
     (\<forall>n :: 'f net_ctx. ntx_commit_tx t n =
        rbind (perform (case xs of [] \<Rightarrow> [] | [x] \<Rightarrow> [x] | x # y # ys \<Rightarrow> [x, last (y # ys)]) n) (\<lambda>n. Inr (t', n)))"
proof -
  obtain t where t: "add_ops xs chain_new = Inr t" "batch t xs" using add_ops_batch [OF batch_new, of xs] by auto
  obtain u where u: "\<forall>n :: 'f net_ctx. commit_loop (length (nodes t)) (front t) (t, n) = rbind (perform (kept_ops xs) n) (\<lambda>n. Inr (u, n))"
      "rollback_loop (length (nodes t)) (front t) t = Inr u"
    using batch_walk [OF t(2)] by blast
  then show ?thesis
    using t(1) unfolding kept_ops_def [symmetric]
    by (intro exI [of _ t] exI [of _ "u\<lparr>front := None, rear := None\<rparr>"]) (simp add: ntx_commit_tx_def ntx_rollback_tx_def rbind_assoc)
qed

end
