(* ===== verification/Cmoo_Tasks.thy ===== *)
theory Cmoo_Tasks
  imports Cmoo_Eval Cmoo_Ntx
begin

text \<open>
  The queue of work items of \<^verbatim>\<open>src/src/tasks.c\<close> between the network and the virtual machine: the
  callbacks of the network put items into it, the worker threads take them out. \<open>driver\<close> is the
  state of the whole program: the store, extended by the network, the network transactions that
  are alive and the queue.
\<close>

section \<open>State\<close>

datatype task_item =
    QUEUE_STOP
  | QUEUE_INIT
  | QUEUE_ACCEPT addr object_id
  | QUEUE_LISTEN_ERROR "32 word" object_id
  | QUEUE_CLOSED addr object_id
  | QUEUE_READ addr "byte list" object_id

text \<open>The functions that \<^verbatim>\<open>tasks.c\<close> gives to the network as callbacks.\<close>

datatype task_cb = TASKS_READ_CB | TASKS_CLOSED_CB | TASKS_ACCEPT_CB | TASKS_LISTEN_ERROR_CB

record driver = store +
  net :: "task_cb net_ctx"
  ntxs :: "addr \<Rightarrow> ntx_tx option"
  ntx_avail :: "addr list"
  t_queue :: "task_item chain"
  t_stop :: bool
  task_id_seq :: "64 word"

text \<open>The address of the tasks context, which is the first data pointer of all callbacks.\<close>

definition TASKS_CTX :: addr where "TASKS_CTX = 8"

definition tasks_new_ctx :: "store \<Rightarrow> task_cb net_ctx \<Rightarrow> addr list \<Rightarrow> driver" where
  "tasks_new_ctx s n as =
     store.extend s (driver.fields n Map.empty as chain_new False 1)"

section \<open>The queue\<close>

definition tasks_enqueue_item :: "task_item \<Rightarrow> driver \<Rightarrow> driver res" where
  "tasks_enqueue_item i w = rbind (chain_add i (t_queue w)) (\<lambda>q. Inr (w\<lparr>t_queue := q\<rparr>))"

definition tasks_read_cb :: "addr \<Rightarrow> byte list \<Rightarrow> addr \<Rightarrow> addr \<Rightarrow> driver \<Rightarrow> driver res" where
  "tasks_read_cb s buf d1 d2 w = tasks_enqueue_item (QUEUE_READ s buf d2) w"

definition tasks_closed_cb :: "addr \<Rightarrow> addr \<Rightarrow> addr \<Rightarrow> driver \<Rightarrow> driver res" where
  "tasks_closed_cb s d1 d2 w = tasks_enqueue_item (QUEUE_CLOSED s d2) w"

definition tasks_accept_cb :: "addr \<Rightarrow> addr \<Rightarrow> addr \<Rightarrow> driver \<Rightarrow> driver res" where
  "tasks_accept_cb s d1 d2 w = tasks_enqueue_item (QUEUE_ACCEPT s d2) w"

definition tasks_listen_error_cb :: "32 word \<Rightarrow> addr \<Rightarrow> addr \<Rightarrow> driver \<Rightarrow> driver res" where
  "tasks_listen_error_cb e d1 d2 w = tasks_enqueue_item (QUEUE_LISTEN_ERROR e d2) w"

definition tasks_start :: "driver \<Rightarrow> driver res" where
  "tasks_start w = tasks_enqueue_item QUEUE_INIT w"

text \<open>\<^verbatim>\<open>tasks_stop\<close> up to the \<^verbatim>\<open>pthread_join\<close> of the workers.\<close>

definition tasks_stop :: "driver \<Rightarrow> driver res" where
  "tasks_stop w = tasks_enqueue_item QUEUE_STOP w"

text \<open>A callback through the function pointer that the network was given; calling a function of
  another type is undefined.\<close>

definition call_back_up :: "task_cb io \<Rightarrow> driver \<Rightarrow> driver res" where
  "call_back_up e w =
     (case e of
        On_read TASKS_READ_CB s buf d1 d2 \<Rightarrow> tasks_read_cb s buf d1 d2 w
      | On_closed TASKS_CLOSED_CB s d1 d2 \<Rightarrow> tasks_closed_cb s d1 d2 w
      | On_accept TASKS_ACCEPT_CB s d1 d2 \<Rightarrow> tasks_accept_cb s d1 d2 w
      | On_error TASKS_LISTEN_ERROR_CB e d1 d2 \<Rightarrow> tasks_listen_error_cb e d1 d2 w
      | On_read _ _ _ _ _ \<Rightarrow> Inl Wrong_member
      | On_closed _ _ _ _ \<Rightarrow> Inl Wrong_member
      | On_accept _ _ _ _ \<Rightarrow> Inl Wrong_member
      | On_error _ _ _ _ \<Rightarrow> Inl Wrong_member
      | _ \<Rightarrow> Inr w)"

fun call_backs_up :: "task_cb io list \<Rightarrow> driver \<Rightarrow> driver res" where
  "call_backs_up [] w = Inr w"
| "call_backs_up (e # es) w = rbind (call_back_up e w) (call_backs_up es)"

text \<open>A step of the network thread inside the whole program: what it does to the network, and the
  callbacks it made on the way. These only touch the queue, so they can be run afterwards.\<close>

definition net_step :: "(task_cb net_ctx \<Rightarrow> task_cb net_ctx res) \<Rightarrow> driver \<Rightarrow> driver res" where
  "net_step f w =
     rbind (f (net w)) (\<lambda>n. call_backs_up (drop (length (io (net w))) (io n)) (w\<lparr>net := n\<rparr>))"

section \<open>The network, as the virtual machine calls it\<close>

definition on_net :: "(task_cb net_ctx \<Rightarrow> task_cb net_ctx res) \<Rightarrow> driver \<Rightarrow> driver res" where
  "on_net f w = rbind (f (net w)) (\<lambda>n. Inr (w\<lparr>net := n\<rparr>))"

definition tasks_net_make_listener :: "32 word \<Rightarrow> object_id \<Rightarrow> driver \<Rightarrow> driver res" where
  "tasks_net_make_listener port oid w =
     on_net (net_make_listener port (Some TASKS_LISTEN_ERROR_CB) (Some TASKS_ACCEPT_CB) TASKS_CTX oid) w"

definition tasks_net_shutdown_listener :: "32 word \<Rightarrow> driver \<Rightarrow> driver res" where
  "tasks_net_shutdown_listener port w = on_net (net_shutdown_listener port) w"

definition tasks_net_accept_socket :: "addr \<Rightarrow> object_id \<Rightarrow> driver \<Rightarrow> driver res" where
  "tasks_net_accept_socket s oid w =
     on_net (net_socket_init s (Some TASKS_READ_CB) (Some TASKS_CLOSED_CB) TASKS_CTX oid) w"

definition tasks_net_socket_free :: "addr \<Rightarrow> driver \<Rightarrow> driver res" where
  "tasks_net_socket_free s w = on_net (net_socket_free s) w"

definition ntx_get :: "addr \<Rightarrow> driver \<Rightarrow> ntx_tx res" where
  "ntx_get a w = (case ntxs w a of None \<Rightarrow> Inl Use_after_free | Some t \<Rightarrow> Inr t)"

text \<open>The string is copied into a buffer of its own.\<close>

definition tasks_net_socket_write :: "addr \<Rightarrow> addr \<Rightarrow> byte list \<Rightarrow> nat \<Rightarrow> driver \<Rightarrow> driver res" where
  "tasks_net_socket_write s a buf sz w =
     (if length buf < sz then Inl Out_of_bounds
      else rbind (ntx_get a w) (\<lambda>t.
           rbind (ntx_socket_write s (take sz buf) t) (\<lambda>t. Inr (w\<lparr>ntxs := (ntxs w)(a \<mapsto> t)\<rparr>))))"

end
