(* ===== verification/Cmoo_Vm.thy ===== *)
theory Cmoo_Vm
  imports Cmoo_Tasks
begin

text \<open>
  The interface of the virtual machine to the tasks, \<^verbatim>\<open>src/src/vm.c\<close>: the system calls, the table
  they are registered in, and the evaluation of a method of an object in a transaction of its own.
  The store that a \<^verbatim>\<open>struct vm\<close> points to is part of the state, so that a vm is its table.
\<close>

type_synonym vm = "driver syscall_table"

section \<open>System calls\<close>

definition with_tasks :: "nat option \<Rightarrow> driver res \<Rightarrow> (val \<times> driver) res" where
  "with_tasks p m = (case p of None \<Rightarrow> Inl Null_deref | Some _ \<Rightarrow> rbind m (\<lambda>w. Inr (val_make_nil, w)))"

definition syscall_net_make_listener :: "nat option \<Rightarrow> val \<Rightarrow> val \<Rightarrow> driver \<Rightarrow> (val \<times> driver) res" where
  "syscall_net_make_listener p port oid w =
     rbind (val_get_int port) (\<lambda>i. rbind (val_get_objref oid) (\<lambda>ob. with_tasks p (tasks_net_make_listener i ob w)))"

definition syscall_net_shutdown_listener :: "nat option \<Rightarrow> val \<Rightarrow> driver \<Rightarrow> (val \<times> driver) res" where
  "syscall_net_shutdown_listener p port w =
     rbind (val_get_int port) (\<lambda>i. with_tasks p (tasks_net_shutdown_listener i w))"

definition syscall_net_accept_socket :: "nat option \<Rightarrow> val \<Rightarrow> val \<Rightarrow> driver \<Rightarrow> (val \<times> driver) res" where
  "syscall_net_accept_socket p s oid w =
     rbind (val_get_objref oid) (\<lambda>ob. with_tasks p (tasks_net_accept_socket (val_get_special s) ob w))"

definition syscall_net_socket_free :: "nat option \<Rightarrow> val \<Rightarrow> driver \<Rightarrow> (val \<times> driver) res" where
  "syscall_net_socket_free p s w = with_tasks p (tasks_net_socket_free (val_get_special s) w)"

definition syscall_net_socket_write :: "nat option \<Rightarrow> val \<Rightarrow> val \<Rightarrow> val \<Rightarrow> driver \<Rightarrow> (val \<times> driver) res" where
  "syscall_net_socket_write p s tx d w =
     rbind (val_get_string_data d (strs w)) (\<lambda>buf. rbind (val_get_string_len d (strs w)) (\<lambda>n.
       with_tasks p (tasks_net_socket_write (val_get_special s) (val_get_special tx) buf (unat n) w)))"

definition vm_new :: vm where
  "vm_new =
     syscall_table_add_a3 (lit ''net_socket_write'') syscall_net_socket_write
    (syscall_table_add_a1 (lit ''net_socket_free'') syscall_net_socket_free
    (syscall_table_add_a2 (lit ''net_accept_socket'') syscall_net_accept_socket
    (syscall_table_add_a1 (lit ''net_shutdown_listener'') syscall_net_shutdown_listener
    (syscall_table_add_a2 (lit ''net_make_listener'') syscall_net_make_listener syscall_table_new))))"

section \<open>Evaluation\<close>

record vm_eval_ctx =
  ve_stx :: nat
  ve_eval :: "driver eval_ctx"
  ve_start :: nat
  ve_task :: "64 word"

definition vm_get_eval_ctx :: "driver host \<Rightarrow> vm \<Rightarrow> object_id \<Rightarrow> 64 word \<Rightarrow> driver \<Rightarrow> (vm_eval_ctx \<times> driver) res" where
  "vm_get_eval_ctx H v oid tid w =
     rbind (store_start_tx w) (\<lambda>(tx, w).
     rbind (store_get_object (h_env H) tx oid w) (\<lambda>(lo, w).
       case lo of
         None \<Rightarrow> Inl Assert_failed
       | Some lo \<Rightarrow>
           Inr (\<lparr>ve_stx = tx, ve_eval = eval_set_syscall_table v (eval_new_ctx tid tx), ve_start = lo, ve_task = tid\<rparr>, w)))"

fun print_vals :: "driver host \<Rightarrow> val list \<Rightarrow> driver \<Rightarrow> unit res" where
  "print_vals H [] w = Inr ()"
| "print_vals H (v # vs) w = rbind (val_print (h_fmt H) v (strs w)) (\<lambda>_. print_vals H vs w)"

text \<open>At most two arguments are passed on; with more of them the result is never assigned. The
  evaluation may run for ever, so \<open>n\<close> is a bound for its instructions.\<close>

definition vm_eval_ctx_exec :: "driver host \<Rightarrow> nat \<Rightarrow> vm_eval_ctx \<Rightarrow> val \<Rightarrow> val list \<Rightarrow> driver \<Rightarrow> (nat \<times> driver) res option" where
  "vm_eval_ctx_exec H n ex method args w =
     (case rbind (lobj_id (ve_start ex) (heap w)) (\<lambda>_. val_get_string_data method (strs w)) of
        Inl f \<Rightarrow> Some (Inl f)
      | Inr _ \<Rightarrow>
          if length args \<le> 2 then
            (case print_vals H args w of
               Inl f \<Rightarrow> Some (Inl f)
             | Inr _ \<Rightarrow>
                 map_option (\<lambda>r. rbind r (\<lambda>(ret, _, w). rbind (store_finish_tx (ve_stx ex) w) (\<lambda>w. Inr (ret, w))))
                   (eval_exec_method H n (ve_start ex) method args (ve_eval ex, w)))
          else Some (rbind (store_finish_tx (ve_stx ex) w) (\<lambda>_. Inl Uninit_read)))"

text \<open>The first object of the world gets the message \<^verbatim>\<open>init\<close>; its result is not looked at.\<close>

definition vm_init :: "driver host \<Rightarrow> nat \<Rightarrow> nat \<Rightarrow> vm \<Rightarrow> driver \<Rightarrow> (vm \<times> driver) res option" where
  "vm_init H n tc v w =
     (let v = syscall_table_set_ctx (Some tc) v in
      case rbind (vm_get_eval_ctx H v 0 0 w) (\<lambda>(ec, w).
           rbind (val_make_string 4 (lit ''init'') (strs w)) (\<lambda>(m, h).
           rbind (val_make_objref 11) (\<lambda>a. Inr (ec, m, a, w\<lparr>strs := h\<rparr>)))) of
        Inl f \<Rightarrow> Some (Inl f)
      | Inr (ec, m, a, w) \<Rightarrow>
          map_option (\<lambda>r. rbind r (\<lambda>(_, w). rbind (val_dec_ref m (strs w)) (\<lambda>h. Inr (v, w\<lparr>strs := h\<rparr>))))
            (vm_eval_ctx_exec H n ec m [a] w))"

end
