(* ===== verification/Cmoo_Worker.thy ===== *)
theory Cmoo_Worker
  imports Cmoo_Vm
begin

text \<open>
  The worker threads of \<^verbatim>\<open>src/src/tasks.c\<close>: how one takes an item from the queue and works on it,
  and the step relation of the whole pool. A turn of a worker is bounded by the number \<open>n\<close> of
  instructions of one evaluation and the number \<open>k\<close> of attempts; \<open>None\<close> is a turn that has not ended
  by then.
\<close>

section \<open>One work item\<close>

text \<open>The object, the method and the arguments; the strings are made before the call and dropped
  behind it. \<open>INIT\<close> is handled by \<open>vm_init\<close>.\<close>

fun item_object :: "task_item \<Rightarrow> object_id" where
  "item_object QUEUE_STOP = 0"
| "item_object QUEUE_INIT = 0"
| "item_object (QUEUE_ACCEPT s oid) = oid"
| "item_object (QUEUE_LISTEN_ERROR e oid) = oid"
| "item_object (QUEUE_CLOSED s oid) = oid"
| "item_object (QUEUE_READ s buf oid) = oid"

fun item_method :: "task_item \<Rightarrow> cstring" where
  "item_method QUEUE_STOP = lit ''shutdown''"
| "item_method QUEUE_INIT = lit ''init''"
| "item_method (QUEUE_ACCEPT s oid) = lit ''accept''"
| "item_method (QUEUE_LISTEN_ERROR e oid) = lit ''error''"
| "item_method (QUEUE_CLOSED s oid) = lit ''closed''"
| "item_method (QUEUE_READ s buf oid) = lit ''read''"

text \<open>The arguments, with the strings among them that are to be dropped.\<close>

definition item_args :: "task_item \<Rightarrow> addr \<Rightarrow> sheap \<Rightarrow> ((val list \<times> val list) \<times> sheap) res" where
  "item_args i tx h =
     (case i of
        QUEUE_ACCEPT s _ \<Rightarrow> rbind (val_make_special s) (\<lambda>v. Inr (([v], []), h))
      | QUEUE_CLOSED s _ \<Rightarrow> rbind (val_make_special s) (\<lambda>v. Inr (([v], []), h))
      | QUEUE_LISTEN_ERROR e _ \<Rightarrow> Inr (([val_make_int e], []), h)
      | QUEUE_READ s buf _ \<Rightarrow>
          rbind (val_make_string (of_nat (length buf)) buf h) (\<lambda>(d, h).
          rbind (val_make_special tx) (\<lambda>v. Inr (([v, d], [d]), h)))
      | _ \<Rightarrow> Inr (([], []), h))"

fun dec_all :: "val list \<Rightarrow> sheap \<Rightarrow> sheap res" where
  "dec_all [] h = Inr h"
| "dec_all (v # vs) h = rbind (val_dec_ref v h) (dec_all vs)"

text \<open>One pass of the loop that retries, up to the commit.\<close>

definition item_call :: "driver host \<Rightarrow> nat \<Rightarrow> vm \<Rightarrow> task_item \<Rightarrow> addr \<Rightarrow> 64 word \<Rightarrow> driver \<Rightarrow> (nat \<times> driver) res option" where
  "item_call H n v i tx tid w =
     (case rbind (vm_get_eval_ctx H v (item_object i) tid w) (\<lambda>(ec, w).
           rbind (val_make_string (of_nat (length (item_method i))) (item_method i) (strs w)) (\<lambda>(m, h).
           rbind (item_args i tx h) (\<lambda>((args, ds), h). Inr (ec, m, args, ds, w\<lparr>strs := h\<rparr>)))) of
        Inl f \<Rightarrow> Some (Inl f)
      | Inr (ec, m, args, ds, w) \<Rightarrow>
          map_option (\<lambda>r. rbind r (\<lambda>(ret, w).
            rbind (dec_all (m # ds) (strs w)) (\<lambda>h.
              Inr (ret, w\<lparr>strs := h, t_stop := t_stop w \<or> i = QUEUE_STOP\<rparr>))))
            (vm_eval_ctx_exec H n ec m args w))"

definition attempt :: "driver host \<Rightarrow> nat \<Rightarrow> vm \<Rightarrow> task_item \<Rightarrow> addr \<Rightarrow> 64 word \<Rightarrow> driver \<Rightarrow> (nat \<times> vm \<times> driver) res option" where
  "attempt H n v i tx tid w =
     (if i = QUEUE_INIT then map_option (\<lambda>r. rbind r (\<lambda>(v, w). Inr (EVAL_OK, v, w))) (vm_init H n 0 v w)
      else map_option (\<lambda>r. rbind r (\<lambda>(ret, w). Inr (ret, v, w))) (item_call H n v i tx tid w))"

text \<open>Committing or rolling back the network transaction.\<close>

definition settle :: "nat \<Rightarrow> addr \<Rightarrow> driver \<Rightarrow> driver res" where
  "settle ret tx w =
     rbind (ntx_get tx w) (\<lambda>t.
       if ret = EVAL_OK then
         rbind (ntx_commit_tx t (net w)) (\<lambda>(t, n). Inr (w\<lparr>net := n, ntxs := (ntxs w)(tx \<mapsto> t)\<rparr>))
       else rbind (ntx_rollback_tx t) (\<lambda>t. Inr (w\<lparr>ntxs := (ntxs w)(tx \<mapsto> t)\<rparr>)))"

fun retry_loop :: "driver host \<Rightarrow> nat \<Rightarrow> nat \<Rightarrow> vm \<Rightarrow> task_item \<Rightarrow> addr \<Rightarrow> 64 word \<Rightarrow> driver \<Rightarrow> (vm \<times> driver) res option" where
  "retry_loop H n 0 v i tx tid w = None"
| "retry_loop H n (Suc k) v i tx tid w =
     (case attempt H n v i tx tid w of
        None \<Rightarrow> None
      | Some (Inl f) \<Rightarrow> Some (Inl f)
      | Some (Inr (ret, v, w)) \<Rightarrow>
          (case settle ret tx w of
             Inl f \<Rightarrow> Some (Inl f)
           | Inr w \<Rightarrow> if ret = EVAL_OK then Some (Inr (v, w)) else retry_loop H n k v i tx tid w))"

text \<open>The work on an item that has been taken from the queue.\<close>

definition handle_item :: "driver host \<Rightarrow> (nat \<Rightarrow> nat) \<Rightarrow> nat \<Rightarrow> nat \<Rightarrow> vm \<Rightarrow> task_item \<Rightarrow> driver \<Rightarrow> (vm \<times> driver) res option" where
  "handle_item H usable n k v i w =
     (let tid = task_id_seq w; w = w\<lparr>task_id_seq := tid + 1\<rparr> in
      case ntx_avail w of
        [] \<Rightarrow> Some (Inl Malloc_failed)
      | tx # as \<Rightarrow>
          (case ntx_new_tx usable of
             Inl f \<Rightarrow> Some (Inl f)
           | Inr t \<Rightarrow>
               map_option (\<lambda>r. rbind r (\<lambda>(v, w). Inr (v, w\<lparr>ntxs := (ntxs w)(tx := None)\<rparr>)))
                 (retry_loop H n k v i tx tid (w\<lparr>ntx_avail := as, ntxs := (ntxs w)(tx \<mapsto> t)\<rparr>))))"

section \<open>The pool\<close>

text \<open>A worker is about to look at the stop flag, waits for an item, works on one, or has returned.\<close>

datatype wstate = W_check | W_waiting | W_working nat task_item | W_returned

definition worker_check :: "driver \<Rightarrow> wstate" where
  "worker_check w = (if t_stop w then W_returned else W_waiting)"

definition worker_take :: "driver \<Rightarrow> (wstate \<times> driver) res" where
  "worker_take w =
     rbind (chain_take (t_queue w)) (\<lambda>(r, q).
       Inr (case r of None \<Rightarrow> (W_waiting, w) | Some (a, i) \<Rightarrow> (W_working a i, w\<lparr>t_queue := q\<rparr>)))"

definition worker_finish :: "nat \<Rightarrow> driver \<Rightarrow> driver res" where
  "worker_finish a w = rbind (chain_free a (t_queue w)) (\<lambda>q. Inr (w\<lparr>t_queue := q\<rparr>))"

text \<open>A whole turn of one worker that nobody disturbs.\<close>

definition worker_turn :: "driver host \<Rightarrow> (nat \<Rightarrow> nat) \<Rightarrow> nat \<Rightarrow> nat \<Rightarrow> vm \<Rightarrow> driver \<Rightarrow> (vm \<times> driver) res option" where
  "worker_turn H usable n k v w =
     (case worker_take w of
        Inl f \<Rightarrow> Some (Inl f)
      | Inr (W_working a i, w) \<Rightarrow>
          map_option (\<lambda>r. rbind r (\<lambda>(v, w). rbind (worker_finish a w) (\<lambda>w. Inr (v, w)))) (handle_item H usable n k v i w)
      | Inr (_, w) \<Rightarrow> Some (Inl Blocked))"

text \<open>The steps of the pool, on the states of the workers and the driver. \<open>work\<close> is the part of a turn
  between taking an item and freeing it: it may be anything that leaves the queue alone and raises the
  stop flag only for \<open>QUEUE_STOP\<close>.\<close>

inductive pool_step :: "wstate list \<times> driver \<Rightarrow> wstate list \<times> driver \<Rightarrow> bool" where
  check: "j < length ws \<Longrightarrow> ws ! j = W_check \<Longrightarrow> pool_step (ws, w) (ws[j := worker_check w], w)"
| take: "j < length ws \<Longrightarrow> ws ! j = W_waiting \<Longrightarrow> worker_take w = Inr (st, w') \<Longrightarrow> pool_step (ws, w) (ws[j := st], w')"
| finish: "j < length ws \<Longrightarrow> ws ! j = W_working a i \<Longrightarrow> t_queue w1 = t_queue w \<Longrightarrow>
    t_stop w1 = (t_stop w \<or> i = QUEUE_STOP) \<Longrightarrow> worker_finish a w1 = Inr w' \<Longrightarrow> pool_step (ws, w) (ws[j := W_check], w')"

inductive pool_run :: "wstate list \<times> driver \<Rightarrow> wstate list \<times> driver \<Rightarrow> bool" where
  refl: "pool_run c c"
| step: "pool_run c c1 \<Longrightarrow> pool_step c1 c2 \<Longrightarrow> pool_run c c2"

inductive_cases pool_stepE: "pool_step (ws, w) (ws', w')"

end
