(* ===== verification/Cmoo_Task_Props.thy ===== *)
theory Cmoo_Task_Props
  imports Cmoo_Worker Cmoo_Store_Props Cmoo_Net_Props
begin

text \<open>
  The tasks: the order of the work items, the end of the pool, items whose method does not exist, and
  the way of a connection from the virtual machine through the network and back.
\<close>

section \<open>The queue of work items\<close>

definition next_item :: "driver \<Rightarrow> (task_item option \<times> driver) res" where
  "next_item w = rbind (worker_take w) (\<lambda>(st, w). Inr (case st of W_working a i \<Rightarrow> Some i | _ \<Rightarrow> None, w))"

lemma worker_take_holds:
  assumes "chain_at (t_queue w) as xs"
  shows "case as of
      [] \<Rightarrow> xs = [] \<and> worker_take w = Inr (W_waiting, w)
    | a # bs \<Rightarrow> \<exists>x ys q. xs = x # ys \<and> worker_take w = Inr (W_working a x, w\<lparr>t_queue := q\<rparr>) \<and> chain_at q bs ys \<and> a \<notin> set bs \<and>
        heap_get (nodes q) a = Inr \<lparr>elem = x, nxt = None\<rparr>"
proof (cases as)
  case Nil
  then have "xs = []" "front (t_queue w) = None" using assms by (cases xs; auto simp: chain_at_def)+
  then show ?thesis using Nil by (simp add: worker_take_def chain_take_def)
next
  case (Cons a bs)
  then obtain x ys where xs: "xs = x # ys" using assms by (cases xs) (auto simp: chain_at_def)
  then show ?thesis using chain_take_at [of "t_queue w" a bs x ys] assms Cons by (auto simp: worker_take_def)
qed

interpretation items: fifo "\<lambda>w xs. holds (t_queue w) xs" tasks_enqueue_item next_item
proof (unfold_locales, goal_cases)
  case (1 w xs i)
  then show ?case using chain_add_holds [of "t_queue w" xs i] by (auto simp: tasks_enqueue_item_def)
next
  case (2 w xs)
  then obtain as where "chain_at (t_queue w) as xs" by (auto simp: holds_def)
  from worker_take_holds [OF this] 2 show ?case
    by (cases as) (auto simp: next_item_def holds_def)
qed

text \<open>C34: the work items. Whatever the interleaving of the callbacks of the network, which put items
  into the queue, and of the workers, which take them out, no access goes wrong and the items that
  have been handed out, followed by those that are still in the queue, are the items that were there
  followed by the new ones, in the order of their arrival.\<close>

theorem work_items_in_order:
  assumes "holds (t_queue w) xs"
  shows "\<exists>ys w' zs. items.run ops w = Inr (ys, w') \<and> holds (t_queue w') zs \<and> ys @ zs = xs @ items.added ops"
  using assms by (rule items.run_fifo)

definition sample_driver :: driver where
  "sample_driver = tasks_new_ctx (store_new \<lparr>objects = []\<rparr> 4 8 \<lparr>objs = [], lobjs = []\<rparr> \<lparr>cells = Map.empty, avail = []\<rparr>) net_new_ctx [64, 80]"

lemma sample_driver_queue: "t_queue sample_driver = chain_new"
  by (simp add: sample_driver_def tasks_new_ctx_def driver.defs store.defs)

theorem work_items_in_order_witness:
  "\<exists>w'. items.run [Enq (QUEUE_ACCEPT 64 7), Enq (QUEUE_READ 64 [104, 105] 7), Deq, Enq (QUEUE_CLOSED 64 7), Deq] sample_driver
       = Inr ([QUEUE_ACCEPT 64 7, QUEUE_READ 64 [104, 105] 7], w') \<and>
     holds (t_queue w') [QUEUE_CLOSED 64 7]"
proof -
  let ?ops = "[Enq (QUEUE_ACCEPT 64 7), Enq (QUEUE_READ 64 [104, 105] 7), Deq, Enq (QUEUE_CLOSED 64 7), Deq]"
  have "holds (t_queue sample_driver) []" by (simp add: sample_driver_queue holds_new)
  from work_items_in_order [OF this, of ?ops] obtain ys w' zs where r: "items.run ?ops sample_driver = Inr (ys, w')" "holds (t_queue w') zs"
      "ys @ zs = [QUEUE_ACCEPT 64 7, QUEUE_READ 64 [104, 105] 7, QUEUE_CLOSED 64 7]" by auto
  have "ys = [QUEUE_ACCEPT 64 7, QUEUE_READ 64 [104, 105] 7]"
    using r(1) by (simp add: next_item_def tasks_enqueue_item_def worker_take_def sample_driver_queue chain_simps heap_get_def heap_put_def)
  then show ?thesis using r by auto
qed

section \<open>The end of the pool\<close>

definition waiting :: "wstate list \<Rightarrow> nat" where
  "waiting ws = length (filter (\<lambda>st. st = W_waiting) ws)"

lemma waiting_upd:
  "j < length ws \<Longrightarrow> waiting (ws[j := st]) + of_bool (ws ! j = W_waiting) = waiting ws + of_bool (st = W_waiting)"
proof (induction ws arbitrary: j)
  case (Cons x ws)
  then show ?case by (cases j) (auto simp: waiting_def split: if_splits)
qed simp

text \<open>A worker works on an item that is not in the queue any more.\<close>

definition taken_out :: "wstate list \<Rightarrow> nat list \<Rightarrow> bool" where
  "taken_out ws as \<longleftrightarrow> (\<forall>a i. W_working a i \<in> set ws \<longrightarrow> a \<notin> set as)"

lemma taken_out_upd: "taken_out ws as \<Longrightarrow> (\<forall>a i. st = W_working a i \<longrightarrow> a \<notin> set as) \<Longrightarrow> taken_out (ws[j := st]) as"
  by (auto simp: taken_out_def dest!: set_update_subset_insert [THEN subsetD])

text \<open>Each worker that leaves the wait loop has used up an item of the queue.\<close>

lemma pool_step_waiting:
  assumes "pool_step (ws, w) (ws', w')" "chain_at (t_queue w) as xs" "taken_out ws as"
  shows "\<exists>as' xs'. chain_at (t_queue w') as' xs' \<and> taken_out ws' as' \<and> waiting ws + length xs' \<le> waiting ws' + length xs"
  using assms(1)
proof (cases rule: pool_stepE [consumes 1, case_names check take finish])
  case (check j)
  show ?thesis using check assms(2,3) waiting_upd [of j ws "worker_check w"] taken_out_upd [OF assms(3), of "worker_check w" j]
    by (intro exI [of _ as] exI [of _ xs]) (auto simp: worker_check_def)
next
  case (take j st)
  show ?thesis
  proof (cases as)
    case Nil
    then have "st = W_waiting" "w' = w" using worker_take_holds [OF assms(2)] take(4) by auto
    then show ?thesis using take assms(2,3) waiting_upd [of j ws st] taken_out_upd [OF assms(3), of st j] by auto
  next
    case (Cons a bs)
    then obtain x ys q where t: "xs = x # ys" "st = W_working a x" "w' = w\<lparr>t_queue := q\<rparr>" "chain_at q bs ys" "a \<notin> set bs"
      using worker_take_holds [OF assms(2)] take(4) by auto
    have "taken_out ws bs" using assms(3) Cons by (auto simp: taken_out_def)
    then have "taken_out ws' bs" using taken_out_upd [of ws bs st j] t take(1) by auto
    then show ?thesis using t take(1-3) waiting_upd [of j ws st] by (intro exI [of _ bs] exI [of _ ys]) auto
  qed
next
  case (finish j a i w1)
  obtain n where n: "heap_get (nodes (t_queue w)) a = Inr n" "chain_free a (t_queue w) = Inr (t_queue w')"
    using finish(4,6) by (auto simp: worker_finish_def chain_free_def elim!: rbind_InrE)
  have "a \<notin> set as" using assms(3) finish(2,3) unfolding taken_out_def by (metis nth_mem)
  then have "chain_at (t_queue w') as xs" using chain_free_at [OF assms(2) _ n(1)] n(2) by auto
  then show ?thesis using finish(1-3) waiting_upd [of j ws W_check] taken_out_upd [OF assms(3), of W_check j]
    by (intro exI [of _ as] exI [of _ xs]) auto
qed

lemma pool_run_waiting:
  assumes "pool_run c c'" "chain_at (t_queue (snd c)) as xs" "taken_out (fst c) as"
  shows "\<exists>as' xs'. chain_at (t_queue (snd c')) as' xs' \<and> taken_out (fst c') as' \<and>
    waiting (fst c) + length xs' \<le> waiting (fst c') + length xs"
  using assms
proof (induction rule: pool_run.induct)
  case (step c c1 c2)
  then obtain as1 xs1 where i: "chain_at (t_queue (snd c1)) as1 xs1" "taken_out (fst c1) as1"
      "waiting (fst c) + length xs1 \<le> waiting (fst c1) + length xs" by blast
  have s: "pool_step (fst c1, snd c1) (fst c2, snd c2)" using step.hyps(2) by simp
  obtain as2 xs2 where "chain_at (t_queue (snd c2)) as2 xs2" "taken_out (fst c2) as2"
      "waiting (fst c1) + length xs2 \<le> waiting (fst c2) + length xs1"
    using pool_step_waiting [OF s i(1,2)] by blast
  then show ?case using i(3) by (intro exI [of _ as2] exI [of _ xs2]) auto
qed auto

text \<open>If the queue was empty and more than one worker was waiting, one of them waits for ever after \<^verbatim>\<open>tasks_stop\<close>.\<close>

lemma tasks_stop_hangs:
  assumes "holds (t_queue w) []" and "tasks_stop w = Inr w1" and "1 < waiting ws"
    and "\<forall>a i. W_working a i \<notin> set ws" and "pool_run (ws, w1) (ws', w')"
  shows "\<exists>j < length ws'. ws' ! j = W_waiting"
proof -
  have "holds (t_queue w1) [QUEUE_STOP]"
    using chain_add_holds [OF assms(1), of QUEUE_STOP] assms(2) by (auto simp: tasks_stop_def tasks_enqueue_item_def)
  then obtain as where "chain_at (t_queue (snd (ws, w1))) as [QUEUE_STOP]" by (auto simp: holds_def)
  moreover have "taken_out (fst (ws, w1)) as" using assms(4) by (simp add: taken_out_def)
  ultimately have "0 < waiting ws'" using pool_run_waiting [OF assms(5)] assms(3) by fastforce
  then have "W_waiting \<in> set ws'" by (auto simp: waiting_def filter_empty_conv)
  then show ?thesis by (auto simp: in_set_conv_nth)
qed

lemma tasks_stop_run:
  "\<exists>w1 w'. tasks_stop sample_driver = Inr w1 \<and> pool_run ([W_waiting, W_waiting], w1) ([W_returned, W_waiting], w')"
proof -
  have e: "holds (t_queue sample_driver) []" by (simp add: sample_driver_queue holds_new)
  obtain w1 where w1: "tasks_stop sample_driver = Inr w1" "holds (t_queue w1) [QUEUE_STOP]"
    using chain_add_holds [OF e, of QUEUE_STOP] by (auto simp: tasks_stop_def tasks_enqueue_item_def)
  then obtain as where c: "chain_at (t_queue w1) as [QUEUE_STOP]" by (auto simp: holds_def)
  then obtain a where as: "as = [a]" by (cases as; cases "tl as") (auto simp: chain_at_def)
  then obtain q where t: "worker_take w1 = Inr (W_working a QUEUE_STOP, w1\<lparr>t_queue := q\<rparr>)"
      "heap_get (nodes q) a = Inr \<lparr>elem = QUEUE_STOP, nxt = None\<rparr>"
    using worker_take_holds [OF c] by auto
  let ?w2 = "w1\<lparr>t_queue := q, t_stop := True\<rparr>"
  obtain w' where w': "worker_finish a ?w2 = Inr w'" "t_stop w'" using t(2) by (simp add: worker_finish_def chain_free_def)
  have "pool_step ([W_waiting, W_waiting], w1) ([W_working a QUEUE_STOP, W_waiting], w1\<lparr>t_queue := q\<rparr>)"
    using pool_step.take [of 0 "[W_waiting, W_waiting]" w1] t(1) by simp
  moreover have "pool_step ([W_working a QUEUE_STOP, W_waiting], w1\<lparr>t_queue := q\<rparr>) ([W_check, W_waiting], w')"
    using pool_step.finish [of 0 "[W_working a QUEUE_STOP, W_waiting]" a QUEUE_STOP ?w2 "w1\<lparr>t_queue := q\<rparr>" w'] w'(1) by simp
  moreover have "pool_step ([W_check, W_waiting], w') ([W_returned, W_waiting], w')"
    using pool_step.check [of 0 "[W_check, W_waiting]" w'] w'(2) by (simp add: worker_check_def)
  ultimately have r: "pool_run ([W_waiting, W_waiting], w1) ([W_returned, W_waiting], w')" by (blast intro: pool_run.intros)
  then show ?thesis using w1(1) r by blast
qed

section \<open>Methods that do not exist\<close>








text \<open>The objects with an id have no method of a name, and no parents.\<close>

definition lacks :: "'a store_scheme \<Rightarrow> object_id \<Rightarrow> cstring \<Rightarrow> bool" where
  "lacks w oid name \<longleftrightarrow> (\<forall>a ob. heap_get (objs (heap w)) a = Inr ob \<longrightarrow> obj_get_id ob = oid \<longrightarrow>
     slot_find (methods ob) name = None \<and> obj_get_parent_count ob = 0)"

lemma lacks_same: "same_data w w' \<Longrightarrow> lacks w' oid name = lacks w oid name"
  by (simp add: lacks_def same_data_def)















section \<open>From the virtual machine to the network and back\<close>

text \<open>One turn of the network thread over a queue of one request.\<close>

lemma queue_loop_one:
  assumes "holds (n_queue n) [rq]"
  shows "\<exists>a q q'. chain_take (n_queue n) = Inr (Some (a, rq), q) \<and> chain_free a q = Inr q' \<and> holds q' [] \<and>
    (\<forall>n'. handle_request (case rq of NEW_LISTENER port _ _ _ _ \<Rightarrow> os (n\<lparr>n_queue := q\<rparr>) port | _ \<Rightarrow> os (n\<lparr>n_queue := q\<rparr>) 0) rq (n\<lparr>n_queue := q\<rparr>) = Inr n'
       \<longrightarrow> queue_event_callback os n = Inr (n'\<lparr>n_queue := q'\<rparr>))"
proof -
  obtain as where c: "chain_at (n_queue n) as [rq]" using assms by (auto simp: holds_def)
  then obtain a where as: "as = [a]" by (cases as; cases "tl as") (auto simp: chain_at_def)
  obtain q where q: "chain_take (n_queue n) = Inr (Some (a, rq), q)" "chain_at q [] []" "heap_get (nodes q) a = Inr \<lparr>elem = rq, nxt = None\<rparr>"
    using chain_take_at [of "n_queue n" a "[]" rq "[]"] c as by auto
  obtain q' where q': "chain_free a q = Inr q'" "chain_at q' [] []" using chain_free_at [OF q(2) _ q(3)] by auto
  have e: "chain_take q' = Inr (None, q')" using q'(2) by (simp add: chain_at_def chain_take_def)
  have "queue_event_callback os n = Inr (n'\<lparr>n_queue := q'\<rparr>)"
    if h: "handle_request (case rq of NEW_LISTENER port _ _ _ _ \<Rightarrow> os (n\<lparr>n_queue := q\<rparr>) port | _ \<Rightarrow> os (n\<lparr>n_queue := q\<rparr>) 0) rq (n\<lparr>n_queue := q\<rparr>) = Inr n'" for n'
  proof -
    have "n_queue n' = q" using handle_request_queue [OF h] by simp
    then show ?thesis
      unfolding queue_event_callback_def
      by (subst queue_loop.simps) (simp add: q(1) h q'(1) Let_def queue_loop.simps [of os "n'\<lparr>n_queue := q'\<rparr>"] e)
  qed
  then show ?thesis using q q' unfolding holds_def by blast
qed

definition os_listens :: "os_listen \<Rightarrow> bool" where
  "os_listens os \<longleftrightarrow> r_socket os \<noteq> - 1 \<and> r_setsockopt os \<noteq> - 1 \<and> r_bind os \<noteq> - 1 \<and> r_listen os \<noteq> - 1"

text \<open>C36: a connection. When code makes the system call \<^verbatim>\<open>net_make_listener\<close> with a port and an object and the
  operating system lets the network thread listen there, then every connection that is accepted becomes a socket with
  two references, and a work item that names the socket and this very object, behind the items that are already in
  the queue.\<close>

theorem connection_reaches_object:
  assumes "val_at c (sp c - 1) = Inr (val_make_int port)" and "val_at c (sp c) = Inr oref" and "val_make_objref oid = Inr oref"
    and "holds (n_queue (net w)) []" and "holds (t_queue w) is" and "\<forall>n. os_listens (os n port)"
  shows "\<exists>e w1 w2 l fd. find_syscall 2 (lit ''net_make_listener'') (syscalls vm_new) = Some e \<and>
    invoke_syscall (syscall_table_set_ctx (Some tc) vm_new) e 2 (c, w) = Inr (c, w1) \<and>
    net_step (queue_event_callback os) w1 = Inr w2 \<and> listeners (net w2) = l # listeners (net w) \<and>
    last (io (net w2)) = Start_accept fd l \<and> holds (n_queue (net w2)) [] \<and>
    (\<forall>fd s. \<exists>w3 k. net_step (net_accept_cb l fd s) w2 = Inr w3 \<and> holds (t_queue w3) (is @ [QUEUE_ACCEPT s oid]) \<and>
       socks (net w3) s = Some k \<and> sk_fd k = fd \<and> refcount k = 2 \<and> s \<in> set (open_sockets (net w3)))"
proof -
  let ?rq = "NEW_LISTENER port (Some TASKS_LISTEN_ERROR_CB) (Some TASKS_ACCEPT_CB) TASKS_CTX oid"
  obtain q where q: "chain_add ?rq (n_queue (net w)) = Inr q" "holds q [?rq]" using chain_add_holds [OF assms(4)] by auto
  let ?n1 = "does [Async_send] ((net w)\<lparr>n_queue := q\<rparr>)" let ?w1 = "w\<lparr>net := ?n1\<rparr>"
  let ?e = "\<lparr>se_arity = 2, se_name = lit ''net_make_listener'', se_func = (\<lambda>p vs. syscall_net_make_listener p (vs ! 0) (vs ! 1))\<rparr>"
  have e: "find_syscall 2 (lit ''net_make_listener'') (syscalls vm_new) = Some ?e"
    by (simp add: vm_new_def syscall_table_add_a1_def syscall_table_add_a2_def syscall_table_add_a3_def syscall_table_add_def
        syscall_table_new_def cstr_def lit_def)
  have call: "invoke_syscall (syscall_table_set_ctx (Some tc) vm_new) ?e 2 (c, w) = Inr (c, ?w1)"
    using assms(1,2) val_get_objref_make [OF assms(3)] q(1)
    by (simp add: invoke_syscall_def syscall_args_def syscall_table_set_ctx_def syscall_net_make_listener_def with_tasks_def
        tasks_net_make_listener_def on_net_def net_make_listener_def net_enqueue_item_def)
  have "holds (n_queue ?n1) [?rq]" using q(2) by simp
  then obtain q1 q2 where q2: "holds q2 []"
    and h: "\<forall>n'. handle_request (os (?n1\<lparr>n_queue := q1\<rparr>) port) ?rq (?n1\<lparr>n_queue := q1\<rparr>) = Inr n' \<longrightarrow>
        queue_event_callback os ?n1 = Inr (n'\<lparr>n_queue := q2\<rparr>)"
    using queue_loop_one [of ?n1 ?rq os] by (simp only: request.case) blast
  let ?n2 = "?n1\<lparr>n_queue := q1\<rparr>" let ?fd = "r_socket (os ?n2 port)" let ?l = "length (lctxs (net w))"
  let ?lc = "\<lparr>l_port = port, l_fd = ?fd, accept_callback = Some TASKS_ACCEPT_CB, l_data1 = TASKS_CTX, l_data2 = oid\<rparr>"
  let ?n3 = "does [Start_accept ?fd ?l] (?n2\<lparr>lctxs := lctxs (net w) @ [Some ?lc], listeners := ?l # listeners (net w)\<rparr>)"
  have "os_listens (os ?n2 port)" using assms(6) by blast
  then have "handle_request (os ?n2 port) ?rq ?n2 = Inr ?n3"
    by (simp add: handle_request_def make_listener_def os_listens_def does_def Let_def)
  then have t: "queue_event_callback os ?n1 = Inr (?n3\<lparr>n_queue := q2\<rparr>)" using h by blast
  let ?w2 = "w\<lparr>net := ?n3\<lparr>n_queue := q2\<rparr>\<rparr>"
  have s2: "net_step (queue_event_callback os) ?w1 = Inr ?w2"
    using t by (simp add: net_step_def call_back_up_def)
  have acc: "\<exists>w3 k. net_step (net_accept_cb ?l fd s) ?w2 = Inr w3 \<and> holds (t_queue w3) (is @ [QUEUE_ACCEPT s oid]) \<and>
       socks (net w3) s = Some k \<and> sk_fd k = fd \<and> refcount k = 2 \<and> s \<in> set (open_sockets (net w3))" for fd s
  proof -
    obtain tq where tq: "chain_add (QUEUE_ACCEPT s oid) (t_queue w) = Inr tq" "holds tq (is @ [QUEUE_ACCEPT s oid])"
      using chain_add_holds [OF assms(5)] by blast
    then show ?thesis
      by (simp add: net_step_def net_accept_cb_def heap_get_def nth_append does_def sock_put_def Let_def call_back_up_def
          tasks_accept_cb_def tasks_enqueue_item_def)
  qed
  have rest: "listeners (net ?w2) = ?l # listeners (net w)" "last (io (net ?w2)) = Start_accept ?fd ?l" "holds (n_queue (net ?w2)) []"
    using q2 by (simp_all add: does_def)
  show ?thesis
    by (rule exI [of _ ?e], rule exI [of _ ?w1], rule exI [of _ ?w2], rule exI [of _ ?l], rule exI [of _ ?fd])
      (intro conjI allI e call s2 rest acc)
qed

definition listen_ctx :: "driver eval_ctx" where
  "listen_ctx = (eval_new_ctx 0 0)\<lparr>stack := [CVal 0, CVal (val_make_int 4444), CVal 117], sp := 2\<rparr>"

definition willing_os :: os_listen where
  "willing_os = \<lparr>r_socket = 3, r_setsockopt = 0, r_bind = 0, r_listen = 0, r_errno = 0\<rparr>"

theorem connection_reaches_object_witness:
  "\<exists>e w1 w2 l w3. find_syscall 2 (lit ''net_make_listener'') (syscalls vm_new) = Some e \<and>
     invoke_syscall (syscall_table_set_ctx (Some 0) vm_new) e 2 (listen_ctx, sample_driver) = Inr (listen_ctx, w1) \<and>
     net_step (queue_event_callback (\<lambda>_ _. willing_os)) w1 = Inr w2 \<and> net_step (net_accept_cb l 5 64) w2 = Inr w3 \<and>
     holds (t_queue w3) [QUEUE_ACCEPT 64 7]"
proof -
  have v: "val_at listen_ctx (sp listen_ctx - 1) = Inr (val_make_int 4444)" "val_at listen_ctx (sp listen_ctx) = Inr 117"
    by (simp_all add: listen_ctx_def val_at_def cell_get_def)
  have o: "val_make_objref 7 = Inr 117" by code_simp
  have q: "holds (n_queue (net sample_driver)) []" "holds (t_queue sample_driver) []"
    by (simp_all add: sample_driver_def tasks_new_ctx_def driver.defs store.defs net_new_ctx_def holds_new)
  have os: "\<forall>n. os_listens ((\<lambda>_ _. willing_os) n (4444 :: 32 word))" by (simp add: os_listens_def willing_os_def)
  from connection_reaches_object [OF v o q os, of 0] show ?thesis by fastforce
qed

end
