(* ===== verification/Cmoo_Eval_Store.thy ===== *)
theory Cmoo_Eval_Store
  imports Cmoo_Eval_Types
begin

text \<open>
  What the virtual machine does to the store. The interface \<open>store_client\<close> is a property \<open>J\<close> of the store
  that each of the operations the machine calls keeps; then each instruction, each search for a method and
  each run keeps it. Other threads run while a lock is waited for: \<open>others\<close> says what is assumed of them.
\<close>

section \<open>The interface\<close>

text \<open>A machine in such a store, with the table of system calls \<open>t\<close>.\<close>

definition runs :: "('w \<Rightarrow> bool) \<Rightarrow> 'w syscall_table option \<Rightarrow> 'w st \<Rightarrow> bool" where
  "runs J t s \<longleftrightarrow> J (snd s) \<and> ev_syscalls (fst s) = t"

definition table_keeps :: "('w \<Rightarrow> bool) \<Rightarrow> 'w syscall_table option \<Rightarrow> bool" where
  "table_keeps J t \<longleftrightarrow> (\<forall>tb e p vs w r w'. t = Some tb \<longrightarrow> e \<in> set (syscalls tb) \<longrightarrow> J w \<longrightarrow>
     se_func e p vs w = Inr (r, w') \<longrightarrow> J w')"

lemma runs_simps [simp]:
  "runs J t (c\<lparr>sp := i\<rparr>, w) = runs J t (c, w)" "runs J t (c\<lparr>fp := i\<rparr>, w) = runs J t (c, w)"
  "runs J t (c\<lparr>cur_obj := ob\<rparr>, w) = runs J t (c, w)" "runs J t (c\<lparr>dbg_trace := d\<rparr>, w) = runs J t (c, w)"
  "runs J t (c\<lparr>stack := st\<rparr>, w) = runs J t (c, w)"
  by (simp_all add: runs_def)

lemma runs_call_back [simp]: "runs J t (call_back v s) = runs J t s"
  by (cases s) (simp add: call_back_def)

lemma cell_put_runs: "cell_put i x c = Inr c' \<Longrightarrow> runs J t (c', w) = runs J t (c, w)"
  by (auto simp: cell_put_def split: if_splits)

text \<open>Operations that do not change the state.\<close>

lemma pure_step: "(\<And>x. m = Inr x \<Longrightarrow> safe {} P (k x)) \<Longrightarrow> safe {} P (rbind m k)"
  by (cases m) auto

lemma keep_split:
  "(\<And>a b. x = (a, b) \<Longrightarrow> safe {} P (k a b)) \<Longrightarrow> safe {} P (case x of (a, b) \<Rightarrow> k a b)"
  "(\<And>a b. x = (a, b) \<Longrightarrow> safe {} P (l a b y)) \<Longrightarrow> safe {} P ((case x of (a, b) \<Rightarrow> l a b) y)"
  by (cases x; simp)+

lemma keep_if: "(b \<Longrightarrow> safe {} P m) \<Longrightarrow> (\<not> b \<Longrightarrow> safe {} P n) \<Longrightarrow> safe {} P (if b then m else n)"
  by simp

lemma keep_option: "(x = None \<Longrightarrow> safe {} P m) \<Longrightarrow> (\<And>y. x = Some y \<Longrightarrow> safe {} P (n y)) \<Longrightarrow> safe {} P (case x of None \<Rightarrow> m | Some y \<Rightarrow> n y)"
  by (cases x) auto

locale store_client =
  fixes J :: "'a store_scheme \<Rightarrow> bool" and others :: "('a store_scheme \<Rightarrow> 'a store_scheme option) \<Rightarrow> bool"
  assumes strings: "J w \<Longrightarrow> J (w\<lparr>strs := h\<rparr>)"
    and get_object: "others env \<Longrightarrow> J w \<Longrightarrow> store_get_object env tx oid w = Inr (r, w') \<Longrightarrow> J w'"
    and make_object: "others env \<Longrightarrow> J w \<Longrightarrow> store_make_object env tx pid w = Inr (lo, w') \<Longrightarrow> J w'"
    and locking: "others env \<Longrightarrow> J w \<Longrightarrow> lock_lock env l m tx w = Inr (code, w') \<Longrightarrow> J w'"
    and set_global: "J w \<Longrightarrow> set_global_at a n v (heap w, strs w) = Inr (oh, sh) \<Longrightarrow> J (w\<lparr>heap := oh, strs := sh\<rparr>)"
begin

section \<open>Cells and registers\<close>

lemma runs_strs: "runs J t (c, w) \<Longrightarrow> runs J t (c, w\<lparr>strs := h\<rparr>)"
  by (simp add: runs_def strings)

lemma cell_set_runs: "runs J t s \<Longrightarrow> safe {} (runs J t) (cell_set i v s)"
  by (cases s) (auto simp: cell_set_def cell_put_runs intro!: pure_step)

lemma reg_set_runs: "runs J t s \<Longrightarrow> safe {} (runs J t) (reg_set r v s)"
  unfolding reg_set_def by (rule cell_set_runs)

lemma inc_val_runs: "runs J t s \<Longrightarrow> safe {} (runs J t) (inc_val v s)"
  by (cases s) (auto simp: inc_val_def intro!: pure_step runs_strs)

lemma cell_clear_runs: "runs J t s \<Longrightarrow> safe {} (runs J t) (cell_clear i s)"
  by (cases s) (auto simp: cell_clear_def cell_put_runs res_simps intro!: pure_step intro: runs_strs split: cell.splits)

lemma reg_clear_runs: "runs J t s \<Longrightarrow> safe {} (runs J t) (reg_clear r s)"
  unfolding reg_clear_def by (rule cell_clear_runs)

lemma reg_assign_runs: "runs J t s \<Longrightarrow> safe {} (runs J t) (reg_assign r v s)"
  unfolding reg_assign_def by (rule safe_bind [OF reg_clear_runs reg_set_runs])

lemma drop_cell_runs: "runs J t s \<Longrightarrow> safe {} (runs J t) (drop_cell i x s)"
  by (cases s) (auto simp: drop_cell_def cell_put_runs intro!: pure_step runs_strs)

lemmas changes = reg_assign_runs reg_set_runs reg_clear_runs inc_val_runs cell_set_runs cell_clear_runs drop_cell_runs

text \<open>The rules that follow an operation through its code: first what changes the state, then the rest.\<close>

lemmas change_steps = changes changes [THEN safe_bind]

lemmas pure_steps = keep_split keep_if keep_option pure_step

section \<open>Instructions on registers and the stack\<close>

lemma halt_loop_runs: "runs J t s \<Longrightarrow> safe {} (runs J t) (halt_loop s)"
proof (induction s rule: halt_loop.induct)
  case (1 c w)
  show ?case
    by (subst halt_loop.simps) (use 1 in \<open>auto intro!: safe_bind [OF cell_clear_runs]\<close>)
qed

lemma return_loop_runs: "runs J t s \<Longrightarrow> safe {} (runs J t) (return_loop b s)"
proof (induction b s rule: return_loop.induct)
  case (1 b c w)
  show ?case
    by (subst return_loop.simps) (use 1 in \<open>auto intro!: safe_bind [OF cell_clear_runs]\<close>)
qed

lemma init_locals_runs: "runs J t s \<Longrightarrow> safe {} (runs J t) (init_locals i n s)"
  by (induction i n s rule: init_locals.induct) (auto intro!: safe_bind [OF cell_set_runs])

lemma drop_args_runs: "runs J t s \<Longrightarrow> safe {} (runs J t) (drop_args n s)"
  by (induction n s rule: drop_args.induct) (auto intro!: safe_bind [OF cell_clear_runs])

lemma simple_ops_run:
  assumes "runs J t s"
  shows "safe {} (runs J t) (op_mov d r s)" "safe {} (runs J t) (op_type d r s)" "safe {} (runs J t) (op_length d r s)"
    "safe {} (runs J t) (op_logical_not d r s)" "safe {} (runs J t) (op_clear d s)" "safe {} (runs J t) (op_true d s)"
    "safe {} (runs J t) (op_load_int d n s)" "safe {} (runs J t) (op_load_float d x s)" "safe {} (runs J t) (op_self d s)"
    "safe {} (runs J t) (op_parent d s)" "safe {} (runs J t) (op_debugr H r s)" "safe {} (runs J t) (op_debugi n s)"
  using assms unfolding op_mov_def op_type_def op_length_def op_logical_not_def op_clear_def op_true_def op_load_int_def
    op_load_float_def op_self_def op_parent_def op_debugr_def op_debugi_def
  by - (((rule change_steps pure_steps; assumption?) | (simp; fail))+)

lemma compare_runs: "runs J t s \<Longrightarrow> safe {} (runs J t) (compare_op g d a b s)"
  unfolding compare_op_def by - (((rule change_steps pure_steps; assumption?) | (simp; fail))+)

lemma operand_ops_run:
  assumes "runs J t s"
  shows "safe {} (runs J t) (op_logical_and d a b s)" "safe {} (runs J t) (op_logical_or d a b s)"
    "safe {} (runs J t) (op_eq d a b s)" "safe {} (runs J t) (op_le d a b s)" "safe {} (runs J t) (op_lt d a b s)"
    "safe {} (runs J t) (arith_op g h d a b s)"
  using assms unfolding op_logical_and_def op_logical_or_def op_eq_def op_le_def op_lt_def arith_op_def
  by - (((rule change_steps compare_runs pure_steps; assumption?) | (simp; fail))+)

lemma op_concat_runs: "runs J t s \<Longrightarrow> safe {} (runs J t) (op_concat d a b s)"
  unfolding op_concat_def
  by - (((rule change_steps pure_steps; assumption?) | (simp add: runs_strs; fail))+)

lemma string_ops_run:
  assumes "runs J t s"
  shows "safe {} (runs J t) (op_load_string H r str s)" "safe {} (runs J t) (op_getglobal d n s)"
  using assms by (cases s; auto simp: op_load_string_def op_getglobal_def intro!: pure_step reg_assign_runs runs_strs)+

lemma stack_ops_run:
  assumes "runs J t s"
  shows "safe {} (runs J t) (op_push H r s)" "safe {} (runs J t) (op_pop d s)" "safe {} (runs J t) (op_args_locals n m s)"
proof -
  show "safe {} (runs J t) (op_push H r s)" using assms unfolding op_push_def Let_def
    by - (((rule change_steps pure_steps; assumption?) | (simp; fail))+)
  show "safe {} (runs J t) (op_pop d s)" using assms unfolding op_pop_def
    by - (((rule change_steps pure_steps; assumption?) | (simp; fail))+)
  show "safe {} (runs J t) (op_args_locals n m s)" unfolding op_args_locals_def
    by (rule safe_bind [OF init_locals_runs [OF assms]]) auto
qed

section \<open>Instructions that use the store\<close>

lemma get_object_runs: "others env \<Longrightarrow> J w \<Longrightarrow> safe {} (\<lambda>(r, w'). J w') (store_get_object env tx oid w)"
  by (cases "store_get_object env tx oid w") (auto dest: get_object)

lemma parent_loop_runs:
  assumes "others (h_env H)" "J w" "\<And>p w. J w \<Longrightarrow> safe {} (\<lambda>(r, w'). J w') (search p w)"
  shows "safe {} (\<lambda>(r, w'). J w') (parent_loop H search tx lo idxs r w)"
  using assms(2)
proof (induction idxs arbitrary: r w)
  case (Cons i idxs)
  show ?case unfolding parent_loop.simps
    by (intro keep_if pure_step keep_split safe_bind [OF get_object_runs [OF assms(1) Cons.prems]])
      (auto intro!: safe_bind [OF assms(3)] Cons.IH simp: Cons.prems split: option.splits)
qed simp

lemma get_code_runs: "others (h_env H) \<Longrightarrow> J w \<Longrightarrow> safe {} (\<lambda>(r, w'). J w') (get_code_frames n H lo name tx w)"
  by (induction n arbitrary: lo w) (auto intro!: pure_step parent_loop_runs)

lemma code_lookup_runs: "others (h_env H) \<Longrightarrow> J w \<Longrightarrow> safe {} (\<lambda>(r, w'). J w') (eval_get_code_recursive H lo name tx w)"
  unfolding eval_get_code_recursive_def by (rule get_code_runs)

lemma op_call_runs:
  assumes "others (h_env H)" "runs J t s"
  shows "safe {} (\<lambda>(ip, s'). runs J t s') (op_call H n ip s)"
proof -
  obtain c w where s: "s = (c, w)" by (cases s)
  have w: "J w" "ev_syscalls c = t" using assms(2) by (auto simp: s runs_def)
  have drops: "safe {} (\<lambda>(ip, s'). runs J t s') (rbind (drop_cell i a s) (\<lambda>s. rbind (drop_cell j b s) (\<lambda>s.
      rbind (drop_cell k d s) (\<lambda>(c, w). case code of None \<Rightarrow> Inl Null_deref
        | Some code \<Rightarrow> Inr ((code, 0 :: int), c\<lparr>cur_obj := ob, fp := x\<rparr>, w)))))"
    if "runs J t s" for i a j b k d ob x and code :: "opcode list option" and s :: "'a store_scheme st"
    by (intro safe_bind [OF drop_cell_runs] keep_split keep_option) (use that in auto)
  show ?thesis unfolding op_call_def s prod.case Let_def
    by (intro safe_bind [OF get_object_runs [OF assms(1) w(1)]] safe_bind [OF code_lookup_runs [OF assms(1)]]
        drops keep_split keep_option pure_step)
      (use w in \<open>auto simp: runs_def\<close>)
qed

lemma op_return_runs: "runs J t s \<Longrightarrow> safe {} (\<lambda>(ip, s'). runs J t s') (op_return r s)"
  by (cases s) (auto simp: op_return_def Let_def
      intro!: pure_step [of "reg_val s r" for s] pure_step [of "obj_at c i" for c i] pure_step [of "code_at c i" for c i]
        pure_step [of "se_at c i" for c i] safe_bind [OF cell_set_runs] safe_bind [OF inc_val_runs] safe_bind [OF return_loop_runs])

lemma op_make_obj_runs:
  assumes "others (h_env H)" "runs J t s"
  shows "safe {} (runs J t) (op_make_obj H d p s)"
proof -
  obtain c w where s: "s = (c, w)" by (cases s)
  have w: "J w" "ev_syscalls c = t" using assms(2) by (auto simp: s runs_def)
  have m: "safe {} (\<lambda>(lo, w'). J w') (store_make_object (h_env H) (stx c) pid w)" for pid
    by (cases "store_make_object (h_env H) (stx c) pid w") (auto dest: make_object [OF assms(1) w(1)])
  show ?thesis unfolding op_make_obj_def s prod.case Let_def
    by (intro pure_step safe_bind [OF m] keep_split safe_bind [OF reg_clear_runs] reg_set_runs)
      (use w in \<open>auto simp: runs_def\<close>)
qed

lemma op_setglobal_runs:
  assumes "others (h_env H)" "runs J t s"
  shows "safe {} (\<lambda>(ok, s'). runs J t s') (op_setglobal H n v s)"
proof -
  obtain c w where s: "s = (c, w)" by (cases s)
  have w: "J w" "ev_syscalls c = t" using assms(2) by (auto simp: s runs_def)
  have l: "safe {} (\<lambda>(r, w'). J w') (lock_lock (h_env H) k LOCK_EXCLUSIVE (stx c) w)" for k
    by (cases "lock_lock (h_env H) k LOCK_EXCLUSIVE (stx c) w") (auto dest: locking [OF assms(1) w(1)])
  show ?thesis unfolding op_setglobal_def s prod.case Let_def
    by (intro pure_step keep_option keep_split keep_if safe_bind [OF l])
      (use w in \<open>auto simp: runs_def intro: set_global\<close>)
qed

lemma find_syscall_mem: "find_syscall n name es = Some e \<Longrightarrow> e \<in> set es"
  by (induction es) (auto split: if_splits)

lemma op_syscall_runs:
  assumes "table_keeps J t" "runs J t s"
  shows "safe {} (runs J t) (op_syscall n s)"
proof -
  obtain c w where s: "s = (c, w)" by (cases s)
  have w: "J w" "ev_syscalls c = t" using assms(2) by (auto simp: s runs_def)
  have i: "safe {} (runs J t) (case find_syscall k name (syscalls tb) of Some e \<Rightarrow> invoke_syscall tb e k (c, w) | None \<Rightarrow> Inr (c, w))"
    if "t = Some tb" for tb k name
    using that w assms(1)
    by (auto simp: invoke_syscall_def runs_def table_keeps_def dest: find_syscall_mem intro!: pure_step split: option.splits)
  show ?thesis unfolding op_syscall_def s prod.case Let_def
    by (intro pure_step keep_if keep_split keep_option safe_bind [OF i] drop_args_runs)
      (use w in \<open>auto simp: runs_def\<close>)
qed

section \<open>Whole runs\<close>

lemma go_runs:
  "safe {} P m \<Longrightarrow> safe {} (\<lambda>(tr, s'). P s') (go ip m)" "safe {} (\<lambda>(ip, s'). P s') k \<Longrightarrow> safe {} (\<lambda>(tr, s'). P s') (go_to k)"
  by (cases m; cases k; auto simp: go_def go_to_def split: prod.splits)+

lemma exec_instr_runs:
  assumes "others (h_env H)" "table_keeps J t" "runs J t s"
  shows "safe {} (\<lambda>(tr, s'). runs J t s') (exec_instr H i ip s)"
  by (cases i)
    (use assms in \<open>auto simp: op_add_def op_sub_def op_mul_def op_halt_def
      intro!: go_runs simple_ops_run operand_ops_run op_concat_runs string_ops_run stack_ops_run op_call_runs op_return_runs
        op_make_obj_runs op_syscall_runs pure_step [of "jump_cond r s" for r s] safe_bind [OF op_setglobal_runs] safe_bind [OF halt_loop_runs]\<close>)

theorem eval_step_runs:
  assumes "others (h_env H)" "table_keeps J t" "runs J t s" "eval_step H ip s = Inr (tr, s')"
  shows "runs J t s'"
proof -
  have "safe {} (\<lambda>(tr, s'). runs J t s') (eval_step H ip s)"
    unfolding eval_step_def by (intro pure_step keep_split exec_instr_runs assms)
  then show ?thesis using assms(4) by simp
qed

lemma eval_run_runs:
  assumes "others (h_env H)" "table_keeps J t"
  shows "runs J t s \<Longrightarrow> eval_run H n ip s = Some (Inr (r, s')) \<Longrightarrow> runs J t s'"
  by (induction n arbitrary: ip s)
    (auto split: sum.splits prod.splits transfer.splits dest: eval_step_runs [OF assms])

lemma push_args_runs: "runs J t s \<Longrightarrow> safe {} (runs J t) (push_args vs s)"
proof (induction vs s rule: push_args.induct)
  case (2 v vs s)
  have "safe {} (runs J t) (eval_push_arg v s)" unfolding eval_push_arg_def
    by (intro safe_bind [OF inc_val_runs [OF 2(2)]] keep_split cell_set_runs) simp
  then show ?case using 2(1) by (auto intro: safe_bind)
qed simp

end

end
