(* ===== verification/Cmoo_World.thy ===== *)
theory Cmoo_World
  imports Cmoo_Eval_Store Cmoo_Worker
begin

text \<open>
  What the parts of the program do to the store. The interface \<open>store_user\<close> adds to \<open>store_client\<close> the start and the
  end of a transaction, and that the network and the queues are no business of \<open>J\<close>; then a whole turn of a worker,
  with its retries, and every step of the network thread keeps \<open>J\<close>. \<open>world_run\<close> is the relation of the runs
  of all threads together, cut at the operations of the store.
\<close>

section \<open>Turns of a worker\<close>

text \<open>Tables that differ from the one of \<open>vm_new\<close> in their context only.\<close>

definition vm_ok :: "vm \<Rightarrow> bool" where
  "vm_ok v \<longleftrightarrow> syscalls v = syscalls vm_new"

lemma vm_ok_set_ctx [simp]: "vm_ok (syscall_table_set_ctx p v) = vm_ok v"
  by (simp add: vm_ok_def syscall_table_set_ctx_def)

lemma vm_ok_new: "vm_ok vm_new"
  by (simp add: vm_ok_def)

text \<open>The store inside the state of the program.\<close>

abbreviation store_of :: "driver \<Rightarrow> store" where
  "store_of w \<equiv> store.truncate w"

lemma on_net_store: "on_net f w = Inr w' \<Longrightarrow> store_of w' = store_of w"
  by (auto simp: on_net_def res_simps store.defs)

lemma settle_store: "settle ret tx w = Inr w' \<Longrightarrow> store_of w' = store_of w"
  by (auto simp: settle_def res_simps store.defs split: if_splits)

lemma enqueue_store: "tasks_enqueue_item i w = Inr w' \<Longrightarrow> store_of w' = store_of w"
  by (auto simp: tasks_enqueue_item_def res_simps store.defs)

lemma call_backs_store: "call_backs_up es w = Inr w' \<Longrightarrow> store_of w' = store_of w"
proof (induction es w rule: call_backs_up.induct)
  case (2 e es w)
  obtain w1 where w1: "call_back_up e w = Inr w1" "call_backs_up es w1 = Inr w'" using "2.prems" by (auto elim: rbind_InrE)
  have "store_of w1 = store_of w"
    using w1(1) by (cases e) (auto simp: call_back_up_def tasks_read_cb_def tasks_closed_cb_def tasks_accept_cb_def
        tasks_listen_error_cb_def dest: enqueue_store split: task_cb.splits)
  then show ?case using "2.IH" [OF w1] by simp
qed simp

lemma net_step_store: "net_step f w = Inr w' \<Longrightarrow> store_of w' = store_of w"
  by (auto simp: net_step_def res_simps store.defs dest!: call_backs_store)

lemma worker_take_store: "worker_take w = Inr (st, w') \<Longrightarrow> store_of w' = store_of w"
  by (auto simp: worker_take_def res_simps store.defs split: option.splits)

lemma worker_finish_store: "worker_finish a w = Inr w' \<Longrightarrow> store_of w' = store_of w"
  by (auto simp: worker_finish_def res_simps store.defs)

lemma with_tasks_store: "with_tasks p m = Inr (r, w') \<Longrightarrow> m = Inr w'"
  by (auto simp: with_tasks_def res_simps split: option.splits)

lemma syscalls_store:
  assumes "e \<in> set (syscalls vm_new)" "se_func e p vs w = Inr (r, w')"
  shows "store_of w' = store_of w"
proof -
  have w: "tasks_net_socket_write s a b n w = Inr w' \<Longrightarrow> store_of w' = store_of w" for s a b n
    by (auto simp: tasks_net_socket_write_def res_simps store.defs split: if_splits)
  show ?thesis using assms
    by (auto simp: vm_new_def syscall_table_add_def syscall_table_add_a1_def syscall_table_add_a2_def syscall_table_add_a3_def syscall_table_new_def
        syscall_net_socket_write_def syscall_net_socket_free_def syscall_net_accept_socket_def syscall_net_shutdown_listener_def
        syscall_net_make_listener_def tasks_net_socket_free_def tasks_net_accept_socket_def tasks_net_shutdown_listener_def
        tasks_net_make_listener_def res_simps dest!: with_tasks_store dest: on_net_store w split: list.splits if_splits)
qed

locale store_user = store_client J others for J :: "driver \<Rightarrow> bool" and others +
  assumes start_tx: "J w \<Longrightarrow> store_start_tx w = Inr (tx, w') \<Longrightarrow> J w'"
    and finish_tx: "J w \<Longrightarrow> store_finish_tx tx w = Inr w' \<Longrightarrow> J w'"
    and elsewhere: "J w \<Longrightarrow> store_of w' = store_of w \<Longrightarrow> J w'"
begin

lemma table_vm_keeps: "vm_ok v \<Longrightarrow> table_keeps J (Some v)"
  unfolding table_keeps_def vm_ok_def using syscalls_store elsewhere by (metis option.inject)

lemma get_ctx_keeps:
  assumes "others (h_env H)" "J w" "vm_get_eval_ctx H v oid tid w = Inr (ec, w')"
  shows "J w' \<and> ev_syscalls (ve_eval ec) = Some v"
proof -
  obtain tx w1 lo where "store_start_tx w = Inr (tx, w1)" "store_get_object (h_env H) tx oid w1 = Inr (Some lo, w')"
      "ec = \<lparr>ve_stx = tx, ve_eval = eval_set_syscall_table v (eval_new_ctx tid tx), ve_start = lo, ve_task = tid\<rparr>"
    using assms(3) by (auto simp: vm_get_eval_ctx_def res_simps split: option.splits)
  then show ?thesis using start_tx [OF assms(2)] get_object [OF assms(1)] by (auto simp: eval_set_syscall_table_def)
qed

lemma exec_method_keeps:
  assumes "others (h_env H)" "table_keeps J t" "runs J t s" "eval_exec_method H n lo m args s = Some (Inr (r, s'))"
  shows "runs J t s'"
proof -
  obtain ret code c w where l: "rbind (push_args args s) (\<lambda>(c, w). rbind (val_get_string_data m (strs w)) (\<lambda>name.
      rbind (eval_get_code_recursive H lo name (stx c) w) (\<lambda>(found, w). Inr (found, c, w)))) = Inr ((ret, code), c, w)"
    and e: "s' = (c, w) \<or> (\<exists>cd. eval_run H n cd (c\<lparr>cur_obj := Some lo\<rparr>, w) = Some (Inr (r, s')))"
    using assms(4) by (auto simp: eval_exec_method_def eval_exec_def split: sum.splits if_splits option.splits) blast+
  have "safe {} (\<lambda>(f, s'). runs J t s') (rbind (push_args args s) (\<lambda>(c, w). rbind (val_get_string_data m (strs w)) (\<lambda>name.
      rbind (eval_get_code_recursive H lo name (stx c) w) (\<lambda>(found, w). Inr (found, c, w)))))"
    by (intro safe_bind [OF push_args_runs [OF assms(3)]] keep_split safe_bind [OF code_lookup_runs [OF assms(1)]] pure_step)
      (auto simp: runs_def)
  then have "runs J t (c, w)" unfolding l by simp
  then have "runs J t (c, w)" "runs J t (c\<lparr>cur_obj := Some lo\<rparr>, w)" by simp_all
  then show ?thesis using e eval_run_runs [OF assms(1,2)] by blast
qed

lemma ctx_exec_keeps:
  assumes "others (h_env H)" "J w" "ev_syscalls (ve_eval ec) = Some v" "vm_ok v"
    and "vm_eval_ctx_exec H n ec m args w = Some (Inr (r, w'))"
  shows "J w'"
proof -
  obtain c1 w1 where e: "eval_exec_method H n (ve_start ec) m args (ve_eval ec, w) = Some (Inr (r, c1, w1))"
      "store_finish_tx (ve_stx ec) w1 = Inr w'"
    using assms(5) by (auto simp: vm_eval_ctx_exec_def res_simps split: sum.splits if_splits)
  have "runs J (Some v) (ve_eval ec, w)" using assms(2,3) by (simp add: runs_def)
  from exec_method_keeps [OF assms(1) table_vm_keeps [OF assms(4)] this e(1)] have "J w1" by (simp add: runs_def)
  then show ?thesis using finish_tx e(2) by blast
qed

lemma vm_init_keeps:
  assumes "others (h_env H)" "J w" "vm_ok v" "vm_init H n tc v w = Some (Inr (v', w'))"
  shows "J w' \<and> vm_ok v'"
proof -
  let ?v = "syscall_table_set_ctx (Some tc) v"
  obtain ec w1 m h a r w2 h2 where g: "vm_get_eval_ctx H ?v 0 0 w = Inr (ec, w1)"
      "vm_eval_ctx_exec H n ec m [a] (w1\<lparr>strs := h\<rparr>) = Some (Inr (r, w2))" "v' = ?v" "w' = w2\<lparr>strs := h2\<rparr>"
    using assms(4) by (auto simp: vm_init_def Let_def res_simps split: sum.splits)
  have j: "J (w1\<lparr>strs := h\<rparr>)" "ev_syscalls (ve_eval ec) = Some ?v" using get_ctx_keeps [OF assms(1,2) g(1)] strings by auto
  from ctx_exec_keeps [OF assms(1) j _ g(2)] show ?thesis using assms(3) g(3,4) strings by simp
qed

lemma item_call_keeps:
  assumes "others (h_env H)" "J w" "vm_ok v" "item_call H n v i tx tid w = Some (Inr (r, w'))"
  shows "J w'"
proof -
  obtain ec w1 m args h w2 h2 b where g: "vm_get_eval_ctx H v (item_object i) tid w = Inr (ec, w1)"
      "vm_eval_ctx_exec H n ec m args (w1\<lparr>strs := h\<rparr>) = Some (Inr (r, w2))" "w' = w2\<lparr>strs := h2, t_stop := b\<rparr>"
    using assms(4) by (auto simp: item_call_def res_simps split: sum.splits)
  have j: "J (w1\<lparr>strs := h\<rparr>)" "ev_syscalls (ve_eval ec) = Some v" using get_ctx_keeps [OF assms(1,2) g(1)] strings by auto
  have "J (w2\<lparr>strs := h2\<rparr>)" using ctx_exec_keeps [OF assms(1) j assms(3) g(2)] strings by blast
  then show ?thesis by (rule elsewhere) (simp add: g(3) store.defs)
qed

lemma attempt_keeps:
  "others (h_env H) \<Longrightarrow> J w \<Longrightarrow> vm_ok v \<Longrightarrow> attempt H n v i tx tid w = Some (Inr (r, v', w')) \<Longrightarrow> J w' \<and> vm_ok v'"
  by (auto simp: attempt_def res_simps split: if_splits dest: vm_init_keeps item_call_keeps)

lemma retry_keeps:
  assumes "others (h_env H)"
  shows "J w \<Longrightarrow> vm_ok v \<Longrightarrow> retry_loop H n k v i tx tid w = Some (Inr (v', w')) \<Longrightarrow> J w' \<and> vm_ok v'"
proof (induction k arbitrary: v w)
  case (Suc k)
  then obtain r v1 w1 w2 where a: "attempt H n v i tx tid w = Some (Inr (r, v1, w1))" "settle r tx w1 = Inr w2"
    and e: "(v' = v1 \<and> w' = w2) \<or> retry_loop H n k v1 i tx tid w2 = Some (Inr (v', w'))"
    by (auto split: option.splits sum.splits if_splits)
  note j = attempt_keeps [OF assms Suc.prems(1,2) a(1)]
  have "J w2" using elsewhere settle_store [OF a(2)] j by blast
  then show ?case using e j Suc.IH by blast
qed simp

lemma handle_item_keeps:
  assumes "others (h_env H)" "J w" "vm_ok v" "handle_item H usable n k v i w = Some (Inr (v', w'))"
  shows "J w' \<and> vm_ok v'"
proof -
  obtain tid tx as t w1 where g: "retry_loop H n k v i tx tid (w\<lparr>task_id_seq := tid + 1, ntx_avail := as, ntxs := t\<rparr>) = Some (Inr (v', w1))"
      "w' = w1\<lparr>ntxs := (ntxs w1)(tx := None)\<rparr>"
    using assms(4) by (auto simp: handle_item_def Let_def res_simps split: list.splits sum.splits)
  have "J (w\<lparr>task_id_seq := tid + 1, ntx_avail := as, ntxs := t\<rparr>)" by (rule elsewhere [OF assms(2)]) (simp add: store.defs)
  from retry_keeps [OF assms(1) this assms(3) g(1)] have j: "J w1" "vm_ok v'" by auto
  have "J w'" by (rule elsewhere [OF j(1)]) (simp add: g(2) store.defs)
  then show ?thesis using j(2) by blast
qed

theorem turn_keeps:
  assumes "others (h_env H)" "J w" "vm_ok v" "worker_turn H usable n k v w = Some (Inr (v', w'))"
  shows "J w' \<and> vm_ok v'"
proof -
  obtain a i w1 w2 where g: "worker_take w = Inr (W_working a i, w1)" "handle_item H usable n k v i w1 = Some (Inr (v', w2))"
      "worker_finish a w2 = Inr w'"
    using assms(4) by (auto simp: worker_turn_def res_simps split: sum.splits wstate.splits)
  have "J w1" by (rule elsewhere [OF assms(2) worker_take_store [OF g(1)]])
  from handle_item_keeps [OF assms(1) this assms(3) g(2)] have "J w2" "vm_ok v'" by auto
  then show ?thesis using elsewhere worker_finish_store [OF g(3)] by blast
qed

end

section \<open>Waiting for a lock\<close>

text \<open>A call of \<^verbatim>\<open>lock_lock\<close> either returns without a wait, or goes on in the state the others have left.\<close>

lemma lock_lock_cases [case_names now later]:
  assumes "lock_lock env l m tx w = Inr (code, w')"
  obtains s where "lock_enter l m tx (lks w) = Inr (Returned code, s)" "w' = w\<lparr>lks := s\<rparr>"
  | r s y s' where "lock_enter l m tx (lks w) = Inr (r, s)" "env (w\<lparr>lks := s\<rparr>) = Some y"
      "(\<exists>g. lock_wait l g tx (lks y) = Inr (Returned code, s')) \<or> (\<exists>g. join_wait l g (lks y) = Inr (Returned code, s'))"
      "w' = y\<lparr>lks := s'\<rparr>"
proof -
  obtain r s where e: "lock_enter l m tx (lks w) = Inr (r, s)" using assms by (auto simp: lock_lock_def elim: rbind_InrE)
  have "\<exists>y s'. env (w\<lparr>lks := s\<rparr>) = Some y \<and> w' = y\<lparr>lks := s'\<rparr> \<and>
      ((\<exists>g. lock_wait l g tx (lks y) = Inr (Returned code, s')) \<or> (\<exists>g. join_wait l g (lks y) = Inr (Returned code, s')))"
    if "\<forall>c. r \<noteq> Returned c"
    using assms e that by (cases r) (auto simp: lock_lock_def res_simps outcome_eq_Inr split: option.splits)
  moreover have "w' = w\<lparr>lks := s\<rparr>" "r = Returned code" if "r = Returned c" for c using assms e that by (auto simp: lock_lock_def)
  ultimately show ?thesis using that e by blast
qed

section \<open>Runs of all threads\<close>

text \<open>One step is an operation of the store by some thread, for some transaction, or anything that leaves the store
  alone: what the network thread does, the queues, the stacks of the machines, and the strings, which belong to the values of one thread
  or are guarded by the locks of the objects. While a thread waits for a lock the others run.\<close>

inductive world_run :: "driver \<Rightarrow> driver \<Rightarrow> bool" where
  refl: "world_run w w"
| strings: "world_run w w1 \<Longrightarrow> world_run w (w1\<lparr>strs := h\<rparr>)"
| elsewhere: "world_run w w1 \<Longrightarrow> store_of w2 = store_of w1 \<Longrightarrow> world_run w w2"
| start: "world_run w w1 \<Longrightarrow> store_start_tx w1 = Inr (tx, w2) \<Longrightarrow> world_run w w2"
| finish: "world_run w w1 \<Longrightarrow> store_finish_tx tx w1 = Inr w2 \<Longrightarrow> world_run w w2"
| get: "world_run w w1 \<Longrightarrow> (\<forall>x y. env x = Some y \<longrightarrow> world_run x y) \<Longrightarrow> store_get_object env tx oid w1 = Inr (r, w2) \<Longrightarrow>
    world_run w w2"
| make: "world_run w w1 \<Longrightarrow> (\<forall>x y. env x = Some y \<longrightarrow> world_run x y) \<Longrightarrow> store_make_object env tx pid w1 = Inr (lo, w2) \<Longrightarrow>
    world_run w w2"
| lock: "world_run w w1 \<Longrightarrow> (\<forall>x y. env x = Some y \<longrightarrow> world_run x y) \<Longrightarrow> lock_lock env l m tx w1 = Inr (code, w2) \<Longrightarrow>
    world_run w w2"
| global: "world_run w w1 \<Longrightarrow> set_global_at a name v (heap w1, strs w1) = Inr (oh, sh) \<Longrightarrow>
    world_run w (w1\<lparr>heap := oh, strs := sh\<rparr>)"

text \<open>What is assumed of the other threads during a wait.\<close>

definition others_run :: "(driver \<Rightarrow> driver option) \<Rightarrow> bool" where
  "others_run env \<longleftrightarrow> (\<forall>x y. env x = Some y \<longrightarrow> world_run x y)"

lemma others_run_alone [simp]: "others_run (\<lambda>_. None)"
  by (simp add: others_run_def)

interpretation world: store_user "world_run w0" others_run for w0
  by unfold_locales (auto intro: world_run.intros simp: others_run_def)

text \<open>So whole turns of workers and steps of the network thread are runs.\<close>

lemma turn_is_run:
  "others_run (h_env H) \<Longrightarrow> vm_ok v \<Longrightarrow> worker_turn H usable n k v w = Some (Inr (v', w')) \<Longrightarrow> world_run w w' \<and> vm_ok v'"
  by (rule world.turn_keeps) (auto intro: world_run.refl)

lemma net_step_is_run: "net_step f w = Inr w' \<Longrightarrow> world_run w w'"
  using net_step_store world_run.elsewhere [OF world_run.refl] by blast

lemma instr_is_run:
  assumes "others_run (h_env H)" "vm_ok v" "ev_syscalls c = Some v" "eval_step H ip (c, w) = Inr (tr, c', w')"
  shows "world_run w w'"
proof -
  have "runs (world_run w) (Some v) (c, w)" using assms(3) by (simp add: runs_def world_run.refl)
  from world.eval_step_runs [OF assms(1) world.table_vm_keeps [OF assms(2)] this assms(4)]
  show ?thesis by (simp add: runs_def)
qed

lemma world_run_trans: "world_run b c \<Longrightarrow> world_run a b \<Longrightarrow> world_run a c"
  by (induction rule: world_run.induct) (blast intro: world_run.intros)+

end
