(* ===== verification/Cmoo_Orderly.thy ===== *)
theory Cmoo_Orderly
  imports Cmoo_World Cmoo_Store_Props
begin

text \<open>
  The locks and the transaction ids in the runs of the whole program: whatever the threads do while one of them waits,
  the locks stay well formed, and the cids in use are those of the live transactions.
\<close>

section \<open>Frames\<close>

definition same_txs :: "lsys \<Rightarrow> lsys \<Rightarrow> bool" where
  "same_txs s s' \<longleftrightarrow> txs s' = txs s \<and> max_tasks s' = max_tasks s"

lemma same_txs_simps [simp]:
  "same_txs s s" "same_txs s (lock_put l lk s') = same_txs s s'" "same_txs s (s'\<lparr>next_wg := n\<rparr>) = same_txs s s'"
  "same_txs (lock_put l lk s) s' = same_txs s s'" "same_txs (s\<lparr>next_wg := n\<rparr>) s' = same_txs s s'"
  "same_txs s (s'\<lparr>wfg_matrix := m\<rparr>) = same_txs s s'"
  "same_txs s (s'\<lparr>tx_by_cid := a, blocked_waitgroup_by_cid := b, blocked_lock_by_cid := d\<rparr>) = same_txs s s'"
  by (auto simp: same_txs_def lock_put_def)

lemma same_txs_trans: "same_txs s s1 \<Longrightarrow> same_txs s1 s2 \<Longrightarrow> same_txs s s2"
  by (simp add: same_txs_def)

lemma wfg_set_txs: "wfg_set x y s = Inr s' \<Longrightarrow> same_txs s s'"
  by (auto simp: wfg_set_def split: if_splits)

lemma wfg_wait_for_txs: "wfg_wait_for tx c es s = Inr s' \<Longrightarrow> same_txs s s'"
proof (induction tx c es s rule: wfg_wait_for.induct)
  case (2 tx c e es s)
  then show ?case by (fastforce simp: rbind_eq_Inr split: if_splits dest: wfg_set_txs intro: same_txs_trans)
qed simp

lemma wfg_released_txs: "wfg_released tx es s = Inr s' \<Longrightarrow> same_txs s s'"
proof (induction tx es s rule: wfg_released.induct)
  case (2 tx e es s)
  then show ?case by (fastforce simp: rbind_eq_Inr dest: wfg_set_txs intro: same_txs_trans)
qed simp

lemma lock_leave_txs: "lock_leave l i tx s = Inr (r, s') \<Longrightarrow> same_txs s s'"
  by (auto simp: lock_leave_def Let_def res_simps split: option.splits if_splits)

lemma lock_wait_txs: "lock_wait l i tx s = Inr (r, s') \<Longrightarrow> same_txs s s'"
  by (auto simp: lock_wait_def res_simps dest: lock_leave_txs split: if_splits)

lemma join_wait_same: "join_wait l i s = Inr (r, s') \<Longrightarrow> s' = s"
  by (auto simp: join_wait_def res_simps split: if_splits)

lemma lock_enqueue_txs:
  assumes "lock_enqueue l m tx lk fg s = Inr (r, s')"
  shows "same_txs s s'"
proof -
  obtain lk' c s2 s3 q s4 where m: "wfg_wait_for tx c (wg_entries fg) (lock_put l lk' (s\<lparr>next_wg := Suc (next_wg s)\<rparr>)) = Inr s2"
      "note_blocked c tx (next_wg s) l s2 = Inr s3" "(case q of None \<Rightarrow> Inr s3 | Some q \<Rightarrow> mark_deadlocked q s3) = Inr s4"
      "lock_wait l (next_wg s) tx s4 = Inr (r, s')"
    using assms unfolding lock_enqueue_def Let_def by (auto elim!: rbind_InrE)
  have "same_txs s2 s3" using m(2) by (auto simp: note_blocked_def res_simps)
  moreover have "same_txs s3 s4" using m(3) by (auto simp: mark_deadlocked_def res_simps split: option.splits)
  moreover have "same_txs s s2" using wfg_wait_for_txs [OF m(1)] by simp
  ultimately show ?thesis using lock_wait_txs [OF m(4)] by (meson same_txs_trans)
qed

lemma lock_enter_same_txs:
  assumes "lock_enter l m tx s = Inr (r, s')"
  shows "same_txs s s'"
proof -
  obtain lk where lk: "heap_get (locks s) l = Inr lk" using assms by (auto simp: lock_enter_def elim: rbind_InrE)
  show ?thesis
  proof (cases "wait_groups lk")
    case Nil
    then show ?thesis using assms lk by (auto simp: lock_enter_def)
  next
    case (Cons g rest)
    have "same_txs s s'" if "lock_join l tx lk i s = Inr (r, s')" for i
      using that join_wait_same by (fastforce simp: lock_join_def Let_def)
    then show ?thesis using assms lk Cons
      by (cases g) (auto simp: lock_enter_def res_simps dest: lock_enqueue_txs split: if_splits option.splits)
  qed
qed

lemma lock_unlock_txs:
  assumes "lock_unlock l tx s = Inr s'"
  shows "same_txs s s'"
proof -
  obtain lk where lk: "heap_get (locks s) l = Inr lk" using assms by (auto simp: lock_unlock_def elim: rbind_InrE)
  show ?thesis using assms lk
    by (cases "wait_groups lk") (auto simp: lock_unlock_def split: if_splits dest!: wfg_released_txs)
qed

section \<open>Waiting in a state that others have changed\<close>

lemma no_adjacent_shared_modes: "map (\<lambda>x. fst (snd x)) q = map (\<lambda>x. fst (snd x)) q' \<Longrightarrow> no_adjacent_shared q = no_adjacent_shared q'"
proof (induction q arbitrary: q' rule: no_adjacent_shared.induct)
  case (1 i m es j m' es' q)
  then obtain i2 es2 j2 es2' r where "q' = (i2, m, es2) # (j2, m', es2') # r" by (cases q'; cases "tl q'") auto
  then show ?case using "1.prems" "1.IH" [of "(j2, m', es2') # r"] by auto
qed (auto simp: Cons_eq_map_conv)

lemma group_ok_shrink: "group_ok (i, m, es) \<Longrightarrow> es' \<noteq> [] \<Longrightarrow> length es' \<le> length es \<Longrightarrow> group_ok (i, m, es')"
  by (cases es') (auto simp: group_ok_def)

lemma queue_ok_shrink:
  assumes "queue_ok n (gview gs)" "\<And>g. (i, g) \<in> set gs \<Longrightarrow> wg_mode (f g) = wg_mode g \<and> wg_entries (f g) \<noteq> [] \<and> length (wg_entries (f g)) \<le> length (wg_entries g)"
  shows "queue_ok n (gview (wg_upd i f gs))"
proof -
  have "map (\<lambda>x. fst (snd x)) (gview (wg_upd i f gs)) = map (\<lambda>x. fst (snd x)) (gview gs)"
    using assms(2) by (induction i f gs rule: wg_upd.induct) auto
  moreover have "list_all group_ok (gview (wg_upd i f gs))"
    using assms unfolding queue_ok_def
    by (induction i f gs rule: wg_upd.induct) (auto intro: group_ok_shrink dest: no_adjacent_shared_tl)
  moreover have "map fst (gview (wg_upd i f gs)) = map fst (gview gs)" by simp
  ultimately show ?thesis
    using assms(1) no_adjacent_shared_modes unfolding queue_ok_def by (metis list.set_map)
qed

lemma lock_wf_upd: "lock_wf (lk\<lparr>wait_groups := wg_upd i f (wait_groups lk)\<rparr>) = lock_wf lk"
  by (simp add: lock_wf_alt Let_def)

lemma lock_leave_wf:
  assumes "locks_wf s" "lock_leave l i tx s = Inr (r, s')"
  shows "locks_wf s'"
proof -
  obtain lk g where lk: "heap_get (locks s) l = Inr lk" "wg_get i (wait_groups lk) = Inr g"
    using assms(2) by (auto simp: lock_leave_def elim!: rbind_InrE)
  have wf: "lock_wf lk" "queue_ok (next_wg s) (gview (wait_groups lk))" using assms(1) lk(1) by (auto simp: locks_wf_def)
  have g: "(i, g) \<in> set (wait_groups lk)" using wg_get_split wf(1) lk(2) by (simp add: lock_wf_def)
  have ne: "wg_entries g \<noteq> []" using g wf(2) by (force simp: queue_ok_def group_ok_def gview_def list_all_iff)
  have uniq: "g' = g" if "(i, g') \<in> set (wait_groups lk)" for g'
    using that wg_get_split [of "wait_groups lk" i g'] wf(1) lk(2) by (simp add: lock_wf_def)
  show ?thesis
  proof (cases "length (wg_entries g) = 1")
    case True
    then obtain x where x: "wg_entries g = [x]" by (auto simp: length_Suc_conv)
    have "x = tx" using assms(2) lk x by (auto simp: lock_leave_def split: if_splits)
    then have "\<exists>f. lock_leave l i tx s = Inl f" using lock_leave_faults [OF lk(1) wf(1) g] x by simp
    then show ?thesis using assms(2) by simp
  next
    case False
    let ?f = "\<lambda>h. h\<lparr>wg_entries := take (length (wg_entries g) - 1) (wg_entries g), wg_deadlocked := None\<rparr>"
    have len: "length (wg_entries g) - 1 \<noteq> 0" using ne False by (cases "wg_entries g") auto
    then have s': "s' = lock_put l (lk\<lparr>wait_groups := wg_upd i ?f (wait_groups lk)\<rparr>) s"
      using assms(2) lk by (auto simp: lock_leave_def Let_def split: option.splits if_splits)
    have "queue_ok (next_wg s) (gview (wg_upd i ?f (wait_groups lk)))"
      by (rule queue_ok_shrink [OF wf(2)]) (use uniq len ne in \<open>auto simp: take_eq_Nil\<close>)
    then show ?thesis unfolding s'
      by (intro locks_wf_put_same [OF assms(1) lk(1)]) (simp_all add: lock_wf_upd wf(1))
  qed
qed

lemma lock_wait_wf: "locks_wf s \<Longrightarrow> lock_wait l i tx s = Inr (r, s') \<Longrightarrow> locks_wf s'"
  by (auto simp: lock_wait_def res_simps dest: lock_leave_wf split: if_splits)

section \<open>Every operation of the store keeps the order\<close>

definition orderly :: "nat \<Rightarrow> 'a store_scheme \<Rightarrow> bool" where
  "orderly n w \<longleftrightarrow> cids_ok w \<and> locks_wf (lks w) \<and> max_tasks (lks w) = n"

lemma cids_ok_same: "same_txs (lks w) (lks w') \<Longrightarrow> cid_used w' = cid_used w \<Longrightarrow> cids_ok w' = cids_ok w"
  by (simp add: cids_ok_def live_tx_def same_txs_def)

lemma orderly_same: "lks w' = lks w \<Longrightarrow> cid_used w' = cid_used w \<Longrightarrow> orderly n w' = orderly n w"
  using cids_ok_same [of w w'] by (simp add: orderly_def)

lemma orderly_lks:
  "orderly n w \<Longrightarrow> same_txs (lks w) s \<Longrightarrow> locks_wf s \<Longrightarrow> orderly n (w\<lparr>lks := s\<rparr>)"
  using cids_ok_same [of w "w\<lparr>lks := s\<rparr>"] by (simp add: orderly_def same_txs_def)

lemma lock_enter_orderly:
  assumes "orderly n w" "lock_enter l m tx (lks w) = Inr (r, s)"
  shows "orderly n (w\<lparr>lks := s\<rparr>)"
proof -
  obtain lk where "heap_get (locks (lks w)) l = Inr lk" using assms(2) by (auto simp: lock_enter_def elim: rbind_InrE)
  then obtain q where "queues (lks w) l = Some q" by (simp add: queues_def)
  then have "locks_wf s" using lock_enter_refines [OF _ _ assms(2)] assms(1) by (simp add: orderly_def)
  then show ?thesis using orderly_lks assms lock_enter_same_txs by blast
qed

lemma lock_lock_orderly:
  assumes "\<And>x y. env x = Some y \<Longrightarrow> orderly n x \<Longrightarrow> orderly n y" "orderly n w" "lock_lock env l m tx w = Inr (code, w')"
  shows "orderly n w'"
  using assms(3)
proof (cases rule: lock_lock_cases)
  case (now s)
  then show ?thesis using lock_enter_orderly assms(2) by blast
next
  case (later r s y s')
  have "orderly n y" using assms(1) [OF later(2)] lock_enter_orderly [OF assms(2) later(1)] by blast
  moreover from this have "locks_wf s'" "same_txs (lks y) s'"
    using later(3) by (auto simp: orderly_def dest: lock_wait_wf lock_wait_txs join_wait_same)
  ultimately show ?thesis unfolding later(4) using \<open>orderly n y\<close> orderly_lks by blast
qed

lemma wrap_object_orderly: "wrap_object a w = Inr (lo, w') \<Longrightarrow> orderly n w \<Longrightarrow> orderly n w'"
proof -
  assume w: "wrap_object a w = Inr (lo, w')" "orderly n w"
  have "lks w' = snd (lock_new (lks w))" "cid_used w' = cid_used w" using w(1) by (auto simp: wrap_object_def lock_new_def Let_def res_simps split: prod.splits)
  moreover have "same_txs (lks w) (snd (lock_new (lks w)))" by (simp add: lock_new_def same_txs_def)
  ultimately show ?thesis using w(2) lock_new_wf [of "lks w"] cids_ok_same [of w w'] by (simp add: orderly_def same_txs_def)
qed

lemma find_cached_orderly: "find_cached oid w = Inr (lo, w') \<Longrightarrow> orderly n w \<Longrightarrow> orderly n w'"
proof -
  assume a: "find_cached oid w = Inr (lo, w')" "orderly n w"
  obtain x c h where g: "cache_get_object oid (s_cache w, heap w) = Inr (x, c, h)" using a(1) by (auto simp: find_cached_def res_simps)
  have w: "orderly n (w\<lparr>s_cache := c, heap := h\<rparr>)" using orderly_same [of "w\<lparr>s_cache := c, heap := h\<rparr>" w] a(2) by simp
  show "orderly n w'"
  proof (cases x)
    case (Some lo)
    then show ?thesis using a(1) g w by (simp add: find_cached_def)
  next
    case None
    then obtain b where "wrap_object b (w\<lparr>s_cache := c, heap := h\<rparr>) = Inr (lo, w')"
      using a(1) g by (auto simp: find_cached_def res_simps split: option.splits)
    from wrap_object_orderly [OF this w] show ?thesis .
  qed
qed

lemma tx_note_orderly:
  assumes "tx_note_locked tx lo w = Inr w'" "orderly n w"
  shows "orderly n w'"
proof -
  obtain t where t: "heap_get (txs (lks w)) tx = Inr t"
      "w' = w\<lparr>lks := (lks w)\<lparr>txs := heap_put tx (t\<lparr>tx_locked := lo # tx_locked t\<rparr>) (txs (lks w))\<rparr>\<rparr>"
    using assms(1) by (auto simp: tx_note_locked_def elim!: rbind_InrE)
  have "live_tx w tx t" "live_tx w' tx (t\<lparr>tx_locked := lo # tx_locked t\<rparr>)" "\<forall>tx' t'. tx' \<noteq> tx \<longrightarrow> live_tx w' tx' t' = live_tx w tx' t'"
    using t(1) by (auto simp: live_tx_def res_simps t(2) heap_put_def)
  then have "cids_ok w'" using cids_ok_note [of w tx t w'] assms(2) by (simp add: t(2) orderly_def)
  then show ?thesis using assms(2) by (simp add: orderly_def t(2) txs_upd_locks)
qed

lemma get_object_orderly:
  assumes "\<And>x y. env x = Some y \<Longrightarrow> orderly n x \<Longrightarrow> orderly n y" "orderly n w" "store_get_object env tx oid w = Inr (r, w')"
  shows "orderly n w'"
proof -
  obtain lo w1 l c w2 where m: "find_cached oid w = Inr (lo, w1)" "lock_lock env l LOCK_SHARED tx w1 = Inr (c, w2)"
    and w': "w' = w2 \<or> tx_note_locked tx lo w2 = Inr w'"
    using assms(3) by (auto simp: store_get_object_def res_simps split: if_splits)
  have w1: "orderly n w1" using find_cached_orderly [OF m(1)] assms(2) by simp
  from lock_lock_orderly [OF assms(1) w1 m(2)] have "orderly n w2" by simp
  then show ?thesis using w' tx_note_orderly by blast
qed

lemma make_object_orderly:
  assumes "\<And>x y. env x = Some y \<Longrightarrow> orderly n x \<Longrightarrow> orderly n y" "orderly n w" "store_make_object env tx pid w = Inr (lo, w')"
  shows "orderly n w'"
proof -
  obtain w0 w1 l c w2 where m: "wrap_object (length (objs (heap w))) w0 = Inr (lo, w1)" "lks w0 = lks w" "cid_used w0 = cid_used w"
      "lock_lock env l LOCK_EXCLUSIVE tx w1 = Inr (c, w2)" "tx_note_locked tx lo w2 = Inr w'"
    using assms(3) by (auto simp: store_make_object_def res_simps Let_def split: if_splits)
  have "orderly n w0" using assms(2) orderly_same [OF m(2,3)] by simp
  then have w1: "orderly n w1" using wrap_object_orderly [OF m(1)] by simp
  from lock_lock_orderly [OF assms(1) w1 m(4)] have "orderly n w2" by simp
  then show ?thesis using tx_note_orderly [OF m(5)] by blast
qed

lemma start_tx_orderly:
  assumes "store_start_tx w = Inr (tx, w')" "orderly n w"
  shows "orderly n w'"
proof -
  obtain c where c: "first_free (cid_used w) = Some c" "c < max_tasks (lks w)"
      "w' = w\<lparr>lks := (lks w)\<lparr>txs := txs (lks w) @ [Some \<lparr>tx_sid = sid_seq w, tx_cid = Some c, tx_locked = []\<rparr>]\<rparr>,
        sid_seq := sid_seq w + 1, cid_used := (cid_used w)[c := True]\<rparr>"
    using assms(1) by (auto simp: store_start_tx_def Let_def res_simps split: option.splits)
  have "cids_ok w'" unfolding c(3) by (rule cids_ok_add) (use assms(2) c(2) first_free_Some [OF c(1)] in \<open>auto simp: orderly_def\<close>)
  then show ?thesis using assms(2) by (simp add: orderly_def c(3) txs_upd_locks)
qed

lemma finish_tx_orderly: "store_finish_tx tx w = Inr w' \<Longrightarrow> orderly n w \<Longrightarrow> orderly n w'"
proof -
  assume a: "store_finish_tx tx w = Inr w'" "orderly n w"
  have ord: "cids_ok w" "locks_wf (lks w)" "max_tasks (lks w) = n" using a(2) by (simp_all add: orderly_def)
  have "max_tasks (lks w') = n" using a(1)
  proof (cases rule: finish_tx_steps)
    case (1 t w1 c)
    then show ?thesis using release_all_queues [OF 1(2) ord(2)] ord(3) by auto
  qed
  then show "orderly n w'" using finish_tx_live [OF ord(1,2) a(1)] by (simp add: orderly_def)
qed

section \<open>All runs\<close>

lemma world_run_orderly: "world_run w w' \<Longrightarrow> orderly n w \<Longrightarrow> orderly n w'"
proof (induction rule: world_run.induct)
  case (elsewhere w w1 w2)
  then show ?case using orderly_same [of w2 w1] by (simp add: store.defs)
next
  case (start w w1 tx w2)
  then show ?case using start_tx_orderly by blast
next
  case (finish w w1 tx w2)
  then show ?case using finish_tx_orderly by blast
next
  case (get w w1 env tx oid r w2)
  then show ?case using get_object_orderly by blast
next
  case (make w w1 env tx pid lo w2)
  then show ?case using make_object_orderly by blast
next
  case (lock w w1 env l m tx code w2)
  then show ?case using lock_lock_orderly by blast
next
  case (strings w w1 h)
  then show ?case using orderly_same [of "w1\<lparr>strs := h\<rparr>" w1] by simp
next
  case (global w w1 a name v oh sh)
  then show ?case using orderly_same [of "w1\<lparr>heap := oh, strs := sh\<rparr>" w1] by simp
qed simp

end
