(* ===== verification/Cmoo_Stock.thy ===== *)
theory Cmoo_Stock
  imports Cmoo_World Cmoo_Store_Props
begin

text \<open>
  The cache in the runs of the whole program. Objects are never taken out of it, each new one gets the next id, and the cache
  fails when it should grow: \<open>stocked\<close> is the invariant from which the bound on the number of objects follows.
\<close>

section \<open>Which ids are cached\<close>

definition cached :: "'a store_scheme \<Rightarrow> object_id set" where
  "cached w = {i. \<exists>lo. cache_peek (s_cache w) (heap w) i = Inr (Some lo)}"

definition used_buckets :: "cache \<Rightarrow> nat set" where
  "used_buckets c = {b. b < csize c \<and> table c ! b \<noteq> []}"

lemma finite_used_buckets [simp]: "finite (used_buckets c)"
  by (simp add: used_buckets_def)

lemma used_buckets_put:
  assumes "b < csize c" "length (table c) = csize c"
  shows "used_buckets (put_state c b lo n) = insert b (used_buckets c)"
  using assms by (auto simp: used_buckets_def put_state_def nth_list_update)

lemma cached_bucket:
  assumes "i \<in> cached w" "0 < csize (s_cache w)"
  shows "unat i mod csize (s_cache w) \<in> used_buckets (s_cache w)"
  using assms by (auto simp: cached_def cache_peek_def used_buckets_def bucket_def res_simps split: option.splits)

text \<open>Lookups do not see an lobject that is not in the cache.\<close>

lemma chain_find_live:
  assumes "\<And>e. e \<in> set es \<Longrightarrow> \<exists>lo i. ce_obj c e = Inr lo \<and> lobj_id lo h = Inr i \<and> lobj_id lo h' = Inr i"
  shows "chain_find c h' i es = chain_find c h i es"
  using assms
proof (induction es)
  case (Cons e es)
  obtain lo j where "ce_obj c e = Inr lo" "lobj_id lo h = Inr j" "lobj_id lo h' = Inr j" using Cons.prems [of e] by auto
  moreover have "chain_find c h' i es = chain_find c h i es" by (rule Cons.IH) (use Cons.prems in auto)
  ultimately show ?case by (simp add: chain_find_ce_obj del: chain_find.simps)
qed simp

lemma cache_peek_live:
  assumes "cache_inv c h" "\<And>a i. lobj_id a h = Inr i \<Longrightarrow> lobj_id a h' = Inr i"
  shows "cache_peek c h' i = cache_peek c h i"
proof -
  have "\<exists>lo j. ce_obj c e = Inr lo \<and> lobj_id lo h = Inr j \<and> lobj_id lo h' = Inr j" if "e \<in> set (table c ! (unat i mod csize c))" for e
    using that cache_inv_bucket [OF assms(1), of i] cache_invD [OF assms(1), of e] assms(2) by (metis lessThan_iff subset_iff)
  then have "chain_find c h' i (table c ! (unat i mod csize c)) = chain_find c h i (table c ! (unat i mod csize c))"
    by (rule chain_find_live)
  then show ?thesis using cache_inv_bucket [OF assms(1), of i] by (simp add: cache_peek_def)
qed

text \<open>What a new wrapper changes: one more id in the cache.\<close>

lemma wrap_object_cached:
  assumes "wrap_object a w = Inr (lo, w')" "cache_inv (s_cache w) (heap w)" "heap_get (objs (heap w)) a = Inr ob"
  shows "cached w' = insert (obj_get_id ob) (cached w)" "entries (s_cache w') = entries (s_cache w) + 1"
    "csize (s_cache w') = csize (s_cache w)" "alloc_id w' = alloc_id w" "s_persist w' = s_persist w"
    "used_buckets (s_cache w') = insert (unat (obj_get_id ob) mod csize (s_cache w)) (used_buckets (s_cache w))"
    "slots_used (s_cache w') = (if unat (obj_get_id ob) mod csize (s_cache w) \<in> used_buckets (s_cache w) then slots_used (s_cache w)
       else slots_used (s_cache w) + 1)"
    "\<not> load_exceeded (slots_used (s_cache w')) (csize (s_cache w))"
proof -
  let ?h = "heap w" and ?c = "s_cache w" and ?lo = "length (lobjs (heap w))" and ?i = "obj_get_id ob"
  define b where "b = unat ?i mod csize ?c"
  let ?h' = "?h\<lparr>lobjs := lobjs ?h @ [Some (new_lobject a w)]\<rparr>"
  have w': "w' = w\<lparr>lks := snd (lock_new (lks w)), heap := ?h', s_cache := put_state ?c b ?lo (new_slots b ?c)\<rparr>"
    and room: "\<not> load_exceeded (new_slots b ?c) (csize ?c)"
    using assms(1) wrap_object_eq [OF assms(2,3) b_def] by (auto split: if_splits)
  note old = wrap_object_grows(2) [OF assms(2,3), of ?h', unfolded new_lobject_def, OF HOL.refl, folded new_lobject_def]
  note e = wrap_object_effect [OF assms(1-3)]
  have "cache_peek (s_cache w') (heap w') j = (if j = ?i then Inr (Some lo) else cache_peek ?c ?h j)" for j
    using e(6) [of j] cache_peek_live [OF assms(2) old, of j] by (simp add: w')
  then show "cached w' = insert ?i (cached w)" by (auto simp: cached_def)
  have b: "b < csize ?c" "length (table ?c) = csize ?c" using assms(2) by (auto simp: cache_inv_def b_def)
  show "entries (s_cache w') = entries ?c + 1" "csize (s_cache w') = csize ?c" "alloc_id w' = alloc_id w" "s_persist w' = s_persist w"
    by (simp_all add: w' put_state_def)
  show "used_buckets (s_cache w') = insert (unat ?i mod csize ?c) (used_buckets ?c)"
    using used_buckets_put [OF b] by (simp add: w' b_def)
  have "slots_used (s_cache w') = new_slots b ?c" by (simp add: w' put_state_def)
  then show "slots_used (s_cache w') = (if unat ?i mod csize ?c \<in> used_buckets ?c then slots_used ?c else slots_used ?c + 1)"
      "\<not> load_exceeded (slots_used (s_cache w')) (csize ?c)"
    using b(1) room by (auto simp: new_slots_def used_buckets_def b_def)
qed

section \<open>The invariant\<close>

text \<open>The ids that objects can have: those the system starts with, and those that have been allocated.\<close>

definition known_ids :: "'a store_scheme \<Rightarrow> object_id set" where
  "known_ids w = {i. unat i < 3 \<or> unat i \<in> {1000..<nat (alloc_id w)}}"

definition stock_ok :: "'a store_scheme \<Rightarrow> bool" where
  "stock_ok w \<longleftrightarrow> cache_inv (s_cache w) (heap w) \<and> csize (s_cache w) = CACHE_SIZE \<and> 1000 \<le> alloc_id w \<and>
     (\<forall>a \<in> set (objects (s_persist w)). \<exists>ob. heap_get (objs (heap w)) a = Inr ob \<and> unat (obj_get_id ob) < 3) \<and>
     cached w \<subseteq> known_ids w \<and>
     entries (s_cache w) = card (cached w) \<and> slots_used (s_cache w) = card (used_buckets (s_cache w)) \<and>
     used_buckets (s_cache w) \<subseteq> (\<lambda>i. unat i mod CACHE_SIZE) ` cached w \<and> slots_used (s_cache w) \<le> 716"

text \<open>And every object that was made is there.\<close>

definition stocked :: "'a store_scheme \<Rightarrow> bool" where
  "stocked w \<longleftrightarrow> stock_ok w \<and> (\<forall>n \<in> {1000..<alloc_id w}. of_int n \<in> cached w)"

lemma stockedD:
  assumes "stocked w"
  shows "cache_inv (s_cache w) (heap w)" "csize (s_cache w) = 1024" "1000 \<le> alloc_id w" "cached w \<subseteq> known_ids w"
    "n \<in> {1000..<alloc_id w} \<Longrightarrow> of_int n \<in> cached w" "entries (s_cache w) = card (cached w)"
    "slots_used (s_cache w) = card (used_buckets (s_cache w))" "slots_used (s_cache w) \<le> 716"
    "a \<in> set (objects (s_persist w)) \<Longrightarrow> \<exists>ob. heap_get (objs (heap w)) a = Inr ob \<and> unat (obj_get_id ob) < 3"
    "used_buckets (s_cache w) \<subseteq> (\<lambda>i. unat i mod 1024) ` cached w"
  using assms by (auto simp: stocked_def stock_ok_def CACHE_SIZE_def)

lemma unat_small: "0 \<le> n \<Longrightarrow> n < 2 ^ 63 \<Longrightarrow> unat (of_int n :: object_id) = nat n"
  by (simp add: unat_eq_nat_uint uint_word_of_int_eq take_bit_int_eq_self)

text \<open>The ids of 717 new objects in a row fall into 717 buckets.\<close>

lemma stocked_alloc:
  assumes "stocked w"
  shows "alloc_id w \<le> 1716"
proof (rule ccontr)
  assume "\<not> alloc_id w \<le> 1716"
  have "n mod 1024 \<in> used_buckets (s_cache w)" if "n \<in> {1000..<1717}" for n
  proof -
    have "of_int (int n) \<in> cached w" using stockedD(5) [OF assms, of "int n"] that \<open>\<not> alloc_id w \<le> 1716\<close> by auto
    from cached_bucket [OF this] stockedD(2) [OF assms] show ?thesis using unat_small [of "int n"] that by simp
  qed
  then have "(\<lambda>n. n mod 1024) ` {1000..<1717} \<subseteq> used_buckets (s_cache w)" by blast
  from card_mono [OF finite_used_buckets this]
  have le: "card ((\<lambda>n. n mod 1024) ` {1000..<1717::nat}) \<le> 716" using stockedD(7,8) [OF assms] by linarith
  have m: "n mod 1024 = (if n < 1024 then n else n - 1024)" if "n < 2048" for n :: nat
    using that by (simp add: le_mod_geq)
  have inj: "inj_on (\<lambda>n. n mod 1024) {1000..<1717::nat}"
    by (rule inj_onI) (auto simp: m split: if_splits)
  from le show False unfolding card_image [OF inj] by simp
qed

lemma stocked_entries:
  assumes "stocked w"
  shows "entries (s_cache w) \<le> 719"
proof -
  have "unat ` cached w \<subseteq> {..<3} \<union> {1000..<1716}"
    using stockedD(4) [OF assms] stocked_alloc [OF assms] by (fastforce simp: known_ids_def)
  then have "card (unat ` cached w) \<le> card ({..<3} \<union> {1000..<1716::nat})" by (rule card_mono [rotated]) simp
  also have "\<dots> = 719" by (subst card_Un_disjoint) auto
  also have "card (unat ` cached w) = card (cached w)" by (rule card_image) (auto simp: inj_on_def word_unat_eq_iff)
  finally show ?thesis using stockedD(6) [OF assms] by simp
qed

section \<open>Every operation of the store keeps it\<close>

lemma stocked_same:
  assumes "s_cache w' = s_cache w" "heap w' = heap w" "s_persist w' = s_persist w" "alloc_id w' = alloc_id w"
  shows "stocked w' = stocked w"
  by (simp add: stocked_def stock_ok_def cached_def known_ids_def assms)

lemma stocked_lks [simp]: "stocked (w\<lparr>lks := s\<rparr>) = stocked w"
  by (rule stocked_same) simp_all

text \<open>The cache keeps its contents, and the objects their ids.\<close>

lemma stocked_upd:
  assumes "stocked w" "cache_inv (s_cache w') (heap w')" "\<And>j. cache_peek (s_cache w') (heap w') j = cache_peek (s_cache w) (heap w) j"
    "csize (s_cache w') = csize (s_cache w)" "slots_used (s_cache w') = slots_used (s_cache w)"
    "entries (s_cache w') = entries (s_cache w)" "table (s_cache w') = table (s_cache w)"
    "\<And>a ob. heap_get (objs (heap w)) a = Inr ob \<Longrightarrow> \<exists>ob'. heap_get (objs (heap w')) a = Inr ob' \<and> obj_get_id ob' = obj_get_id ob"
    "s_persist w' = s_persist w" "alloc_id w' = alloc_id w"
  shows "stocked w'"
proof -
  have "cached w' = cached w" "known_ids w' = known_ids w" "used_buckets (s_cache w') = used_buckets (s_cache w)"
    using assms(3,4,7,10) by (simp_all add: cached_def known_ids_def used_buckets_def)
  moreover have "\<exists>ob. heap_get (objs (heap w')) a = Inr ob \<and> unat (obj_get_id ob) < 3" if "a \<in> set (objects (s_persist w'))" for a
    using that assms(8,9) stockedD(9) [OF assms(1)] by fastforce
  ultimately show ?thesis using assms by (simp add: stocked_def stock_ok_def)
qed

lemma stock_ok_wrap:
  assumes "wrap_object a w = Inr (lo, w')" "stock_ok w" "heap_get (objs (heap w)) a = Inr ob"
    "obj_get_id ob \<in> known_ids w" "obj_get_id ob \<notin> cached w"
  shows "stock_ok w'" "cached w' = insert (obj_get_id ob) (cached w)" "alloc_id w' = alloc_id w"
proof -
  have ok: "cache_inv (s_cache w) (heap w)" "csize (s_cache w) = 1024" "cached w \<subseteq> known_ids w"
      "entries (s_cache w) = card (cached w)" "slots_used (s_cache w) = card (used_buckets (s_cache w))"
    using assms(2) by (auto simp: stock_ok_def CACHE_SIZE_def)
  note e = wrap_object_cached [OF assms(1) ok(1) assms(3)]
  show "cached w' = insert (obj_get_id ob) (cached w)" "alloc_id w' = alloc_id w" by (fact e(1,4))+
  have "objs (heap w') = objs (heap w)" using wrap_object_same [OF assms(1)] by (simp add: same_data_def)
  moreover have "slots_used (s_cache w') \<le> 716" using e(8) ok(2) by (simp add: load_exceeded_1024)
  moreover have "entries (s_cache w') = card (cached w')" using e(1,2) ok(4) assms(5) by simp
  moreover have "slots_used (s_cache w') = card (used_buckets (s_cache w'))" using e(6,7) ok(5) by (simp add: insert_absorb)
  moreover have "used_buckets (s_cache w') \<subseteq> (\<lambda>i. unat i mod CACHE_SIZE) ` cached w'"
    using e(1,6) assms(2) by (auto simp: stock_ok_def)
  ultimately show "stock_ok w'"
    using assms(2,4) wrap_object_effect(3) [OF assms(1) ok(1) assms(3)] e by (auto simp: stock_ok_def known_ids_def)
qed

lemma find_object_mem: "find_object h i as = Inr (Some a) \<Longrightarrow> a \<in> set as"
  by (induction h i as rule: find_object.induct) (auto simp: res_simps split: if_splits)

lemma persist_get_mem: "persist_get p i h = Inr (Some a) \<Longrightarrow> a \<in> set (objects p)"
  unfolding persist_get_def by (rule find_object_mem)

lemma find_cached_stocked:
  assumes "find_cached oid w = Inr (lo, w')" "stocked w"
  shows "stocked w'"
proof -
  obtain r c h where g: "cache_get_object oid (s_cache w, heap w) = Inr (r, c, h)" "cache_peek (s_cache w) (heap w) oid = Inr r"
      "cache_inv c h" "\<And>j. cache_peek c h j = cache_peek (s_cache w) (heap w) j" "csize c = csize (s_cache w)"
      "slots_used c = slots_used (s_cache w)" "entries c = entries (s_cache w)" "table c = table (s_cache w)" "objs h = objs (heap w)"
    using cache_get_ok [OF stockedD(1) [OF assms(2)], of oid] by metis
  let ?w = "w\<lparr>s_cache := c, heap := h\<rparr>"
  have w: "stocked ?w" by (rule stocked_upd [OF assms(2)]) (use g in auto)
  show ?thesis
  proof (cases r)
    case (Some x)
    then show ?thesis using assms(1) g(1) w by (simp add: find_cached_def)
  next
    case None
    then obtain a where p: "persist_get (s_persist ?w) oid (heap ?w) = Inr (Some a)" "wrap_object a ?w = Inr (lo, w')"
      using assms(1) g(1) by (auto simp: find_cached_def res_simps split: option.splits)
    obtain ob where ob: "heap_get (objs (heap ?w)) a = Inr ob" "obj_get_id ob = oid" using persist_get_id [OF p(1)] by blast
    have "unat oid < 3" using stockedD(9) [OF w persist_get_mem [OF p(1)]] ob by auto
    moreover have "oid \<notin> cached ?w" using g(2,4) None by (simp add: cached_def)
    ultimately show ?thesis using stock_ok_wrap [OF p(2) _ ob(1)] w ob(2) by (simp add: stocked_def known_ids_def)
  qed
qed

lemma lock_lock_stocked:
  assumes "\<And>x y. env x = Some y \<Longrightarrow> stocked x \<Longrightarrow> stocked y" "stocked w" "lock_lock env l m tx w = Inr (code, w')"
  shows "stocked w'"
  using assms(3)
proof (cases rule: lock_lock_cases)
  case (later r s y s')
  then show ?thesis using assms(1) [OF later(2)] assms(2) by simp
qed (use assms(2) in simp)

lemma tx_note_stocked: "tx_note_locked tx lo w = Inr w' \<Longrightarrow> stocked w' = stocked w"
  by (auto simp: tx_note_locked_def res_simps)

lemma get_object_stocked:
  assumes "\<And>x y. env x = Some y \<Longrightarrow> stocked x \<Longrightarrow> stocked y" "stocked w" "store_get_object env tx oid w = Inr (r, w')"
  shows "stocked w'"
proof -
  obtain lo w1 l c w2 where m: "find_cached oid w = Inr (lo, w1)" "lock_lock env l LOCK_SHARED tx w1 = Inr (c, w2)"
    and w': "w' = w2 \<or> tx_note_locked tx lo w2 = Inr w'"
    using assms(3) by (auto simp: store_get_object_def res_simps split: if_splits)
  have "stocked w2" by (rule lock_lock_stocked [OF assms(1) find_cached_stocked [OF m(1) assms(2)] m(2)])
  then show ?thesis using w' tx_note_stocked by blast
qed

text \<open>A new object gets an id that is not in the cache; it fits in as long as fewer than 716 objects were made.\<close>

lemma new_object_wrapped:
  assumes "stocked w" "ob = obj_add_parent pid (obj_set_id (of_int (alloc_id w)) obj_new)"
    "w0 = w\<lparr>alloc_id := alloc_id w + 1, heap := (heap w)\<lparr>objs := objs (heap w) @ [Some ob]\<rparr>\<rparr>"
  shows "stock_ok w0" "heap_get (objs (heap w0)) (length (objs (heap w))) = Inr ob" "obj_get_id ob = of_int (alloc_id w)"
    "of_int (alloc_id w) \<in> known_ids w0" "of_int (alloc_id w) \<notin> cached w0" "cached w0 = cached w"
proof -
  have old: "lobj_id b (heap w0) = Inr i" if "lobj_id b (heap w) = Inr i" for b i
    using that by (auto simp: assms(3) lobj_id_def lobj_object_def lobject_get_object_def deref_def res_simps nth_append split: option.splits)
  note inv = stockedD(1) [OF assms(1)]
  have a: "1000 \<le> alloc_id w" "alloc_id w \<le> 1716" using stockedD(3) [OF assms(1)] stocked_alloc [OF assms(1)] by auto
  have u: "unat (of_int (alloc_id w) :: object_id) = nat (alloc_id w)" using unat_small [of "alloc_id w"] a by simp
  show c: "cached w0 = cached w" using cache_peek_live [OF inv old] by (simp add: cached_def assms(3))
  have i: "cache_inv (s_cache w) (heap w0)" by (rule cache_inv_grow [OF inv old])
  have "\<exists>ob. heap_get (objs (heap w0)) b = Inr ob \<and> unat (obj_get_id ob) < 3" if "b \<in> set (objects (s_persist w))" for b
    using stockedD(9) [OF assms(1) that] by (auto simp: assms(3) res_simps nth_append)
  then show "stock_ok w0" using assms(1,3) i c by (auto simp: stocked_def stock_ok_def known_ids_def)
  show "heap_get (objs (heap w0)) (length (objs (heap w))) = Inr ob" by (simp add: assms(3))
  show "obj_get_id ob = of_int (alloc_id w)" by (simp add: assms(2) obj_add_parent_def obj_set_id_def obj_get_id_def)
  show "of_int (alloc_id w) \<in> known_ids w0" using a u by (auto simp: known_ids_def assms(3))
  have "of_int (alloc_id w) \<notin> known_ids w" using a u by (auto simp: known_ids_def)
  then show "of_int (alloc_id w) \<notin> cached w0" using stockedD(4) [OF assms(1)] c by blast
qed

lemma make_object_stocked:
  assumes "\<And>x y. env x = Some y \<Longrightarrow> stocked x \<Longrightarrow> stocked y" "stocked w" "store_make_object env tx pid w = Inr (lo, w')"
  shows "stocked w'"
proof -
  define ob where "ob = obj_add_parent pid (obj_set_id (of_int (alloc_id w)) obj_new)"
  define w0 where "w0 = w\<lparr>alloc_id := alloc_id w + 1, heap := (heap w)\<lparr>objs := objs (heap w) @ [Some ob]\<rparr>\<rparr>"
  obtain w1 l c w2 where m: "wrap_object (length (objs (heap w))) w0 = Inr (lo, w1)"
      "lock_lock env l LOCK_EXCLUSIVE tx w1 = Inr (c, w2)" "tx_note_locked tx lo w2 = Inr w'"
    using assms(3) by (auto simp: store_make_object_def res_simps Let_def w0_def ob_def split: if_splits)
  note n = new_object_wrapped [OF assms(2) ob_def w0_def]
  note k = stock_ok_wrap [OF m(1) n(1,2), unfolded n(3), OF n(4,5)]
  have "of_int i \<in> cached w1" if "i \<in> {1000..<alloc_id w1}" for i
  proof (cases "i = alloc_id w")
    case False
    then have "i \<in> {1000..<alloc_id w}" using that k(3) by (auto simp: w0_def)
    then show ?thesis using stockedD(5) [OF assms(2)] k(2) n(6) by simp
  qed (use k(2) in simp)
  then have "stocked w1" using k(1) by (simp add: stocked_def)
  from lock_lock_stocked [OF assms(1) this m(2)] show ?thesis using tx_note_stocked [OF m(3)] by simp
qed

lemma cache_release_stocked:
  assumes "cache_release_object lo (s_cache w, heap w) = Inr (c, h)" "stocked w"
  shows "stocked (w\<lparr>lks := s, s_cache := c, heap := h\<rparr>)"
proof -
  note inv = stockedD(1) [OF assms(2)]
  obtain h1 i b e where m: "lobject_unpin lo (heap w) = Inr h1" "lobj_id lo h1 = Inr i" "bucket (s_cache w) i = Inr b"
      "chain_find (s_cache w) h1 i (table (s_cache w) ! b) = Inr (Some e)"
    using assms(1) by (auto simp: cache_release_object_def res_simps split: option.splits)
  have ids: "lobj_id a h1 = lobj_id a (heap w)" for a using m(1) by simp
  have "e < length (ces (s_cache w))"
    using chain_find_mem [OF m(4)] m(3) cache_inv_bucket [OF inv, of i] by auto
  then obtain x where "ce_obj (s_cache w) e = Inr x" using cache_invD [OF inv] by metis
  then have "cache_peek (s_cache w) h1 i = Inr (Some x)" using m(3,4) by (simp add: cache_peek_def)
  then have p: "cache_peek (s_cache w) (heap w) i = Inr (Some x)" using cache_peek_cong [of "s_cache w" "s_cache w" h1 "heap w"] ids by simp
  have room: "entries (s_cache w) \<le> csize (s_cache w) * CHAIN_FACTOR"
    using stocked_entries [OF assms(2)] stockedD(2) [OF assms(2)] by (simp add: CHAIN_FACTOR_def)
  obtain c' h' where "cache_release_object lo (s_cache w, heap w) = Inr (c', h')" "cache_inv c' h'"
      "\<And>j. cache_peek c' h' j = cache_peek (s_cache w) (heap w) j" "csize c' = csize (s_cache w)"
      "slots_used c' = slots_used (s_cache w)" "entries c' = entries (s_cache w)" "table c' = table (s_cache w)"
    by (rule cache_release_ok [OF inv _ p room, of lo]) (use m(2) ids in auto)
  then show ?thesis using assms(1) cache_release_objs [OF assms(1)] by (intro stocked_upd [OF assms(2)]) auto
qed

lemma release_all_stocked: "release_all tx los w = Inr w' \<Longrightarrow> stocked w \<Longrightarrow> stocked w'"
proof (induction tx los w rule: release_all.induct)
  case (2 tx lo los w)
  then obtain s c h where "cache_release_object lo (s_cache w, heap w) = Inr (c, h)"
      "release_all tx los (w\<lparr>lks := s, s_cache := c, heap := h\<rparr>) = Inr w'"
      "stocked (w\<lparr>lks := s, s_cache := c, heap := h\<rparr>) \<Longrightarrow> stocked w'"
    by (auto elim!: rbind_InrE)
  then show ?case using cache_release_stocked "2.prems"(2) by blast
qed simp

lemma finish_tx_stocked:
  assumes "store_finish_tx tx w = Inr w'" "stocked w"
  shows "stocked w'"
  using assms(1)
proof (cases rule: finish_tx_steps)
  case (1 t w1 c)
  have "stocked w' = stocked w1" by (rule stocked_same) (simp_all add: 1(5))
  then show ?thesis using release_all_stocked [OF 1(2) assms(2)] by simp
qed

lemma start_tx_stocked: "store_start_tx w = Inr (tx, w') \<Longrightarrow> stocked w' = stocked w"
  by (rule stocked_same) (auto simp: store_start_tx_def Let_def res_simps)

lemma set_global_stocked:
  assumes "set_global_at a name v (heap w, strs w) = Inr (h, sh)" "stocked w"
  shows "stocked (w\<lparr>heap := h, strs := sh\<rparr>)"
proof -
  obtain ob ob' where ob: "heap_get (objs (heap w)) a = Inr ob" "obj_set_global name v (ob, strs w) = Inr (ob', sh)"
      "h = (heap w)\<lparr>objs := heap_put a ob' (objs (heap w))\<rparr>"
    using assms(1) by (auto simp: set_global_at_def elim!: rbind_InrE)
  have id: "obj_get_id ob' = obj_get_id ob"
    using ob(2) by (auto simp: obj_set_global_def obj_get_id_def res_simps split: option.splits)
  have same: "\<exists>o2. heap_get (objs h) b = Inr o2 \<and> obj_get_id o2 = obj_get_id o1" if "heap_get (objs (heap w)) b = Inr o1" for b o1
    using that ob(1,3) id by (cases "b = a") (auto simp: res_simps heap_put_def)
  have "rbind (heap_get (objs h) x) (\<lambda>x. Inr (obj_get_id x)) = rbind (heap_get (objs (heap w)) x) (\<lambda>x. Inr (obj_get_id x))" for x
    using ob(1,3) id by (cases "x = a") (auto simp: heap_get_def heap_put_def split: if_splits option.splits)
  then have "rbind (deref (objs h) p) (\<lambda>x. Inr (obj_get_id x)) = rbind (deref (objs (heap w)) p) (\<lambda>x. Inr (obj_get_id x))" for p
    by (cases p) (simp_all add: deref_def)
  then have ids: "lobj_id b h = lobj_id b (heap w)" for b
    using ob(3) by (simp add: lobj_id_def lobj_object_def lobject_get_object_def rbind_assoc)
  have peek: "cache_peek (s_cache w) h j = cache_peek (s_cache w) (heap w) j" for j
    by (rule cache_peek_cong) (simp_all add: ids)
  have inv: "cache_inv (s_cache w) h" using cache_inv_heap_cong [OF ids] stockedD(1) [OF assms(2)] by simp
  show ?thesis by (rule stocked_upd [OF assms(2)]) (simp_all add: peek inv same)
qed

section \<open>All runs\<close>

lemma elsewhere_stocked: "store_of w' = store_of w \<Longrightarrow> stocked w' = stocked w"
  by (rule stocked_same) (simp_all add: store.defs)

lemma world_run_stocked: "world_run w w' \<Longrightarrow> stocked w \<Longrightarrow> stocked w'"
proof (induction rule: world_run.induct)
  case (strings w w1 h)
  have "stocked (w1\<lparr>strs := h\<rparr>) = stocked w1" by (rule stocked_same) simp_all
  then show ?case using strings by simp
next
  case (elsewhere w w1 w2)
  then show ?case using elsewhere_stocked by blast
next
  case (start w w1 tx w2)
  then show ?case using start_tx_stocked by blast
next
  case (finish w w1 tx w2)
  then show ?case using finish_tx_stocked by blast
next
  case (get w w1 env tx oid r w2)
  then show ?case using get_object_stocked by blast
next
  case (make w w1 env tx pid lo w2)
  then show ?case using make_object_stocked by blast
next
  case (lock w w1 env l m tx code w2)
  then show ?case using lock_lock_stocked by blast
next
  case (global w w1 a name v oh sh)
  then show ?case using set_global_stocked by blast
qed

end
