(* ===== verification/Cmoo_Make.thy ===== *)
theory Cmoo_Make
  imports Cmoo_Stock
begin

text \<open>
  Making objects: what \<^verbatim>\<open>store_make_object\<close> does to the whole store, and when it fails. In every state that the server
  can be in, it succeeds unless 716 objects have been made before.
\<close>

section \<open>When there is room for one more\<close>

lemma mod_small: "n < 2048 \<Longrightarrow> n mod 1024 = (if n < 1024 then n else n - 1024)" for n :: nat
  by (simp add: le_mod_geq)

text \<open>The buckets of the ids that the server starts with, and of the first 716 new ones.\<close>

definition stock_buckets :: "nat set" where
  "stock_buckets = {..<692} \<union> {1000..<1024}"

lemma stock_buckets [simp]: "finite stock_buckets" "card stock_buckets = 716"
  unfolding stock_buckets_def by (simp, subst card_Un_disjoint) auto

lemma known_buckets:
  assumes "stocked w" "i \<in> cached w"
  shows "unat i mod 1024 \<in> stock_buckets"
proof -
  have "unat i < 3 \<or> unat i \<in> {1000..<nat (alloc_id w)}" using stockedD(4) [OF assms(1)] assms(2) by (auto simp: known_ids_def)
  moreover have "nat (alloc_id w) \<le> 1716" using stocked_alloc [OF assms(1)] by simp
  ultimately have "unat i < 3 \<or> 1000 \<le> unat i \<and> unat i < 1716" by auto
  then show ?thesis by (auto simp: mod_small stock_buckets_def)
qed

lemma all_stock_buckets:
  assumes "stocked w" "alloc_id w = 1716"
  shows "used_buckets (s_cache w) = stock_buckets"
proof (rule card_seteq)
  show "used_buckets (s_cache w) \<subseteq> stock_buckets" using stockedD(10) [OF assms(1)] known_buckets [OF assms(1)] by blast
  have "n mod 1024 \<in> used_buckets (s_cache w)" if "n \<in> {1000..<1716}" for n
  proof -
    have "of_int (int n) \<in> cached w" using stockedD(5) [OF assms(1), of "int n"] that assms(2) by auto
    from cached_bucket [OF this] stockedD(2) [OF assms(1)] show ?thesis using unat_small [of "int n"] that by simp
  qed
  then have s: "(\<lambda>n. n mod 1024) ` {1000..<1716} \<subseteq> used_buckets (s_cache w)" by blast
  have "inj_on (\<lambda>n. n mod 1024) {1000..<1716::nat}" by (rule inj_onI) (auto simp: mod_small split: if_splits)
  then have "card ((\<lambda>n. n mod 1024) ` {1000..<1716::nat}) = 716" by (simp add: card_image)
  then show "card stock_buckets \<le> card (used_buckets (s_cache w))" using card_mono [OF finite_used_buckets s] by simp
qed simp

definition new_bucket :: "'a store_scheme \<Rightarrow> nat" where
  "new_bucket w = unat (of_int (alloc_id w) :: object_id) mod csize (s_cache w)"

lemma new_bucket_eq: "stocked w \<Longrightarrow> new_bucket w = nat (alloc_id w) mod 1024"
  using unat_small [of "alloc_id w"] stocked_alloc [of w] stockedD(2,3) [of w] by (simp add: new_bucket_def)

lemma cache_full_iff:
  assumes "stocked w"
  shows "load_exceeded (new_slots (new_bucket w) (s_cache w)) (csize (s_cache w)) \<longleftrightarrow> alloc_id w = 1716"
proof -
  let ?c = "s_cache w" and ?b = "new_bucket w"
  have b: "?b < csize ?c" using stockedD(2) [OF assms] by (simp add: new_bucket_def)
  then have n: "new_slots ?b ?c = card (insert ?b (used_buckets ?c))"
    using stockedD(7) [OF assms] by (auto simp: new_slots_def used_buckets_def card_insert_if)
  have le: "1000 \<le> alloc_id w" "alloc_id w \<le> 1716" using stockedD(3) [OF assms] stocked_alloc [OF assms] by auto
  have "716 < card (insert ?b (used_buckets ?c)) \<longleftrightarrow> alloc_id w = 1716"
  proof (cases "alloc_id w = 1716")
    case True
    then have "?b = 692" using new_bucket_eq [OF assms] by simp
    then have "?b \<notin> stock_buckets" by (simp add: stock_buckets_def)
    then show ?thesis using True all_stock_buckets [OF assms True] by simp
  next
    case False
    then have "nat (alloc_id w) < 1716" "1000 \<le> nat (alloc_id w)" using le by auto
    then have "?b \<in> stock_buckets" using new_bucket_eq [OF assms] by (auto simp: mod_small stock_buckets_def)
    moreover have "used_buckets ?c \<subseteq> stock_buckets" using stockedD(10) [OF assms] known_buckets [OF assms] by blast
    ultimately have "card (insert ?b (used_buckets ?c)) \<le> card stock_buckets" by (intro card_mono) auto
    then show ?thesis using False by simp
  qed
  then show ?thesis using n stockedD(2) [OF assms] by (simp add: load_exceeded_1024)
qed

section \<open>The new state\<close>

definition new_object :: "object_id \<Rightarrow> 'a store_scheme \<Rightarrow> object" where
  "new_object pid w = obj_add_parent pid (obj_set_id (of_int (alloc_id w)) obj_new)"

text \<open>The store after an object was made: the object, its wrapper and its lock are at the ends of their heaps, the lock is
  held by the transaction, which has the wrapper in front of its list.\<close>

definition made :: "nat \<Rightarrow> store_tx \<Rightarrow> object_id \<Rightarrow> 'a store_scheme \<Rightarrow> 'a store_scheme" where
  "made tx t pid w =
     (let lo = length (lobjs (heap w)); s = lks w; g = next_wg s in
      w\<lparr>alloc_id := alloc_id w + 1,
        heap := (heap w)\<lparr>objs := objs (heap w) @ [Some (new_object pid w)],
          lobjs := lobjs (heap w) @ [Some (new_lobject (length (objs (heap w))) w)]\<rparr>,
        lks := s\<lparr>locks := locks s @ [Some \<lparr>wait_groups = [(g, lock_waitgroup_new LOCK_EXCLUSIVE tx)], last_wait_group = Some g\<rparr>],
          next_wg := g + 1, txs := heap_put tx (t\<lparr>tx_locked := lo # tx_locked t\<rparr>) (txs s)\<rparr>,
        s_cache := put_state (s_cache w) (new_bucket w) lo (new_slots (new_bucket w) (s_cache w))\<rparr>)"

theorem make_object_eq:
  assumes "stocked w" "heap_get (txs (lks w)) tx = Inr t"
  shows "store_make_object env tx pid w =
    (if alloc_id w = 1716 then Inl Assert_failed else Inr (length (lobjs (heap w)), made tx t pid w))"
proof -
  define w0 where "w0 = w\<lparr>alloc_id := alloc_id w + 1, heap := (heap w)\<lparr>objs := objs (heap w) @ [Some (new_object pid w)]\<rparr>\<rparr>"
  note n = new_object_wrapped [OF assms(1) new_object_def w0_def]
  have inv: "cache_inv (s_cache w0) (heap w0)" using n(1) by (simp add: stock_ok_def)
  have b: "new_bucket w = unat (obj_get_id (new_object pid w)) mod csize (s_cache w0)" by (simp add: n(3) new_bucket_def w0_def)
  have s: "s_cache w0 = s_cache w" "lks w0 = lks w" "lobjs (heap w0) = lobjs (heap w)" by (simp_all add: w0_def)
  note e = wrap_object_eq [OF inv n(2) b, unfolded s cache_full_iff [OF assms(1)]]
  have m: "store_make_object env tx pid w = rbind (wrap_object (length (objs (heap w))) w0) (\<lambda>(lo, w).
        rbind (lobj_id lo (heap w)) (\<lambda>_. rbind (lobj_lock lo (heap w)) (\<lambda>l.
        rbind (lock_lock env l LOCK_EXCLUSIVE tx w) (\<lambda>(_, w). rbind (tx_note_locked tx lo w) (\<lambda>w. Inr (lo, w))))))"
    using stocked_alloc [OF assms(1)] by (simp add: store_make_object_def Let_def w0_def new_object_def)
  show ?thesis
  proof (cases "alloc_id w = 1716")
    case True
    then show ?thesis using m e by simp
  next
    case False
    then obtain w1 where w1: "wrap_object (length (objs (heap w))) w0 = Inr (length (lobjs (heap w)), w1)"
        "w1 = w0\<lparr>lks := snd (lock_new (lks w)), heap := (heap w0)\<lparr>lobjs := lobjs (heap w) @ [Some (new_lobject (length (objs (heap w))) w)]\<rparr>,
           s_cache := put_state (s_cache w) (new_bucket w) (length (lobjs (heap w))) (new_slots (new_bucket w) (s_cache w))\<rparr>"
      using e by (simp add: new_lobject_def s)
    note f = wrap_object_effect [OF w1(1) inv n(2)]
    have "lock_lock env (length (locks (lks w))) LOCK_EXCLUSIVE tx w1 = Inr (LOCK_TAKEN, w1\<lparr>lks :=
        (lks w)\<lparr>locks := locks (lks w) @ [Some \<lparr>wait_groups = [(next_wg (lks w), lock_waitgroup_new LOCK_EXCLUSIVE tx)],
          last_wait_group = Some (next_wg (lks w))\<rparr>], next_wg := next_wg (lks w) + 1\<rparr>\<rparr>)"
      by (simp add: lock_lock_def lock_enter_def w1(2) lock_new_def heap_get_def lock_put_def heap_put_def)
    then show ?thesis using False m w1(1) f(1,4) assms(2)
      by (simp add: s tx_note_locked_def made_def Let_def w1(2) w0_def)
  qed
qed

lemma made_id:
  "lobj_id (length (lobjs (heap w))) (heap (made tx t pid w)) = Inr (of_int (alloc_id w))" "alloc_id (made tx t pid w) = alloc_id w + 1"
  by (simp_all add: made_def Let_def lobj_id_def lobj_object_def lobject_get_object_def deref_def new_lobject_def new_object_def
      obj_add_parent_def obj_set_id_def obj_get_id_def heap_get_def)

end
