(* ===== verification/Cmoo_Main.thy ===== *)
theory Cmoo_Main
  imports Cmoo_Orderly Cmoo_Make Cmoo_Task_Props
begin

text \<open>
  The main program, \<^verbatim>\<open>src/src/main.c\<close>: how the subsystems are put together, the state the server starts in, and what
  holds in all runs from there.
\<close>

section \<open>Starting and stopping\<close>

definition TASK_CONCURRENCY :: nat where "TASK_CONCURRENCY = 4"

text \<open>The callback with which the network thread begins: the tasks are created, with one thread for each worker, and
  get their first item. \<open>as\<close> are the addresses of the network transactions to come.\<close>

definition net_init_cb :: "addr list \<Rightarrow> store \<Rightarrow> task_cb net_ctx \<Rightarrow> (wstate list \<times> driver) res" where
  "net_init_cb as s n =
     rbind (tasks_start (tasks_new_ctx s n as)) (\<lambda>w. Inr (replicate TASK_CONCURRENCY W_check, w))"

text \<open>\<^verbatim>\<open>main\<close> up to \<^verbatim>\<open>net_start\<close>, with the first thing the new thread does. \<open>ms\<close> are the addresses of the strings
  to come.\<close>

definition main_start :: "addr list \<Rightarrow> addr list \<Rightarrow> nat \<Rightarrow> (vm \<times> wstate list \<times> driver) res" where
  "main_start ms as fr =
     rbind (persist_new (\<lparr>objs = [], lobjs = []\<rparr>, \<lparr>cells = Map.empty, avail = ms\<rparr>)) (\<lambda>(p, h, sh).
     let s = store_new p TASK_CONCURRENCY fr h sh; v = vm_new; n = net_start net_new_ctx in
     rbind (net_init_cb as s n) (\<lambda>(ws, w). Inr (v, ws, w)))"


section \<open>The state after the start\<close>

definition boot_state :: "addr list \<Rightarrow> addr list \<Rightarrow> nat \<Rightarrow> driver" where
  "boot_state ms as fr =
     \<lparr>strs = \<lparr>cells = Map.empty, avail = ms\<rparr>, heap = \<lparr>objs = [Some boot0, Some boot1, Some boot2], lobjs = []\<rparr>,
      lks = locks_new_ctx 4 fr, s_cache = cache_new 1024, s_persist = \<lparr>objects = [2, 1, 0]\<rparr>, alloc_id = 1000, sid_seq = 0,
      cid_used = replicate 4 False, net = net_new_ctx, ntxs = Map.empty, ntx_avail = as,
      t_queue = \<lparr>nodes = [Some \<lparr>elem = QUEUE_INIT, nxt = None\<rparr>], front = Some 0, rear = Some 0\<rparr>, t_stop = False, task_id_seq = 1\<rparr>"

lemma main_start_eq: "main_start ms as fr = Inr (vm_new, replicate 4 W_check, boot_state ms as fr)"
  by (simp add: main_start_def persist_new_eq net_init_cb_def tasks_start_def tasks_enqueue_item_def tasks_new_ctx_def
      store_new_def driver.defs store.defs chain_simps boot_state_def net_start_def net_new_ctx_def TASK_CONCURRENCY_def CACHE_SIZE_def
      Let_def)

lemma cache_new_empty:
  "0 < n \<Longrightarrow> cache_inv (cache_new n) h" "0 < n \<Longrightarrow> cache_peek (cache_new n) h i = Inr None" "used_buckets (cache_new n) = {}"
  by (auto simp: cache_inv_def cache_new_def link_ok_def cache_peek_def bucket_def used_buckets_def)

lemma cache_new_stocked:
  assumes "s_cache w = cache_new 1024" "objs (heap w) = [Some boot0, Some boot1, Some boot2]" "s_persist w = \<lparr>objects = [2, 1, 0]\<rparr>"
    "alloc_id w = 1000"
  shows "stocked w"
proof -
  have "cached w = {}" using assms(1) by (simp add: cached_def cache_new_empty)
  moreover have "csize (cache_new 1024) = 1024" "entries (cache_new 1024) = 0" "slots_used (cache_new 1024) = 0"
    by (simp_all add: cache_new_def)
  ultimately show ?thesis using assms cache_new_empty
    by (auto simp: stocked_def stock_ok_def CACHE_SIZE_def heap_get_def boot0_def boot1_def boot2_def obj_get_id_def)
qed

lemma boot_stocked: "stocked (boot_state ms as fr)"
  by (rule cache_new_stocked) (simp_all add: boot_state_def)

lemma boot_orderly: "orderly 4 (boot_state ms as fr)"
  by (simp add: orderly_def boot_state_def cids_ok_def locks_new_ctx_def live_tx_def locks_wf_def heap_get_def)

text \<open>C37: the start. \<^verbatim>\<open>main\<close> gets as far as its \<^verbatim>\<open>sleep\<close> without a fault. The four workers are about to look for
  items, and find the one that makes the world initialise itself; there is no request to the network yet. The three objects
  of the persistence layer can be found under their ids, no object is in the cache, and the invariants of
  the cache, the locks and the transaction ids hold.\<close>

theorem server_starts:
  "\<exists>w. main_start ms as fr = Inr (vm_new, replicate 4 W_check, w) \<and> holds (t_queue w) [QUEUE_INIT] \<and> \<not> t_stop w
    \<and> holds (n_queue (net w)) [] \<and> open_sockets (net w) = [] \<and> listeners (net w) = []
    \<and> persist_get (s_persist w) 0 (heap w) = Inr (Some 0) \<and> persist_get (s_persist w) 1 (heap w) = Inr (Some 1)
    \<and> persist_get (s_persist w) 2 (heap w) = Inr (Some 2) \<and> objs (heap w) = [Some boot0, Some boot1, Some boot2]
    \<and> cached w = {} \<and> stocked w \<and> cids_ok w \<and> locks_wf (lks w) \<and> max_tasks (lks w) = 4"
proof -
  let ?w = "boot_state ms as fr"
  have "holds (t_queue ?w) [QUEUE_INIT]"
    unfolding holds_def by (rule exI [of _ "[0]"]) (simp add: chain_at_def boot_state_def heap_get_def last_of_def)
  moreover have "holds (n_queue (net ?w)) []" by (simp add: boot_state_def net_new_ctx_def holds_new)
  moreover have "persist_get (s_persist ?w) 0 (heap ?w) = Inr (Some 0)" "persist_get (s_persist ?w) 1 (heap ?w) = Inr (Some 1)"
      "persist_get (s_persist ?w) 2 (heap ?w) = Inr (Some 2)" "objs (heap ?w) = [Some boot0, Some boot1, Some boot2]"
    by (simp_all add: boot_state_def persist_get_def heap_get_def obj_get_id_def boot0_def boot1_def boot2_def)
  moreover have "cached ?w = {}" by (simp add: cached_def boot_state_def cache_new_empty)
  moreover have "\<not> t_stop ?w" "open_sockets (net ?w) = []" "listeners (net ?w) = []" by (simp_all add: boot_state_def net_new_ctx_def)
  ultimately show ?thesis using main_start_eq [of ms as fr] boot_stocked [of ms as fr] boot_orderly [of ms as fr]
    by (intro exI [of _ ?w]) (simp add: orderly_def)
qed

section \<open>All runs\<close>







section \<open>The end, which does not come\<close>



end
