(* ===== verification/Cmoo_Symbolic.thy ===== *)
theory Cmoo_Symbolic
  imports Cmoo_Main Cmoo_Boot
begin

text \<open>
  Running the program on symbolic states: the collection \<open>sym\<close> has what the simplifier needs to take the bootstrap
  methods through a turn of a worker, one instruction after the other. With \<open>weak_congs\<close> it simplifies what an operation
  starts from before it looks at what comes behind.
\<close>

named_theorems sym

lemma rbind_weak: "m = m' \<Longrightarrow> rbind m f = rbind m' f"
  by simp

lemma map_option_weak: "m = m' \<Longrightarrow> map_option f m = map_option f m'"
  by simp

lemmas weak_congs = rbind_weak map_option_weak

section \<open>Code\<close>

lemma lit_length [simp]: "length (lit xs) = length xs"
  by (simp add: lit_def)

text \<open>The code pointer in front of the instruction with a given number.\<close>

definition cp :: "instr list \<Rightarrow> nat \<Rightarrow> codeptr" where
  "cp is k = (concat (map encode is), int (length (concat (map encode (take k is)))))"

lemma fetch_cp:
  assumes "list_all instr_ok is" "k < length is"
  shows "fetch (cp is k) = Inr (is ! k, cp is (Suc k))"
proof -
  have "is = take k is @ is ! k # drop (Suc k) is" using assms(2) by (simp add: id_take_nth_drop)
  then have "concat (map encode is) = concat (map encode (take k is)) @ encode (is ! k) @ concat (map encode (drop (Suc k) is))"
    by (metis concat.simps(2) concat_append list.simps(9) map_append)
  moreover have "instr_ok (is ! k)" using assms by (simp add: list_all_length)
  ultimately show ?thesis
    using fetch_encode [of "is ! k" "concat (map encode (take k is))" "concat (map encode (drop (Suc k) is))"] assms(2)
    by (simp add: cp_def take_Suc_conv_app_nth)
qed

lemmas run_asm_defs = init_asm_def accept_asm_def read_asm_def set_socket_asm_def inc_count_asm_def
  set_base_socket_handler_asm_def closed_asm_def

lemma asm_ok:
  "list_all instr_ok init_asm" "list_all instr_ok accept_asm" "list_all instr_ok read_asm" "list_all instr_ok set_socket_asm"
  "list_all instr_ok inc_count_asm" "list_all instr_ok set_base_socket_handler_asm" "list_all instr_ok closed_asm"
  by (simp_all add: run_asm_defs)

lemma asm_length:
  "length init_asm = 24" "length accept_asm = 19" "length read_asm = 28" "length set_socket_asm = 5"
  "length inc_count_asm = 8" "length set_base_socket_handler_asm = 5" "length closed_asm = 6"
  by (simp_all add: run_asm_defs)

lemma nth_of: "x = y \<Longrightarrow> x ! k = y ! k"
  by simp

lemmas asm_fetch [sym] = asm_ok [THEN fetch_cp, unfolded asm_length]

lemmas asm_nth [sym] = run_asm_defs [THEN nth_of]

lemma code_starts [sym]:
  "(init_code, 0) = cp init_asm 0" "(accept_code, 0) = cp accept_asm 0" "(read_code, 0) = cp read_asm 0"
  "(set_socket_code, 0) = cp set_socket_asm 0" "(inc_count_code, 0) = cp inc_count_asm 0"
  "(set_base_socket_handler_code, 0) = cp set_base_socket_handler_asm 0" "(closed_code, 0) = cp closed_asm 0"
  by (simp_all add: cp_def boot_assembled)

lemma code_nonempty [sym]:
  "init_code \<noteq> []" "accept_code \<noteq> []" "read_code \<noteq> []" "set_socket_code \<noteq> []" "inc_count_code \<noteq> []"
  "set_base_socket_handler_code \<noteq> []" "closed_code \<noteq> []"
  unfolding boot_assembled by (simp_all add: run_asm_defs)

lemma read_jump [sym]: "jump_to 27 (cp read_asm (Suc (Suc (Suc (Suc (Suc (Suc (Suc (Suc 0))))))))) = cp read_asm 16"
  by (simp add: jump_to_def cp_def read_asm_def)

lemma run_num [sym]:
  "eval_run H (numeral k + n) ip s =
     (case eval_step H ip s of
        Inl f \<Rightarrow> Some (Inl f)
      | Inr (Stop r, s) \<Rightarrow> Some (Inr (r, s))
      | Inr (Next ip, s) \<Rightarrow> eval_run H (pred_numeral k + n) ip s)"
  by (simp add: numeral_eq_Suc)

section \<open>Names and values\<close>

lemma of_char_byte: "(of_char c :: byte) = of_char d \<longleftrightarrow> c = d"
proof
  assume "(of_char c :: byte) = of_char d"
  then have "unat (of_nat (of_char c) :: byte) = unat (of_nat (of_char d) :: byte)" by (simp only: of_nat_of_char)
  then show "c = d" by (simp add: unat_of_nat)
qed simp

lemma lit_eq_iff [sym]: "lit xs = lit ys \<longleftrightarrow> xs = ys"
  by (simp add: lit_def inj_map_eq_map inj_def of_char_byte)

lemma cstr_lit [sym]:
  assumes "CHR 0x00 \<notin> set xs"
  shows "cstr (lit xs) = lit xs" "cstr (lit xs @ [0]) = lit xs"
proof -
  have "of_char c = (0 :: byte) \<Longrightarrow> c = CHR 0x00" for c using of_char_byte [of c "CHR 0x00"] by simp
  then have "0 \<notin> set (lit xs)" using assms unfolding lit_def by force
  then show "cstr (lit xs) = lit xs" "cstr (lit xs @ [0]) = lit xs" by (simp_all add: cstr_idem cstr_append_zero)
qed

lemma val_type_num [sym]: "val_type (numeral k) = unat (numeral k AND 7 :: 64 word)"
  by (simp add: val_type_def)

lemma val_get_int_2 [sym]: "val_get_int 2 = Inr 0"
  by code_simp

lemmas [sym] = special_roundtrip

section \<open>Objects of the persistence layer\<close>

lemma boot_objects [sym]:
  "obj_id boot0 = 0" "obj_id boot1 = 1" "obj_id boot2 = 2"
  "parent_count boot0 = 0" "parent_count boot1 = 0" "parent_count boot2 = 0"
  "methods boot0 = [(lit ''shutdown'', shutdown_code), (lit ''init'', init_code)]"
  "globals boot0 = [(lit ''base-socket-handler'', 37), (lit ''base-listener'', 21)]"
  "methods boot1 = [(lit ''set-base-socket-handler'', set_base_socket_handler_code), (lit ''accept'', accept_code)]"
  "globals boot1 = []"
  "methods boot2 = [(lit ''inc_count'', inc_count_code), (lit ''read'', read_code), (lit ''closed'', closed_code),
     (lit ''set_socket'', set_socket_code)]"
  "globals boot2 = [(lit ''count'', 2)]"
  by (simp_all add: boot0_def boot1_def boot2_def)

section \<open>The machine\<close>

text \<open>The system calls, in the table that \<open>vm_init\<close> has given its context to.\<close>

definition vm_started :: vm where
  "vm_started = syscall_table_set_ctx (Some 0) vm_new"

lemma set_ctx_vm_new [sym]: "syscall_table_set_ctx (Some 0) vm_new = vm_started"
  by (simp add: vm_started_def)

lemma find_started [sym]:
  "find_syscall 2 (lit ''net_make_listener'') (syscalls vm_started) =
     Some \<lparr>se_arity = 2, se_name = lit ''net_make_listener'',
       se_func = (\<lambda>p vs. syscall_net_make_listener p (vs ! 0) (vs ! 1))\<rparr>"
  "find_syscall 2 (lit ''net_accept_socket'') (syscalls vm_started) =
     Some \<lparr>se_arity = 2, se_name = lit ''net_accept_socket'',
       se_func = (\<lambda>p vs. syscall_net_accept_socket p (vs ! 0) (vs ! 1))\<rparr>"
  "find_syscall 3 (lit ''net_socket_write'') (syscalls vm_started) =
     Some \<lparr>se_arity = 3, se_name = lit ''net_socket_write'',
       se_func = (\<lambda>p vs. syscall_net_socket_write p (vs ! 0) (vs ! 1) (vs ! 2))\<rparr>"
  "find_syscall (Suc 0) (lit ''net_socket_free'') (syscalls vm_started) =
     Some \<lparr>se_arity = 1, se_name = lit ''net_socket_free'', se_func = (\<lambda>p vs. syscall_net_socket_free p (vs ! 0))\<rparr>"
  "st_ctx vm_started = Some 0"
  by (simp_all add: vm_started_def syscall_table_set_ctx_def vm_new_def syscall_table_add_a1_def syscall_table_add_a2_def
      syscall_table_add_a3_def syscall_table_add_def syscall_table_new_def cstr_def lit_def)

text \<open>The machine in a turn: its task, transaction, frame and stack pointer, stack and object.\<close>

definition mctx :: "64 word \<Rightarrow> nat \<Rightarrow> int \<Rightarrow> int \<Rightarrow> cell list \<Rightarrow> nat option \<Rightarrow> driver eval_ctx" where
  "mctx t x f s st ob =
     \<lparr>fp = f, sp = s, stack = st, callback = False, dbg_trace = [], ev_syscalls = Some vm_started, task_id = t, stx = x,
      cur_obj = ob\<rparr>"

lemma mctx_simps [sym]:
  "fp (mctx t x f s st ob) = f" "sp (mctx t x f s st ob) = s" "stack (mctx t x f s st ob) = st"
  "callback (mctx t x f s st ob) = False" "ev_syscalls (mctx t x f s st ob) = Some vm_started"
  "stx (mctx t x f s st ob) = x" "cur_obj (mctx t x f s st ob) = ob" "task_id (mctx t x f s st ob) = t"
  "(mctx t x f s st ob)\<lparr>fp := f'\<rparr> = mctx t x f' s st ob" "(mctx t x f s st ob)\<lparr>sp := s'\<rparr> = mctx t x f s' st ob"
  "(mctx t x f s st ob)\<lparr>stack := st'\<rparr> = mctx t x f s st' ob" "(mctx t x f s st ob)\<lparr>cur_obj := ob'\<rparr> = mctx t x f s st ob'"
  by (simp_all add: mctx_def)

lemma mctx_start [sym]:
  "eval_set_syscall_table vm_started (eval_new_ctx t x) = mctx t x 1 0 (replicate 1024 Uninit) None"
  by (simp add: eval_set_syscall_table_def eval_new_ctx_def mctx_def INITIAL_STACK_SIZE_def)

lemma loops [sym]:
  "halt_loop (mctx t x f s st ob, w) =
     (if s = 0 then Inr (mctx t x f s st ob, w) else if s < 0 then Inl Out_of_bounds
      else rbind (cell_clear s (mctx t x f s st ob, w)) (\<lambda>(c', w). halt_loop (c'\<lparr>sp := s - 1\<rparr>, w)))"
  "return_loop b (mctx t x f s st ob, w) =
     (if s \<le> b then Inr (mctx t x f s st ob, w)
      else rbind (cell_clear s (mctx t x f s st ob, w)) (\<lambda>(c', w). return_loop b (c'\<lparr>sp := s - 1\<rparr>, w)))"
  by (subst halt_loop.simps return_loop.simps; simp add: mctx_simps)+

lemma loops_num [sym]:
  "init_locals i (numeral k) s = rbind (cell_set (sp (fst s) + int i + 1) val_init s) (init_locals (Suc i) (pred_numeral k))"
  "drop_args (numeral k) s = rbind (cell_clear (sp (fst s)) s) (\<lambda>(c, w). drop_args (pred_numeral k) (c\<lparr>sp := sp c - 1\<rparr>, w))"
  by (simp_all add: numeral_eq_Suc)

lemmas [sym] = nth_list_update eval_step_def go_def go_to_def cell_get_def cell_put_def val_at_def cell_set_def cell_clear_def
  inc_val_def reg_ix_def reg_val_def reg_clear_def reg_set_def reg_assign_def call_back_def print_reg_def cur_object_def
  name_of_def string_of_def drop_cell_def set_global_at_def obj_at_def code_at_def se_at_def types_of_def jump_cond_def
  compare_op_def lt_result_def arith_op_def int_op_def

lemmas [sym] = op_args_locals_def op_load_string_def op_load_int_def op_push_def op_pop_def op_clear_def op_halt_def
  op_debugr_def op_getglobal_def op_setglobal_def op_make_obj_def op_parent_def op_call_def op_return_def op_syscall_def
  op_length_def op_concat_def op_lt_def op_add_def

lemmas [sym] = val_clear_def val_inc_ref_def val_dec_ref_def val_init_def val_make_nil_def val_make_string_def
  val_make_special_def val_get_string_data_def val_get_string_len_def val_get_objref_def val_make_objref_def val_print_def
  string_malloc_def string_get_def

lemmas [sym] = eval_get_code_recursive_def eval_exec_method_def eval_push_arg_def eval_exec_def
  invoke_syscall_def syscall_args_def with_tasks_def

section \<open>Store, network and tasks\<close>

lemmas [sym] = heap_get_def heap_put_def heap_free_def deref_def Let_def obj_get_global_def obj_set_global_def
  obj_get_code_def obj_get_parent_def obj_get_parent_count_def obj_add_parent_def obj_set_id_def obj_new_def obj_get_id_def

lemmas [sym] = store_get_object_def store_make_object_def store_start_tx_def store_finish_tx_def find_cached_def
  wrap_object_def tx_note_locked_def lobj_lock_def persist_get_def lobj_id_def lobj_object_def lobject_new_def
  lobject_set_object_def lobject_get_object_def lobject_set_lock_def lobject_get_lock_def lobject_upd_def lobject_pin_def
  lobject_unpin_def

lemmas [sym] = cache_get_object_def cache_put_object_def cache_release_object_def cache_new_def bucket_def
  load_exceeded_1024 lru_remove_def ce_upd_def ce_upd_opt_def lru_ends_def evict_id CHAIN_FACTOR_def

lemmas [sym] = lock_new_def lock_lock_def lock_enter_def lock_unlock_def lock_put_def lock_waitgroup_new_def
  groups_released_def locks_new_ctx_def

lemmas [sym] = chain_simps queue_event_callback_def queue_loop.simps handle_request_def make_listener_def net_accept_cb_def
  net_read_cb_def net_write_cb_def buf_add_def buf_drop_def buf_put_def stop_events_def
  net_socket_free_def net_socket_dec_refcount_def net_free_socket_def sock_put_def sock_get_def does_def net_enqueue_item_def
  net_make_listener_def net_socket_init_def net_socket_write_def net_new_ctx_def perform_op_def ntx_get_def ntx_commit_tx_def
  ntx_new_tx_def ntx_socket_write_def ntx_add_op_def

lemmas [sym] = worker_turn_def worker_take_def worker_finish_def handle_item_def attempt_def item_call_def item_args_def
  settle_def vm_init_def vm_get_eval_ctx_def vm_eval_ctx_exec_def EVAL_OK_def on_net_def net_step_def call_back_up_def
  tasks_closed_cb_def tasks_net_socket_free_def syscall_net_socket_free_def tasks_enqueue_item_def tasks_accept_cb_def tasks_read_cb_def tasks_net_make_listener_def tasks_net_accept_socket_def
  tasks_net_socket_write_def syscall_net_make_listener_def syscall_net_accept_socket_def syscall_net_socket_write_def

end
