(* ===== verification/Cmoo_Echo.thy ===== *)
theory Cmoo_Echo
  imports Cmoo_Symbolic
begin

text \<open>
  The server at work: one client connects, sends any number of lines and goes away. The steps of the network thread and the
  turns of a worker alternate, from the start of \<open>main\<close> to the moment when the socket has been freed; all parts
  of the program take part.
\<close>

section \<open>Alternating steps\<close>








section \<open>The states in between\<close>

text \<open>What changes from line to line: the addresses still to come, the numbers of wait groups, transactions and tasks, the
  members of lists that have been freed, what was done to the surroundings, the count of lines, and the list of the cache by
  age, of which \<open>q_lru\<close> has the newest member and what is behind the last two.\<close>

record ready =
  q_avail :: "addr list"
  q_ntx :: "addr list"
  q_txs :: "store_tx option list"
  q_wg :: nat
  q_sid :: "64 word"
  q_tid :: "64 word"
  q_items :: "task_item node option list"
  q_reqs :: "task_cb request node option list"
  q_bufs :: "sbuf node option list"
  q_io :: "task_cb io list"
  q_count :: "32 word"
  q_lru :: "nat \<times> nat \<times> nat"








definition after_turn :: "nat \<Rightarrow> task_cb io list \<Rightarrow> ready \<Rightarrow> ready" where
  "after_turn n es q =
     q\<lparr>q_avail := drop n (q_avail q), q_ntx := tl (q_ntx q), q_txs := q_txs q @ [None], q_wg := q_wg q + 2,
       q_sid := q_sid q + 1, q_tid := q_tid q + 1, q_items := q_items q @ [None], q_reqs := q_reqs q @ [None],
       q_io := q_io q @ es\<rparr>"



definition after_close :: "addr \<Rightarrow> int \<Rightarrow> ready \<Rightarrow> ready" where
  "after_close s fd q =
     (after_turn 2 [Os_close fd, Stop_read s, On_closed TASKS_CLOSED_CB s TASKS_CTX 1001, Async_send] q)\<lparr>q_lru := (3, 4, if q_lru q \<noteq> (3, 4, 4) then 1 else 4)\<rparr>"



section \<open>One event after the other\<close>


















section \<open>The whole connection\<close>






lemma after_close_simps [simp]:
  "written (q_io (after_close s fd q)) = written (q_io q)" "q_count (after_close s fd q) = q_count q"
  "q_txs (after_close s fd q) = q_txs q @ [None]"
  by (simp_all add: after_close_def after_turn_def)





end
