(* ===== verification/Cmoo_Lock_Tests.thy ===== *)
theory Cmoo_Lock_Tests
  imports Cmoo_Lock
begin

text \<open>
  The unit tests of the locks, \<^verbatim>\<open>src/src/test/check_rwlock.c\<close>, run on the model. Their fixture steps a number of threads
  through a number of phases and notes one character for each thread and phase: \<^verbatim>\<open>T\<close>, \<^verbatim>\<open>D\<close> or \<^verbatim>\<open>S\<close> when \<^verbatim>\<open>lock_lock\<close> returns,
  \<^verbatim>\<open>U\<close> after an unlock, a dot when there is nothing to do, and a dash while the thread waits. In the model the threads take
  their steps of a phase in order, and then the waiting ones wake up in order. The five tests of the lock pass; the
  two of the deadlock detection do not, because the victim runs into a memory error.
\<close>

section \<open>The fixture\<close>

datatype test_act = Acquire nat lock_mode | Release nat | Skip

type_synonym tfunc = "nat \<Rightarrow> nat \<Rightarrow> test_act"

record scaff_ctx =
  n_phases :: nat
  results :: string
  test_func :: tfunc
  sc_sys :: lsys
  sc_waits :: "(nat \<times> lock_outcome) option list"

definition scaff_new_ctx :: "nat \<Rightarrow> nat \<Rightarrow> tfunc \<Rightarrow> lsys \<Rightarrow> scaff_ctx" where
  "scaff_new_ctx n np tf s =
     \<lparr>n_phases = np, results = replicate (n * np) CHR ''-'', test_func = tf, sc_sys = s, sc_waits = replicate n None\<rparr>"

fun map_lock_ret :: "lock_code \<Rightarrow> char" where
  "map_lock_ret LOCK_TAKEN = CHR ''T''"
| "map_lock_ret LOCK_DEADLOCK = CHR ''D''"
| "map_lock_ret LOCK_STALE = CHR ''S''"

definition scaff_note :: "nat \<Rightarrow> nat \<Rightarrow> char \<Rightarrow> scaff_ctx \<Rightarrow> scaff_ctx" where
  "scaff_note t p c sc =
     sc\<lparr>results := (results sc)[t * n_phases sc + p := c], sc_waits := (sc_waits sc)[t := None]\<rparr>"

fun scaff_locked :: "nat \<Rightarrow> nat \<Rightarrow> nat \<Rightarrow> scaff_ctx \<Rightarrow> lock_outcome \<times> lsys \<Rightarrow> scaff_ctx" where
  "scaff_locked t p l sc (Returned c, s) = scaff_note t p (map_lock_ret c) (sc\<lparr>sc_sys := s\<rparr>)"
| "scaff_locked t p l sc (o', s) = sc\<lparr>sc_sys := s, sc_waits := (sc_waits sc)[t := Some (l, o')]\<rparr>"

definition scaff_act :: "nat \<Rightarrow> nat \<Rightarrow> scaff_ctx \<Rightarrow> scaff_ctx res" where
  "scaff_act p t sc =
     (case sc_waits sc ! t of
        Some _ \<Rightarrow> Inr sc
      | None \<Rightarrow>
          (case test_func sc t p of
             Acquire l m \<Rightarrow> rbind (lock_enter l m t (sc_sys sc)) (\<lambda>r. Inr (scaff_locked t p l sc r))
           | Release l \<Rightarrow> rbind (lock_unlock l t (sc_sys sc)) (\<lambda>s. Inr (scaff_note t p CHR ''U'' (sc\<lparr>sc_sys := s\<rparr>)))
           | Skip \<Rightarrow> Inr (scaff_note t p CHR ''.'' sc)))"

definition scaff_wake :: "nat \<Rightarrow> nat \<Rightarrow> scaff_ctx \<Rightarrow> scaff_ctx res" where
  "scaff_wake p t sc =
     (case sc_waits sc ! t of
        Some (l, Waiting i) \<Rightarrow> rbind (lock_wait l i t (sc_sys sc)) (\<lambda>r. Inr (scaff_locked t p l sc r))
      | Some (l, Joined i) \<Rightarrow> rbind (join_wait l i (sc_sys sc)) (\<lambda>r. Inr (scaff_locked t p l sc r))
      | _ \<Rightarrow> Inr sc)"

fun each :: "(nat \<Rightarrow> 's \<Rightarrow> 's res) \<Rightarrow> nat list \<Rightarrow> 's \<Rightarrow> 's res" where
  "each f [] s = Inr s"
| "each f (x # xs) s = rbind (f x s) (each f xs)"

definition scaff_phase :: "nat \<Rightarrow> scaff_ctx \<Rightarrow> scaff_ctx res" where
  "scaff_phase p sc =
     rbind (each (scaff_act p) [0..<length (sc_waits sc)] sc) (each (scaff_wake p) [0..<length (sc_waits sc)])"

definition scaff_run :: "scaff_ctx \<Rightarrow> scaff_ctx res" where
  "scaff_run sc = each scaff_phase [0..<n_phases sc] sc"

definition ck_scaff_assert :: "string \<Rightarrow> scaff_ctx \<Rightarrow> unit res" where
  "ck_scaff_assert expected sc = c_assert (results sc = expected)"

text \<open>\<^verbatim>\<open>store_new_mock_tx\<close> returns the new transaction, which its code forgets to say.\<close>

definition mock_tx :: "64 word \<Rightarrow> nat \<Rightarrow> store_tx option" where
  "mock_tx sid cid = Some \<lparr>tx_sid = sid, tx_cid = Some cid, tx_locked = []\<rparr>"

definition fixture :: "nat \<Rightarrow> store_tx option list \<Rightarrow> nat \<Rightarrow> tfunc \<Rightarrow> scaff_ctx" where
  "fixture nlocks ts np tf =
     scaff_new_ctx (length ts) np tf (((snd \<circ> lock_new) ^^ nlocks) (locks_new_ctx (length ts) 10)\<lparr>txs := ts\<rparr>)"

section \<open>The lock\<close>

text \<open>A regular mutex, a lock taken again, a shared lock, one after the other, and three threads that share.\<close>

definition tfunc01 :: tfunc where
  "tfunc01 t p =
     (if t = 0 then (if p = 0 then Acquire 0 LOCK_EXCLUSIVE else if p = 2 then Release 0 else Skip)
      else if t = 1 then (if p = 1 then Acquire 0 LOCK_EXCLUSIVE else if p = 3 then Release 0 else Skip)
      else Skip)"

definition test_rwlock_01 :: "unit res" where
  "test_rwlock_01 = rbind (scaff_run (fixture 1 [mock_tx 0 0, mock_tx 1 1] 4 tfunc01)) (ck_scaff_assert ''T.U..-TU'')"

definition tfunc02 :: tfunc where
  "tfunc02 t p =
     (if t = 0 then (if p = 0 \<or> p = 1 \<or> p = 3 then Acquire 0 LOCK_SHARED
                     else if p = 2 then Acquire 0 LOCK_EXCLUSIVE else if p = 4 then Release 0 else Skip)
      else Skip)"

definition test_rwlock_02 :: "unit res" where
  "test_rwlock_02 = rbind (scaff_run (fixture 1 [mock_tx 0 0] 5 tfunc02)) (ck_scaff_assert ''TTTTU'')"

definition tfunc03 :: tfunc where
  "tfunc03 t p =
     (if t = 0 then (if p = 0 then Acquire 0 LOCK_SHARED else if p = 1 then Acquire 0 LOCK_EXCLUSIVE
                     else if p = 3 then Release 0 else Skip)
      else if t = 1 then (if p = 0 then Acquire 0 LOCK_SHARED else if p = 2 then Release 0 else Skip)
      else Skip)"

definition test_rwlock_03 :: "unit res" where
  "test_rwlock_03 = rbind (scaff_run (fixture 1 [mock_tx 0 0, mock_tx 1 1] 4 tfunc03)) (ck_scaff_assert ''T-TUT.U.'')"

definition tfunc04 :: tfunc where
  "tfunc04 t p =
     (if t = 0 then (if p = 0 then Acquire 0 LOCK_SHARED else if p = 1 then Acquire 0 LOCK_EXCLUSIVE
                     else if p = 2 then Release 0 else Skip)
      else if t = 1 then (if p = 3 then Acquire 0 LOCK_SHARED else if p = 4 then Acquire 0 LOCK_EXCLUSIVE
                          else if p = 5 then Release 0 else Skip)
      else Skip)"

definition test_rwlock_04 :: "unit res" where
  "test_rwlock_04 = rbind (scaff_run (fixture 1 [mock_tx 0 0, mock_tx 1 1] 6 tfunc04)) (ck_scaff_assert ''TTU......TTU'')"

definition tfunc05 :: tfunc where
  "tfunc05 t p =
     (if t = 0 then (if p = 0 then Acquire 0 LOCK_SHARED else if p = 3 then Release 0 else Skip)
      else if t = 1 then (if p = 0 then Acquire 0 LOCK_SHARED else if p = 1 then Acquire 0 LOCK_EXCLUSIVE
                          else if p = 4 then Release 0 else Skip)
      else if t = 2 then (if p = 0 then Acquire 0 LOCK_SHARED else if p = 2 then Release 0 else Skip)
      else Skip)"

definition test_rwlock_05 :: "unit res" where
  "test_rwlock_05 =
     rbind (scaff_run (fixture 1 [mock_tx 0 0, mock_tx 1 1, mock_tx 2 2] 5 tfunc05)) (ck_scaff_assert ''T..U.T--TUT.U..'')"

lemma rwlock_tests_pass:
  "test_rwlock_01 = Inr ()" "test_rwlock_02 = Inr ()" "test_rwlock_03 = Inr ()" "test_rwlock_04 = Inr ()" "test_rwlock_05 = Inr ()"
  by code_simp+

section \<open>Deadlocks\<close>

text \<open>Two threads that lock two locks crosswise; the younger one is the victim.\<close>

definition tfdead01 :: tfunc where
  "tfdead01 t p =
     (if t = 0 then (if p = 0 then Acquire 0 LOCK_EXCLUSIVE else if p = 1 then Acquire 1 LOCK_EXCLUSIVE
                     else if p = 5 then Release 1 else if p = 6 then Release 0 else Skip)
      else if t = 1 then (if p = 0 then Acquire 1 LOCK_EXCLUSIVE else if p = 2 then Acquire 0 LOCK_EXCLUSIVE
                          else if p = 4 then Release 1 else Skip)
      else Skip)"

definition test_deadlock_01 :: "unit res" where
  "test_deadlock_01 =
     rbind (scaff_run (fixture 2 [mock_tx 0 0, mock_tx 1 1] 7 tfdead01)) (ck_scaff_assert ''T---TUUT.D.U..'')"

definition tfdead02 :: tfunc where
  "tfdead02 t p =
     (if t = 0 then (if p = 0 then Acquire 0 LOCK_EXCLUSIVE else if p = 1 then Acquire 1 LOCK_EXCLUSIVE
                     else if p = 3 then Release 1 else if p = 4 then Release 0 else Skip)
      else if t = 1 then (if p = 0 then Acquire 1 LOCK_EXCLUSIVE else if p = 2 then Acquire 0 LOCK_EXCLUSIVE
                          else if p = 5 then Release 0 else if p = 6 then Release 1 else Skip)
      else Skip)"

definition test_deadlock_02 :: "unit res" where
  "test_deadlock_02 =
     rbind (scaff_run (fixture 2 [mock_tx 1 0, mock_tx 0 1] 7 tfdead02)) (ck_scaff_assert ''T-DUU..T.--TUU'')"

lemma deadlock_tests_fail:
  "test_deadlock_01 = Inl Use_after_free" "test_deadlock_02 = Inl Use_after_free"
  by code_simp+

end
