(* ===== verification/Cmoo_Tests.thy ===== *)
theory Cmoo_Tests
  imports Cmoo_Symbolic
begin

text \<open>
  The unit tests of values, objects, the cache and the machine in \<^verbatim>\<open>src/src/test\<close>, run on the model. Each \<^verbatim>\<open>ck_assert\<close>
  is an assertion, and the code of a test is a listing; the lemmas say that the model passes. What the machine traces is
  compared as the test does, by the text that its debug handler appends.
\<close>

section \<open>Values\<close>

text \<open>The bit pattern is that of \<^verbatim>\<open>3.1415f\<close>. The test asks that the integer part of the difference is small.\<close>

definition test_types_01 :: "unit res" where
  "test_types_01 =
     rbind (c_assert (val_type val_make_nil = TYPE_NIL)) (\<lambda>_.
     rbind (c_assert (val_type (val_make_bool True) = TYPE_BOOL)) (\<lambda>_.
     rbind (val_get_bool (val_make_bool True)) (\<lambda>b. rbind (c_assert (b = True)) (\<lambda>_.
     rbind (c_assert (val_type (val_make_bool False) = TYPE_BOOL)) (\<lambda>_.
     rbind (val_get_bool (val_make_bool False)) (\<lambda>b. rbind (c_assert (b = False)) (\<lambda>_.
     rbind (c_assert (val_type (val_make_int 1234) = TYPE_INT)) (\<lambda>_.
     rbind (val_get_int (val_make_int 1234)) (\<lambda>i. rbind (c_assert (i = 1234)) (\<lambda>_.
     rbind (c_assert (val_type (val_make_int (- 5678)) = TYPE_INT)) (\<lambda>_.
     rbind (val_get_int (val_make_int (- 5678))) (\<lambda>i. rbind (c_assert (i = - 5678)) (\<lambda>_.
     rbind (c_assert (val_type (val_make_int 0x77777777) = TYPE_INT)) (\<lambda>_.
     rbind (val_get_int (val_make_int 0x77777777)) (\<lambda>i. rbind (c_assert (i = 0x77777777)) (\<lambda>_.
     rbind (c_assert (val_type (val_make_float 0x40490E56) = TYPE_FLOAT)) (\<lambda>_.
     rbind (val_get_float (val_make_float 0x40490E56)) (\<lambda>f. rbind (c_assert (f = 0x40490E56)) (\<lambda>_.
     rbind (val_make_objref 1234567) (\<lambda>v.
     rbind (c_assert (val_type v = TYPE_OBJREF)) (\<lambda>_.
     rbind (val_get_objref v) (\<lambda>r. c_assert (r = 1234567)))))))))))))))))))))))"

lemma test_types_01: "test_types_01 = Inr ()"
  unfolding test_types_01_def by code_simp

definition test_types_02 :: "sheap \<Rightarrow> sheap res" where
  "test_types_02 h =
     rbind (val_make_string 7 (lit ''test234'') h) (\<lambda>(v, h).
     rbind (c_assert (val_type v = TYPE_STRING)) (\<lambda>_.
     rbind (val_get_string_len v h) (\<lambda>n. rbind (c_assert (n = 7)) (\<lambda>_.
     rbind (val_get_string_data v h) (\<lambda>out.
     rbind (strncmp out (lit ''test234'' @ [0]) 7) (\<lambda>r. rbind (c_assert (r = 0)) (\<lambda>_.
       val_dec_ref v h)))))))"

lemma test_types_02:
  assumes "a AND 7 = 0"
  shows "test_types_02 \<lparr>cells = Map.empty, avail = a # as\<rparr> = Inr \<lparr>cells = Map.empty, avail = as\<rparr>"
proof -
  have "strncmp (lit ''test234'' @ [0]) (lit ''test234'' @ [0]) 7 = Inr 0" by code_simp
  then show ?thesis unfolding test_types_02_def by (simp add: sym assms cong: weak_congs)
qed

section \<open>Objects\<close>

definition is_id :: "object_id res \<Rightarrow> object_id \<Rightarrow> unit res" where
  "is_id r i = rbind r (\<lambda>j. c_assert (j = i))"

definition test_object_01 :: "unit res" where
  "test_object_01 =
     (let ob = obj_new; h = \<lparr>cells = Map.empty, avail = []\<rparr> in
     rbind (c_assert (obj_get_id ob = 0 \<and> obj_get_parent_count ob = 0)) (\<lambda>_.
     let ob = obj_set_id 14 ob in
     rbind (c_assert (obj_get_id ob = 14)) (\<lambda>_.
     let ob = obj_add_parent 12 ob in
     rbind (c_assert (obj_get_parent_count ob = 1)) (\<lambda>_.
     let ob = obj_add_parent 23 (obj_add_parent 45 ob) in
     rbind (c_assert (obj_get_parent_count ob = 3)) (\<lambda>_.
     rbind (is_id (obj_get_parent ob 0) 12) (\<lambda>_. rbind (is_id (obj_get_parent ob 1) 45) (\<lambda>_.
     rbind (is_id (obj_get_parent ob 2) 23) (\<lambda>_.
     rbind (obj_remove_parent 45 ob) (\<lambda>ob.
     rbind (c_assert (obj_get_parent_count ob = 2)) (\<lambda>_.
     rbind (is_id (obj_get_parent ob 0) 12) (\<lambda>_. rbind (is_id (obj_get_parent ob 1) 23) (\<lambda>_.
     rbind (obj_remove_parent 145 ob) (\<lambda>ob.
     rbind (c_assert (obj_get_parent_count ob = 2)) (\<lambda>_.
     rbind (is_id (obj_get_parent ob 0) 12) (\<lambda>_. rbind (is_id (obj_get_parent ob 1) 23) (\<lambda>_.
     rbind (obj_remove_parent 12 ob) (\<lambda>ob. rbind (obj_remove_parent 23 ob) (\<lambda>ob.
     rbind (c_assert (obj_get_parent_count ob = 0)) (\<lambda>_.
     rbind (c_assert (obj_get_code ob (lit ''test'') = (0, None))) (\<lambda>_.
     let cb2 = concat (map encode [NOOP, NOOP, DEBUGI 0x78563412, NOOP, DEBUGI 0xC0]) in
     rbind (obj_set_code (lit ''test2'') (Some cb2) 13 ob) (\<lambda>ob.
     rbind (c_assert (obj_get_code ob (lit ''test2'') = (13, Some cb2))) (\<lambda>_.
     rbind (c_assert (obj_get_code ob (lit ''test'') = (0, None))) (\<lambda>_.
     rbind (obj_get_global ob (lit ''v1'') h) (\<lambda>(v, h). rbind (c_assert (val_type v = TYPE_NIL)) (\<lambda>_.
     rbind (obj_set_global (lit ''v2'') (val_make_int 123) (ob, h)) (\<lambda>(ob, h).
     rbind (obj_get_global ob (lit ''v2'') h) (\<lambda>(v, h). rbind (c_assert (val_type v = TYPE_INT)) (\<lambda>_.
     rbind (val_get_int v) (\<lambda>i. rbind (c_assert (i = 123)) (\<lambda>_.
     rbind (obj_get_global ob (lit ''v1'') h) (\<lambda>(v, h). rbind (c_assert (val_type v = TYPE_NIL)) (\<lambda>_.
       rbind (obj_free ob h) (\<lambda>_. Inr ())))))))))))))))))))))))))))))))))"

text \<open>Removing 45 moves one byte, which happens to be all that the next id has.\<close>

lemma removals:
  "obj_remove_parent 45 \<lparr>obj_id = 14, parent_count = 3, parents = [12, 45, 23], methods = [], globals = []\<rparr> =
     Inr \<lparr>obj_id = 14, parent_count = 2, parents = [12, 23, 23], methods = [], globals = []\<rparr>"
  "obj_remove_parent 145 \<lparr>obj_id = 14, parent_count = 2, parents = [12, 23, 23], methods = [], globals = []\<rparr> =
     Inr \<lparr>obj_id = 14, parent_count = 2, parents = [12, 23, 23], methods = [], globals = []\<rparr>"
  "obj_remove_parent 12 \<lparr>obj_id = 14, parent_count = 2, parents = [12, 23, 23], methods = [], globals = []\<rparr> =
     Inr \<lparr>obj_id = 14, parent_count = 1, parents = [23, 23, 23], methods = [], globals = []\<rparr>"
  "obj_remove_parent 23 \<lparr>obj_id = 14, parent_count = 1, parents = [23, 23, 23], methods = [], globals = []\<rparr> =
     Inr \<lparr>obj_id = 14, parent_count = 0, parents = [23, 23, 23], methods = [], globals = []\<rparr>"
  by code_simp+

lemma test_object_01: "test_object_01 = Inr ()"
  by (simp add: test_object_01_def is_id_def sym removals [unfolded numeral_3_eq_3 numeral_2_eq_2] removals [simplified]
      obj_set_code_def slot_store_def obj_free_def put32_def le_bytes_numeral cong: weak_congs)

section \<open>The cache\<close>

definition new_entry :: "object_id \<Rightarrow> cache \<times> oheap \<Rightarrow> (nat \<times> cache \<times> oheap) res" where
  "new_entry i = (\<lambda>(c, h).
     let (lo, h) = lobject_new h; a = length (objs h); h = h\<lparr>objs := objs h @ [Some (obj_set_id i obj_new)]\<rparr> in
     rbind (lobject_set_object lo (Some a) h) (\<lambda>h.
     rbind (cache_put_object lo (c, h)) (\<lambda>(c, h). rbind (cache_release_object lo (c, h)) (\<lambda>(c, h). Inr (lo, c, h)))))"

definition absent :: "object_id \<Rightarrow> cache \<times> oheap \<Rightarrow> (cache \<times> oheap) res" where
  "absent i s = rbind (cache_get_object i s) (\<lambda>(r, s). rbind (c_assert (r = None)) (\<lambda>_. Inr s))"

definition found_as :: "object_id \<Rightarrow> nat \<Rightarrow> cache \<times> oheap \<Rightarrow> (cache \<times> oheap) res" where
  "found_as i lo s =
     rbind (cache_get_object i s) (\<lambda>(r, s). rbind (c_assert (r = Some lo)) (\<lambda>_. cache_release_object lo s))"

definition test_cache_01 :: "unit res" where
  "test_cache_01 =
     rbind (absent 123 (cache_new 10, \<lparr>objs = [], lobjs = []\<rparr>)) (\<lambda>s.
     rbind (new_entry 456 s) (\<lambda>(lo2, s).
     rbind (absent 123 s) (\<lambda>s. rbind (found_as 456 lo2 s) (\<lambda>s.
     rbind (new_entry 406 s) (\<lambda>(lo4, s).
     rbind (absent 123 s) (\<lambda>s. rbind (absent 405 s) (\<lambda>s. rbind (absent 407 s) (\<lambda>s. rbind (absent 416 s) (\<lambda>s.
     rbind (found_as 456 lo2 s) (\<lambda>s. rbind (found_as 406 lo4 s) (\<lambda>(c, h).
       rbind (cache_free c) (\<lambda>_. Inr ()))))))))))))"

lemma load_exceeded_10: "load_exceeded 1 10 = False" "load_exceeded 2 10 = False"
  by (simp_all add: load_exceeded_def round53_def LOAD_FACTOR_mantissa_def Let_def bit_len.simps)

lemma test_cache_01: "test_cache_01 = Inr ()"
  by (simp add: test_cache_01_def absent_def found_as_def new_entry_def cache_free_def sym load_exceeded_10 [simplified] cong: weak_congs)

section \<open>The machine\<close>

text \<open>What the debug handler of the tests appends to its trace. For a string it writes one byte behind its buffer.\<close>

definition eval_debug_callback :: "val \<Rightarrow> cstring res" where
  "eval_debug_callback v =
     (if val_type v = TYPE_NIL then Inr (lit ''N'')
      else if val_type v = TYPE_BOOL then rbind (val_get_bool v) (\<lambda>b. Inr (if b then lit ''T'' else lit ''F''))
      else if val_type v = TYPE_INT then rbind (val_get_int v) (\<lambda>i. Inr (lit ''I'' @ dec_int (sint i)))
      else if val_type v = TYPE_STRING then Inl Out_of_bounds
      else Inl Assert_failed)"

fun trace_of :: "val list \<Rightarrow> cstring res" where
  "trace_of [] = Inr []"
| "trace_of (v # vs) = rbind (eval_debug_callback v) (\<lambda>s. rbind (trace_of vs) (\<lambda>t. Inr (s @ t)))"

text \<open>\<^verbatim>\<open>eval_exec\<close> in a new context with the debug handler, on a machine of which the tests need no more.\<close>

definition test_host :: "'a store_scheme host" where
  "test_host = \<lparr>h_env = \<lambda>_. None, h_add = (+), h_sub = (-), h_mul = (*), h_fmt = \<lambda>_. [], h_frames = 8\<rparr>"

definition debugged :: "'a store_scheme host \<Rightarrow> nat \<Rightarrow> instr list \<Rightarrow> 'a store_scheme \<Rightarrow> (val list \<times> 'a store_scheme) res option" where
  "debugged H n is w =
     map_option (\<lambda>r. rbind r (\<lambda>(_, c, w). Inr (dbg_trace c, w)))
       (eval_exec H n (concat (map encode is)) (eval_set_dbg_handler (eval_new_ctx 0 0), w))"

definition traced :: "nat \<Rightarrow> instr list \<Rightarrow> 'a store_scheme \<Rightarrow> (cstring \<times> 'a store_scheme) res option" where
  "traced n is w =
     map_option (\<lambda>r. rbind r (\<lambda>(vs, w). rbind (trace_of vs) (\<lambda>t. Inr (t, w)))) (debugged test_host n is w)"

definition test_eval_01 :: "instr list" where
  "test_eval_01 =
     [NOOP, NOOP, DEBUGI 0x78563412, NOOP, DEBUGI 0xC0, ARGS_LOCALS 0 3, DEBUGR 0, LOAD_INT 1 0x02000000, DEBUGR 1,
      TYPE_OF 0 1, DEBUGR 0, TRUE 0, DEBUGR 0, MOV 2 1, DEBUGR 2, HALT]"

definition test_eval_02 :: "instr list" where
  "test_eval_02 =
     [NOOP, ARGS_LOCALS 0 10, TRUE 1, LOGICAL_NOT 0 1, DEBUGR 0, DEBUGR 1, LOGICAL_OR 2 0 1, DEBUGR 2, LOGICAL_OR 3 1 0,
      DEBUGR 3, LOGICAL_OR 4 0 0, DEBUGR 4, LOGICAL_OR 5 1 1, DEBUGR 5, LOGICAL_AND 6 0 1, DEBUGR 6, LOGICAL_AND 7 1 0,
      DEBUGR 7, LOGICAL_AND 8 0 0, DEBUGR 8, LOGICAL_AND 9 1 1, DEBUGR 9, HALT]"

definition test_eval_03 :: "instr list" where
  "test_eval_03 =
     [NOOP, ARGS_LOCALS 0 8, LOAD_INT 0 2, LOAD_INT 1 8, ADD 2 0 1, DEBUGR 2, ADD 3 1 0, DEBUGR 3, SUB 4 0 1, DEBUGR 4,
      SUB 5 1 0, DEBUGR 5, MUL 6 0 1, DEBUGR 6, MUL 7 1 0, DEBUGR 7, HALT]"

definition test_eval_04 :: "instr list" where
  "test_eval_04 =
     [NOOP, ARGS_LOCALS 0 10, LOAD_INT 0 2, LOAD_INT 1 8, LOAD_INT 2 8, EQ 3 0 1, DEBUGR 3, EQ 4 1 2, DEBUGR 4, EQ 5 1 0,
      DEBUGR 5, EQ 6 2 1, DEBUGR 6, EQ 7 3 4, DEBUGR 7, EQ 8 3 5, DEBUGR 8, EQ 9 1 5, DEBUGR 9, HALT]"

definition test_eval_05 :: "instr list" where
  "test_eval_05 =
     [NOOP, ARGS_LOCALS 0 11, LOAD_INT 0 1, LOAD_INT 1 2, LOAD_INT 2 2, LE 3 0 1, DEBUGR 3, LE 4 1 0, DEBUGR 4, LE 5 1 2,
      DEBUGR 5, LE 6 2 1, DEBUGR 6, LT 7 0 1, DEBUGR 7, LT 8 1 0, DEBUGR 8, LT 9 1 2, DEBUGR 9, LT 10 2 1, DEBUGR 10, HALT]"

definition test_eval_06 :: "instr list" where
  "test_eval_06 =
     [NOOP, ARGS_LOCALS 0 4, LOAD_INT 0 6, LOAD_INT 1 0, LOAD_INT 3 1, NOOP, NOOP, NOOP, NOOP, NOOP, NOOP, SUB 0 0 3, DEBUGR 0,
      EQ 2 0 1, DEBUGR 2, JUMP_IF 2 5, JUMP 0xFFFFFFE8, HALT]"

definition test_eval_07 :: "instr list" where
  "test_eval_07 =
     [NOOP, ARGS_LOCALS 0 3, LOAD_INT 2 1, PUSH 2, LOAD_INT 2 2, PUSH 2, LOAD_INT 2 3, PUSH 2, LOAD_INT 2 5, PUSH 2, NOOP,
      POP 0, POP 1, ADD 2 0 1, DEBUGR 2, PUSH 2, POP 0, POP 1, ADD 2 0 1, DEBUGR 2, PUSH 2, POP 0, POP 1, ADD 2 0 1, DEBUGR 2, HALT]"

lemmas test_eval_defs = test_eval_01_def test_eval_02_def test_eval_03_def test_eval_04_def test_eval_05_def test_eval_06_def
  test_eval_07_def

lemma test_start: "(concat (map encode is), 0) = cp is 0"
  by (simp add: cp_def)

lemma tests_ok:
  "list_all instr_ok test_eval_01" "list_all instr_ok test_eval_02" "list_all instr_ok test_eval_03"
  "list_all instr_ok test_eval_04" "list_all instr_ok test_eval_05" "list_all instr_ok test_eval_06" "list_all instr_ok test_eval_07"
  by (simp_all add: test_eval_defs)

lemma tests_length:
  "length test_eval_01 = 16" "length test_eval_02 = 23" "length test_eval_03 = 17" "length test_eval_04 = 20"
  "length test_eval_05 = 22" "length test_eval_06 = 18" "length test_eval_07 = 26"
  by (simp_all add: test_eval_defs)

lemmas tests_fetch = tests_ok [THEN fetch_cp, unfolded tests_length] test_eval_defs [THEN nth_of]

lemmas test_simps = traced_def debugged_def test_host_def eval_new_ctx_def eval_set_dbg_handler_def INITIAL_STACK_SIZE_def test_start tests_fetch
  halt_loop.simps op_debugi_def op_true_def op_mov_def op_type_def op_logical_not_def op_logical_or_def op_logical_and_def
  op_sub_def op_mul_def op_eq_def eq_result_def op_le_def le_result_def eval_debug_callback_def

lemma lit_append: "lit xs @ lit ys = lit (xs @ ys)"
  by (simp add: lit_def)

lemma decs:
  "dec_int 2018915346 = lit ''2018915346''" "dec_int 192 = lit ''192''" "dec_int 33554432 = lit ''33554432''"
  "dec_int 2 = lit ''2''" "dec_int 10 = lit ''10''" "dec_int (- 6) = lit ''-6''" "dec_int 6 = lit ''6''"
  "dec_int 16 = lit ''16''" "dec_int 5 = lit ''5''" "dec_int 4 = lit ''4''" "dec_int 3 = lit ''3''"
  "dec_int 1 = lit ''1''" "dec_int 0 = lit ''0''" "dec_int 8 = lit ''8''" "dec_int 11 = lit ''11''"
  by (simp_all add: dec_int_def dec_digits.simps lit_def)

lemmas traced_simps = sym test_simps decs lit_append

lemma runs_test_eval_01: "traced (20 + n) test_eval_01 w = Some (Inr (lit ''I2018915346I192NI33554432I2TI33554432'', w))"
  by (simp add: traced_simps cong: weak_congs)

lemma runs_test_eval_02: "traced (30 + n) test_eval_02 w = Some (Inr (lit ''FTTTFTFFFT'', w))"
  by (simp add: traced_simps cong: weak_congs)

lemma runs_test_eval_03: "traced (20 + n) test_eval_03 w = Some (Inr (lit ''I10I10I-6I6I16I16'', w))"
  by (simp add: traced_simps cong: weak_congs)

lemma runs_test_eval_04: "traced (30 + n) test_eval_04 w = Some (Inr (lit ''FTFTFTF'', w))"
  by (simp add: traced_simps cong: weak_congs)

lemma runs_test_eval_05: "traced (30 + n) test_eval_05 w = Some (Inr (lit ''TFTTTFFF'', w))"
  by (simp add: traced_simps cong: weak_congs)

lemma runs_test_eval_07: "traced (30 + n) test_eval_07 w = Some (Inr (lit ''I8I10I11'', w))"
  by (simp add: traced_simps cong: weak_congs)

lemma test_06_jumps:
  "jump_to 5 (cp test_eval_06 (Suc (Suc (Suc (Suc (Suc (Suc (Suc (Suc (Suc (Suc (Suc (Suc (Suc (Suc (Suc (Suc 0))))))))))))))))) = cp test_eval_06 17"
  "jump_to 4294967272 (cp test_eval_06 (Suc (Suc (Suc (Suc (Suc (Suc (Suc (Suc (Suc (Suc (Suc (Suc (Suc (Suc (Suc (Suc (Suc 0)))))))))))))))))) = cp test_eval_06 10"
  "jump_to 5 (cp test_eval_06 16) = cp test_eval_06 17" "jump_to 4294967272 (cp test_eval_06 17) = cp test_eval_06 10"
  by (simp_all add: jump_to_def cp_def test_eval_06_def put32_def)

lemma runs_test_eval_06: "traced (70 + n) test_eval_06 w = Some (Inr (lit ''I5FI4FI3FI2FI1FI0T'', w))"
  by (simp add: traced_simps test_06_jumps cong: weak_congs)

text \<open>The numbers of \<^verbatim>\<open>test_eval_08\<close> are put into the code by \<^verbatim>\<open>memcpy\<close>; how they are added, subtracted and
  printed is up to the C library.\<close>

definition test_eval_08 :: "32 word \<Rightarrow> 32 word \<Rightarrow> 32 word \<Rightarrow> instr list" where
  "test_eval_08 v1 v2 v3 =
     [NOOP, ARGS_LOCALS 0 4, LOAD_FLOAT 0 v1, LOAD_FLOAT 1 v2, LOAD_FLOAT 2 v3, DEBUGR 0, DEBUGR 1, DEBUGR 2, ADD 3 0 1,
      DEBUGR 3, ADD 3 0 2, DEBUGR 3, ADD 3 1 2, DEBUGR 3, SUB 3 0 1, DEBUGR 3, SUB 3 0 2, DEBUGR 3, SUB 3 1 2, DEBUGR 3, HALT]"

lemma test_08_fetch:
  "k < 21 \<Longrightarrow> fetch (cp (test_eval_08 x y z) k) = Inr (test_eval_08 x y z ! k, cp (test_eval_08 x y z) (Suc k))"
  by (rule fetch_cp) (simp_all add: test_eval_08_def)

lemma runs_test_eval_08:
  "debugged H (30 + n) (test_eval_08 x y z) w =
     Some (Inr (map val_make_float [x, y, z, h_add H x y, h_add H x z, h_add H y z, h_sub H x y, h_sub H x z, h_sub H y z], w))"
  by (simp add: test_08_fetch test_eval_08_def [THEN nth_of] op_load_float_def traced_simps cong: weak_congs)

section \<open>System calls\<close>

text \<open>The two system calls of the test count in a global variable.\<close>

record counting = store +
  scall_count :: "32 word"

definition sys_t0 :: "nat option \<Rightarrow> counting \<Rightarrow> (val \<times> counting) res" where
  "sys_t0 p w = Inr (val_make_nil, w\<lparr>scall_count := scall_count w + 1\<rparr>)"

definition sys_t1 :: "nat option \<Rightarrow> val \<Rightarrow> counting \<Rightarrow> (val \<times> counting) res" where
  "sys_t1 p v w = rbind (val_get_int v) (\<lambda>i. Inr (val_make_nil, w\<lparr>scall_count := scall_count w + i\<rparr>))"

definition test_eval_09_code :: "instr list" where
  "test_eval_09_code =
     [NOOP, ARGS_LOCALS 0 3, LOAD_STRING 0 (lit ''sys_t0''), LOAD_STRING 1 (lit ''sys_t1''), LOAD_INT 2 5, PUSH 0, SYSCALL 0,
      PUSH 1, PUSH 2, SYSCALL 1, HALT]"

definition test_eval_09_syscall :: "nat \<Rightarrow> counting \<Rightarrow> counting res option" where
  "test_eval_09_syscall n w =
     (let st = syscall_table_add_a1 (lit ''sys_t1'') sys_t1 (syscall_table_add_a0 (lit ''sys_t0'') sys_t0 syscall_table_new) in
      map_option (\<lambda>r. rbind r (\<lambda>(_, _, w). rbind (c_assert (scall_count w = 6)) (\<lambda>_. Inr w)))
        (eval_exec test_host n (concat (map encode test_eval_09_code))
           (eval_set_syscall_table st (eval_new_ctx 0 0), w\<lparr>scall_count := 0\<rparr>)))"

lemma test_09_fetch:
  "k < 11 \<Longrightarrow> fetch (cp test_eval_09_code k) = Inr (test_eval_09_code ! k, cp test_eval_09_code (Suc k))"
  by (rule fetch_cp) (simp_all add: test_eval_09_code_def)

lemma string_addrs: "string_addr 12 = 8" "string_addr 20 = 16" "string_addr 28 = 24" "string_addr 36 = 32" "string_addr 44 = 40"
  by code_simp+

lemma runs_test_eval_09:
  assumes "strs w = \<lparr>cells = Map.empty, avail = 8 # 16 # as\<rparr>"
  shows "test_eval_09_syscall (20 + n) w = Some (Inr (w\<lparr>scall_count := 6, strs := \<lparr>cells = Map.empty, avail = as\<rparr>\<rparr>))"
  by (simp add: test_eval_09_syscall_def test_09_fetch test_eval_09_code_def [THEN nth_of] assms traced_simps string_addrs
      eval_set_syscall_table_def syscall_table_add_a1_def syscall_table_add_a0_def syscall_table_add_def syscall_table_new_def
      sys_t0_def sys_t1_def cong: weak_congs)

section \<open>Strings\<close>

text \<open>The machine runs this test to its end. The trace is not what the test expects, since the debug handler of the test
  writes behind its buffer.\<close>

definition test_eval_10 :: "instr list" where
  "test_eval_10 =
     [NOOP, ARGS_LOCALS 0 6, LOAD_STRING 0 (lit ''test''), LOAD_STRING 1 (lit ''test''), LOAD_STRING 2 (lit ''zicke''),
      DEBUGR 0, DEBUGR 1, DEBUGR 2, EQ 3 0 1, DEBUGR 3, EQ 3 1 2, DEBUGR 3, LOAD_STRING 3 [], LOAD_INT 4 0, LENGTH_OF 5 3,
      DEBUGR 5, LENGTH_OF 5 1, DEBUGR 5, CONCAT 3 1 2, LENGTH_OF 5 3, DEBUGR 5, DEBUGR 3, HALT]"

lemma test_10_fetch: "k < 23 \<Longrightarrow> fetch (cp test_eval_10 k) = Inr (test_eval_10 ! k, cp test_eval_10 (Suc k))"
  by (rule fetch_cp) (simp_all add: test_eval_10_def)

lemma strncmps: "strncmp (lit ''test'' @ [0]) (lit ''test'' @ [0]) 4 = Inr 0"
  by code_simp

lemma runs_test_eval_10:
  assumes "strs w = \<lparr>cells = Map.empty, avail = 8 # 16 # 24 # 32 # 40 # as\<rparr>"
  shows "debugged test_host (30 + n) test_eval_10 w =
    Some (Inr ([12, 20, 28, val_make_bool True, val_make_bool False, val_make_int 0, val_make_int 4, val_make_int 9, 44],
      w\<lparr>strs := \<lparr>cells = Map.empty, avail = as\<rparr>\<rparr>))"
  by (simp add: test_10_fetch test_eval_10_def [THEN nth_of] assms traced_simps string_addrs strncmps cong: weak_congs)

lemma test_10_trace: "trace_of (12 # vs) = Inl Out_of_bounds"
  by (simp add: eval_debug_callback_def val_type_num)

end
