(* ===== verification/Spec2Isabelle.thy ===== *)
theory Spec2Isabelle
  imports Cmoo_Lock_Props Cmoo_Data_Props Cmoo_Call_Props Cmoo_Store_Props Cmoo_Net_Props Cmoo_Task_Props Cmoo_Echo
    Cmoo_Lock_Tests Cmoo_Tests
begin

text \<open>
  A model of the cmoo4 driver (the C files directly under \<^verbatim>\<open>src/src\<close>), a multi-user server in which
  objects with methods in bytecode answer network events.

  \<^bold>\<open>The program.\<close> \<^verbatim>\<open>main.c\<close> puts the subsystems together. The network thread (\<^verbatim>\<open>net.c\<close>) accepts connections, reads and writes; its callbacks put
  work items into the queue of the tasks (\<^verbatim>\<open>tasks.c\<close>). A worker thread takes an item, starts a
  transaction of the store (\<^verbatim>\<open>store.c\<close>) through the interface of the virtual machine (\<^verbatim>\<open>vm.c\<close>), and runs
  a method of an object (\<^verbatim>\<open>eval.c\<close>). Objects are found in the cache (\<^verbatim>\<open>cache.c\<close>) or read from the
  persistence layer (\<^verbatim>\<open>persist.c\<close>), and are locked (\<^verbatim>\<open>lock.c\<close>) until the transaction ends. Methods reach
  the network by system calls; what they write is batched in a network transaction (\<^verbatim>\<open>ntx.c\<close>) that is
  committed or rolled back with the item, and passed on as requests to the network thread.

  \<^bold>\<open>Conventions.\<close> An operation is a function of the state with a result in \<open>res\<close>: \<open>Inr\<close> with what is
  returned and the new state, or \<open>Inl\<close> with a \<open>fault\<close>, which is a failing assertion, an exit, a wait that never
  ends, or undefined behaviour at the place where it arises. Structures that are shared or freed live
  in heaps: lists of optional structures indexed by the order of allocation, or maps from addresses
  where the address ends up in a value. Values, ids and bytes are words of their width. Messages to the
  terminal are left out, but what has to be read to print them is read. Memory that is never freed
  again is not counted. Mutexes are not modelled: what the code does while it holds one is a step.

  \<^bold>\<open>Theories.\<close>
  \<^item> \<open>Cmoo_Base\<close>: machine types, faults, heaps, byte sequences, and the interface \<open>slot_table\<close> of named
    slots. \<open>Cmoo_Queue\<close>: linked lists with both ends, and the interface \<open>fifo\<close> of a queue, which the work
    items (\<open>items\<close>), the socket buffers (\<open>bufs\<close>) and the bare list (\<open>chain_fifo\<close>) provide.
  \<^item> \<open>Cmoo_Types\<close> (\<^verbatim>\<open>types.c\<close>, \<^verbatim>\<open>defs.h\<close>): tagged values and reference counted strings. \<open>Cmoo_Strings\<close>: the
    abstract values, and \<open>refs_ok\<close>, the invariant that each count is the number of references.
  \<^item> \<open>Cmoo_Object\<close> (\<^verbatim>\<open>object.c\<close>), \<open>Cmoo_Lobject\<close> (\<^verbatim>\<open>lobject.c\<close>), \<open>Cmoo_Cache\<close> (\<^verbatim>\<open>cache.c\<close>), \<open>Cmoo_Persist\<close>
    (\<^verbatim>\<open>persist.c\<close>): objects, their lockable wrappers, the cache with its hash chains and its list by age, and the
    list of persisted objects with the methods the system starts with. \<open>Cmoo_Opcodes\<close> (\<^verbatim>\<open>eval.h\<close>): the decoder and an
    assembler; \<open>Cmoo_Boot\<close>: the bootstrap methods as assembler listings.
  \<^item> \<open>Cmoo_Lock\<close> (\<^verbatim>\<open>lock.c\<close>): wait groups, the wait-for graph and its search. A call of \<^verbatim>\<open>lock_lock\<close> is cut at its
    waits: \<open>lock_enter\<close> up to the first, \<open>lock_wait\<close> and \<open>join_wait\<close> behind one. \<open>Cmoo_Lock_Spec\<close>: the abstract
    fair lock. \<open>Cmoo_Lock_Refine\<close>: the code implements it, and the step relation \<open>lk_step\<close> that interleaves the
    calls of all transactions. \<open>Cmoo_Deadlock\<close>: the search, and runs in which it is wrong.
  \<^item> \<open>Cmoo_Store\<close> (\<^verbatim>\<open>store.c\<close>): the record \<open>store\<close> and transactions; \<open>lock_lock\<close> here is a whole call, in which
    the parameter \<open>env\<close> is what the other threads do while it waits. \<open>Cmoo_Store_Lemmas\<close>: what its operations leave alone.
  \<^item> \<open>Cmoo_Eval\<close> (\<^verbatim>\<open>eval.c\<close>): one definition for each instruction, method lookup, decoding and running, the system
    call table. A stack cell remembers which member of the C union was written. \<open>Cmoo_Eval_Refs\<close>: every
    instruction keeps the reference counts exact. \<open>Cmoo_Eval_Cells\<close>: registers and cells. \<open>Cmoo_Eval_Types\<close>: the
    form of the stack that every instruction keeps, and the interfaces \<open>cell_faults\<close> and \<open>member_faults\<close> of a set of
    faults that an operation can be shown not to have. \<open>Cmoo_Eval_Store\<close>: the interface \<open>store_client\<close> of a property
    of the store that the operations of the store keep, and so every instruction and every run of the machine.
  \<^item> \<open>Cmoo_Net\<close> (\<^verbatim>\<open>net.c\<close>), \<open>Cmoo_Ntx\<close> (\<^verbatim>\<open>ntx.c\<close>), \<open>Cmoo_Tasks\<close> and \<open>Cmoo_Worker\<close> (\<^verbatim>\<open>tasks.c\<close>), \<open>Cmoo_Vm\<close> (\<^verbatim>\<open>vm.c\<close>): the
    record \<open>driver\<close> extends \<open>store\<close> by the network, the network transactions and the queue, and is the state of
    the whole program. What the network does to its surroundings is recorded in \<open>io\<close>; \<open>net_step\<close> passes the
    callbacks in it on to the tasks. \<open>pool_step\<close> is the step relation of the worker threads.
  \<^item> \<open>Cmoo_World\<close>: the interface \<open>store_user\<close>, which adds the transactions, and \<open>world_run\<close>, the runs of all threads together,
    cut at the operations of the store; turns of a worker and steps of the network are such runs. \<open>Cmoo_Orderly\<close> (locks and
    transactions) and \<open>Cmoo_Stock\<close> (cache and objects): invariants of these runs, as interpretations of the interface.
    \<open>Cmoo_Make\<close>: when an object can be made. \<open>Cmoo_Main\<close> (\<^verbatim>\<open>main.c\<close>): the state the server starts in, and its end.
    \<open>Cmoo_Symbolic\<close>: what the simplifier needs to run the bootstrap methods on symbolic states. \<open>Cmoo_Echo\<close>: steps of the network and
    turns of a worker, played from the start until a client has come, sent any number of lines, and gone.
  \<^item> \<open>Cmoo_Lock_Props\<close>, \<open>Cmoo_Data_Props\<close>, \<open>Cmoo_Eval_Props\<close>, \<open>Cmoo_Call_Props\<close>, \<open>Cmoo_Store_Props\<close>, \<open>Cmoo_Net_Props\<close>,
    \<open>Cmoo_Task_Props\<close>: the properties, each with an example of its use; those of whole runs are in \<open>Cmoo_Main\<close> and
    \<open>Cmoo_Echo\<close>.
  \<^item> \<open>Cmoo_Lock_Tests\<close> and \<open>Cmoo_Tests\<close> (\<^verbatim>\<open>src/src/test\<close>): the unit tests of the repository, run on the model. All pass but
    the two of the deadlock detection, whose victim is lost, and the one of strings, whose debug handler is wrong.

  \<^bold>\<open>What is shown.\<close>
  \<^item> All parts together (C1): the server echoes every line of a client, counts the long ones, and leaves nothing behind.
  \<^item> Locks (C2 to C12): the lock implements a fair queue of groups, an exclusive lock excludes in every
    interleaving, and a woken transaction holds the lock. The search of the detector is correct and ends for the
    graph it is given, but the graph is not kept up to date: deadlocks are reported where there are none, and
    missed, the search may not end, and the victim of a deadlock always runs into a memory error.
  \<^item> Data (C13 to C21): values and serialised code survive a round trip, reference counts stay exact, methods, globals and
    cache are maps; errors in copying objects, removing parents and evicting from the cache; the bootstrap methods decode.
  \<^item> Virtual machine (C22 to C27): every instruction keeps the reference counts, arithmetic is exact or undefined,
    comparisons with their deviations, a return undoes a call, the stack is a chain of frames whose cells are
    read as what they are, and code without backward jumps ends.
  \<^item> Store (C28 to C30): ids of transactions, getting and locking objects, and the release of all locks at the end.
  \<^item> Network and tasks (C31 to C36): output in order as long as no write fails, and its end when one does; what a
    network transaction keeps; the order of work items; items that are retried for ever; and the way from the system call
    that opens a port to the item that names the accepted socket.
  \<^item> The whole program (C37 to C40): the start, the number of objects and the invariants of all runs from
    there, and the end, which does not come.
  \<^item> Further facts are lemmas: the persistence layer is a map of ids, the cache aborts when it should grow (the abstract form
    of C38), strings are ordered without regard to their length, and a comparison into one of its own operands reads what it wrote.

  \<^bold>\<open>Parameters and bounds.\<close> Single precision arithmetic and \<^verbatim>\<open>%f\<close> of the C library, the depth of the C stack (\<open>h_frames\<close>,
  for the search of methods and of deadlocks), the other threads (\<open>h_env\<close>), the addresses that \<^verbatim>\<open>malloc\<close> returns
  (\<open>avail\<close>, \<open>ntx_avail\<close>), and the answers of the operating system are arguments. Code may run for ever, so \<open>eval_run\<close> and
  the functions above it have a number of instructions, and \<open>retry_loop\<close> a number of attempts, after which the result is
  \<open>None\<close>; C27 gives a number that is enough for code without backward jumps, and C35 a case in which none is. The loops over
  linked structures that free their members (\<open>free_entries\<close>, \<open>free_buffers\<close>, \<open>commit_loop\<close>) count the members of the
  heap: when the count is used up all of them are freed, and going on is a use after free. All other loops are total functions.

  \<^bold>\<open>Not modelled.\<close> The event loop of libev behind \<^verbatim>\<open>net_thread_func\<close>, functions
  that only release memory (\<^verbatim>\<open>eval_free_ctx\<close>, \<^verbatim>\<open>vm_free\<close>, \<^verbatim>\<open>tasks_free_ctx\<close> and the like), failures to create mutexes and
  threads, the compiler prototype in \<^verbatim>\<open>ccsample\<close>.
\<close>

end
